(* ===== verification/Prelude.thy ===== *)
theory Prelude
  imports Main "HOL-Library.Multiset"
begin

text \<open>
  Shared ground of the development: the lemma collections, the 64-bit integers of Go, the
  list functions that stand for table scans and for ORDER BY, and the facts about them that
  every component uses.
\<close>

section \<open>Collections\<close>

text \<open>
  \<open>pres\<close> collects the rules that an operation preserves an invariant of the tables,
  \<open>calm\<close> the rules that it brings no failures with it,
  \<open>run_simps\<close> the equations that run database programs on a state without faults, and
  \<open>const_simps\<close> the string constants of the source.
\<close>

named_theorems pres
named_theorems calm
named_theorems run_simps
named_theorems const_simps

section \<open>Machine integers\<close>

text \<open>
  Go's \<open>int64\<close> (and \<open>int\<close> on the supported platforms) wraps around on overflow. Values are
  kept as \<open>int\<close>; \<open>int64\<close> reduces the result of an addition to the two's complement range.
\<close>

definition int64_min :: int where "int64_min = - (2 ^ 63)"
definition int64_max :: int where "int64_max = 2 ^ 63 - 1"

definition int64 :: "int \<Rightarrow> int" where
  "int64 x = (x + 2 ^ 63) mod 2 ^ 64 - 2 ^ 63"

lemma int64_id: "int64_min \<le> x \<Longrightarrow> x \<le> int64_max \<Longrightarrow> int64 x = x"
  by (simp add: int64_def int64_min_def int64_max_def)

lemma int64_range: "int64_min \<le> int64 x \<and> int64 x \<le> int64_max"
proof -
  have "0 \<le> (x + 2 ^ 63) mod 2 ^ 64" and "(x + 2 ^ 63) mod 2 ^ 64 < (2 ^ 64 :: int)"
    by simp_all
  then show ?thesis by (simp add: int64_def int64_min_def int64_max_def)
qed

lemma int64_small: "0 \<le> x \<Longrightarrow> x < 2 ^ 63 \<Longrightarrow> int64 x = x"
  by (rule int64_id) (simp_all add: int64_min_def int64_max_def)

section \<open>Table scans\<close>

text \<open>
  A table is a list of rows in insertion order. A SELECT of one row is \<open>find\<close>, a DELETE is
  \<open>filter\<close>, an UPDATE is \<open>update_where\<close>.
\<close>

definition update_where :: "('a \<Rightarrow> bool) \<Rightarrow> ('a \<Rightarrow> 'a) \<Rightarrow> 'a list \<Rightarrow> 'a list" where
  "update_where p f xs = map (\<lambda>x. if p x then f x else x) xs"

lemma update_where_Nil [simp]: "update_where p f [] = []"
  and update_where_Cons [simp]:
    "update_where p f (x # xs) = (if p x then f x else x) # update_where p f xs"
  by (simp_all add: update_where_def)

lemma length_update_where [simp]: "length (update_where p f xs) = length xs"
  by (simp add: update_where_def)

lemma map_update_where [simp]:
  "(\<And>x. p x \<Longrightarrow> g (f x) = g x) \<Longrightarrow> map g (update_where p f xs) = map g xs"
  by (simp add: update_where_def)

lemma update_where_idle: "(\<And>x. x \<in> set xs \<Longrightarrow> \<not> p x) \<Longrightarrow> update_where p f xs = xs"
  by (induction xs) auto

lemma in_set_update_where:
  "y \<in> set (update_where p f xs) \<longleftrightarrow>
     (\<exists>x \<in> set xs. (p x \<and> y = f x) \<or> (\<not> p x \<and> y = x))"
  by (auto simp: update_where_def)

lemma in_set_update_whereE:
  assumes "y \<in> set (update_where p f xs)"
  obtains (hit) x where "x \<in> set xs" and "p x" and "y = f x"
  | (same) "y \<in> set xs" and "\<not> p y"
  using assms unfolding in_set_update_where by blast

lemma image_update_where:
  "(\<And>x. x \<in> set xs \<Longrightarrow> p x \<Longrightarrow> g (f x) = g x) \<Longrightarrow> g ` set (update_where p f xs) = g ` set xs"
  by (induction xs) auto

lemma filter_update_where_same:
  "(\<And>x. p x \<Longrightarrow> q (f x) = q x) \<Longrightarrow>
     filter q (update_where p f xs) = update_where p f (filter q xs)"
  by (induction xs) auto

lemma find_append: "find p (xs @ ys) = (case find p xs of None \<Rightarrow> find p ys | Some x \<Rightarrow> Some x)"
  by (induction xs) auto

lemma find_SomeD: "find p xs = Some x \<Longrightarrow> x \<in> set xs \<and> p x"
  by (induction xs) (auto split: if_splits)

lemma find_NoneD: "find p xs = None \<Longrightarrow> x \<in> set xs \<Longrightarrow> \<not> p x"
  by (simp add: find_None_iff)

lemma find_eq_None: "find p xs = None \<longleftrightarrow> (\<forall>x \<in> set xs. \<not> p x)"
  by (auto simp: find_None_iff)

lemma find_not_None: "find p xs \<noteq> None \<longleftrightarrow> (\<exists>x \<in> set xs. p x)"
  by (auto simp: find_None_iff)

lemma find_map: "find p (map f xs) = map_option f (find (p \<circ> f) xs)"
  by (induction xs) auto

lemma find_update_where:
  "(\<And>x. q x \<Longrightarrow> p (f x) = p x) \<Longrightarrow>
     find p (update_where q f xs) = map_option (\<lambda>x. if q x then f x else x) (find p xs)"
  by (induction xs) auto

lemma find_filter: "find p (filter q xs) = find (\<lambda>x. q x \<and> p x) xs"
  by (induction xs) auto

lemma find_cong_pred: "(\<And>x. x \<in> set xs \<Longrightarrow> p x = q x) \<Longrightarrow> find p xs = find q xs"
  by (induction xs) auto

text \<open>With a unique key, the row that \<open>find\<close> returns is the only one that matches.\<close>

lemma find_unique:
  assumes "distinct (map g xs)" and "x \<in> set xs"
  shows "find (\<lambda>y. g y = g x) xs = Some x"
  using assms by (induction xs) (auto simp: rev_image_eqI)

lemma find_key_Some:
  "distinct (map g xs) \<Longrightarrow> find (\<lambda>y. g y = a) xs = Some x \<longleftrightarrow> x \<in> set xs \<and> g x = a"
  using find_unique [of g xs] find_SomeD [of "\<lambda>y. g y = a" xs x] by auto

lemma distinct_map_filter: "distinct (map g xs) \<Longrightarrow> distinct (map g (filter p xs))"
  by (induction xs) auto

lemma distinct_map_snoc:
  "distinct (map g (xs @ [x])) \<longleftrightarrow> distinct (map g xs) \<and> g x \<notin> g ` set xs"
  by auto

text \<open>Unique key after an UPDATE of one row whose new key is not taken by another row.\<close>

lemma distinct_update_where:
  assumes "distinct (map g xs)" and "\<And>x y. x \<in> set xs \<Longrightarrow> y \<in> set xs \<Longrightarrow> p x \<Longrightarrow> p y \<Longrightarrow> g x = g y"
    and "\<And>x y. x \<in> set xs \<Longrightarrow> y \<in> set xs \<Longrightarrow> p x \<Longrightarrow> \<not> p y \<Longrightarrow> g (f x) \<noteq> g y"
  shows "distinct (map g (update_where p f xs))"
  using assms
proof (induction xs)
  case Nil
  then show ?case by simp
next
  case (Cons x xs)
  have IH: "distinct (map g (update_where p f xs))"
    using Cons.prems by (intro Cons.IH) auto
  have "g (if p x then f x else x) \<notin> g ` set (update_where p f xs)"
  proof
    assume "g (if p x then f x else x) \<in> g ` set (update_where p f xs)"
    then obtain y where y: "y \<in> set xs"
      and eq: "g (if p x then f x else x) = g (if p y then f y else y)"
      by (auto simp: update_where_def)
    have ne: "g x \<noteq> g y" using Cons.prems(1) y by auto
    show False
    proof (cases "p x = p y")
      case True
      then show False using ne eq Cons.prems(2) [of x y] y by (auto split: if_splits)
    next
      case False
      have "x \<in> set (x # xs)" "y \<in> set (x # xs)" using y by auto
      then show False using False eq Cons.prems(3) [of x y] Cons.prems(3) [of y x]
        by (cases "p x") auto
    qed
  qed
  with IH show ?case by simp
qed

section \<open>ORDER BY\<close>

text \<open>
  Sorting by a comparison: stable insertion sort. Rows that compare equal keep table order;
  SQL leaves their order open, so no property relies on it.
\<close>

fun insert_by :: "('a \<Rightarrow> 'a \<Rightarrow> bool) \<Rightarrow> 'a \<Rightarrow> 'a list \<Rightarrow> 'a list" where
  "insert_by le x [] = [x]"
| "insert_by le x (y # ys) = (if le x y then x # y # ys else y # insert_by le x ys)"

fun sort_by :: "('a \<Rightarrow> 'a \<Rightarrow> bool) \<Rightarrow> 'a list \<Rightarrow> 'a list" where
  "sort_by le [] = []"
| "sort_by le (x # xs) = insert_by le x (sort_by le xs)"

lemma mset_insert_by [simp]: "mset (insert_by le x xs) = add_mset x (mset xs)"
  by (induction xs) auto

lemma mset_sort_by [simp]: "mset (sort_by le xs) = mset xs"
  by (induction xs) auto

lemma set_sort_by [simp]: "set (sort_by le xs) = set xs"
  by (metis mset_sort_by set_mset_mset)

lemma length_sort_by [simp]: "length (sort_by le xs) = length xs"
  by (metis mset_sort_by size_mset)

lemma distinct_map_sort_by [simp]: "distinct (map g (sort_by le xs)) = distinct (map g xs)"
  by (metis mset_map mset_sort_by mset_eq_imp_distinct_iff)

lemma sorted_wrt_insert_by:
  assumes total: "\<And>a b. le a b \<or> le b a" and trans: "\<And>a b c. le a b \<Longrightarrow> le b c \<Longrightarrow> le a c"
    and "sorted_wrt le xs"
  shows "sorted_wrt le (insert_by le x xs)"
  using assms(3)
proof (induction xs)
  case Nil
  then show ?case by simp
next
  case (Cons y ys)
  show ?case
  proof (cases "le x y")
    case True
    with Cons.prems show ?thesis by (auto intro: trans)
  next
    case False
    with total have "le y x" by blast
    moreover have "set (insert_by le x ys) = insert x (set ys)"
      by (metis mset_insert_by set_mset_add_mset_insert set_mset_mset)
    ultimately show ?thesis using Cons False by auto
  qed
qed

lemma sorted_wrt_sort_by:
  assumes "\<And>a b. le a b \<or> le b a" and "\<And>a b c. le a b \<Longrightarrow> le b c \<Longrightarrow> le a c"
  shows "sorted_wrt le (sort_by le xs)"
  by (induction xs) (auto intro: sorted_wrt_insert_by [OF assms])

text \<open>Sorting rows with a unique key does not change what is found under a key.\<close>

lemma map_of_sort_by:
  assumes "distinct (map fst xs)"
  shows "map_of (sort_by le xs) = map_of xs"
proof -
  have "distinct (map fst (sort_by le xs))" using assms by simp
  then show ?thesis using assms
    by (intro map_of_inject_set [THEN iffD2]) simp_all
qed

section \<open>Optional maps\<close>

lemma map_of_filter_key:
  "map_of (filter (\<lambda>(a, b). P a) xs) = (\<lambda>a. if P a then map_of xs a else None)"
  by (induction xs) (auto simp: fun_eq_iff)

end
