(* ===== verification/Models.thy ===== *)
theory Models
  imports Prelude
begin

text \<open>
  The data of \<open>internal/store/models.go\<close>: the role, level and change-type constants and one
  record per table row. A row carries every column of its table in \<open>migrations/\<close>, also the
  columns that the Go struct leaves out (the token hash, the heartbeat time of a
  connection). Time stamps are microseconds as \<open>int\<close>, ids are \<open>int\<close>, texts are byte strings.
\<close>

section \<open>Constants\<close>

definition RoleAdmin :: string where "RoleAdmin = ''admin''"
definition RoleUser :: string where "RoleUser = ''user''"

definition LevelViewer :: string where "LevelViewer = ''viewer''"
definition LevelEditor :: string where "LevelEditor = ''editor''"

definition ChangeCreate :: string where "ChangeCreate = ''create''"
definition ChangeUpdate :: string where "ChangeUpdate = ''update''"
definition ChangeDelete :: string where "ChangeDelete = ''delete''"
definition ChangeRollback :: string where "ChangeRollback = ''rollback''"

lemmas model_consts [const_simps] =
  RoleAdmin_def RoleUser_def LevelViewer_def LevelEditor_def
  ChangeCreate_def ChangeUpdate_def ChangeDelete_def ChangeRollback_def

lemma role_distinct [simp]: "RoleAdmin \<noteq> RoleUser" "RoleUser \<noteq> RoleAdmin"
  by (simp_all add: model_consts)

lemma level_distinct [simp]:
  "LevelViewer \<noteq> LevelEditor" "LevelEditor \<noteq> LevelViewer"
  "LevelViewer \<noteq> []" "LevelEditor \<noteq> []" "[] \<noteq> LevelViewer" "[] \<noteq> LevelEditor"
  by (simp_all add: model_consts)

lemma change_distinct [simp]:
  "ChangeCreate \<noteq> ChangeDelete" "ChangeUpdate \<noteq> ChangeDelete" "ChangeRollback \<noteq> ChangeDelete"
  "ChangeDelete \<noteq> ChangeCreate" "ChangeDelete \<noteq> ChangeUpdate" "ChangeDelete \<noteq> ChangeRollback"
  "ChangeCreate \<noteq> ChangeUpdate" "ChangeUpdate \<noteq> ChangeCreate"
  "ChangeCreate \<noteq> ChangeRollback" "ChangeRollback \<noteq> ChangeCreate"
  "ChangeUpdate \<noteq> ChangeRollback" "ChangeRollback \<noteq> ChangeUpdate"
  by (simp_all add: model_consts)

section \<open>Rows\<close>

record user =
  u_id :: int
  u_subject :: string
  u_email :: string
  u_name :: string
  u_role :: string
  u_created :: int

record service =
  s_id :: int
  s_key :: string
  s_name :: string
  s_desc :: string
  s_tags :: "string list"
  s_created :: int
  s_by :: string

record connection_client =
  c_id :: int
  c_service :: int
  c_replica :: string
  c_conn :: string
  c_peer :: string
  c_connected :: int
  c_updated :: int

record api_token =
  t_id :: int
  t_user :: int
  t_name :: string
  t_hash :: string
  t_created :: int
  t_last_used :: "int option"

record variable =
  v_id :: int
  v_service :: int
  v_key :: string
  v_value :: string
  v_version :: int
  v_updated_at :: int
  v_updated_by :: string

record variable_version =
  vv_id :: int
  vv_service :: int
  vv_key :: string
  vv_value :: string
  vv_version :: int
  vv_change :: string
  vv_at :: int
  vv_by :: string

record service_permission =
  p_id :: int
  p_user :: int
  p_service :: int
  p_level :: string

text \<open>
  The details of an audit entry are a Go \<open>map[string]any\<close> whose values are strings, integers
  or booleans: an association list, whose order stands for one iteration order of the map.
\<close>

datatype detail = DStr string | DInt int | DBool bool

record audit_entry =
  a_id :: int
  a_actor :: string
  a_action :: string
  a_target :: string
  a_details :: "(string \<times> detail) list"
  a_created :: int

text \<open>The single row of \<open>app_settings\<close> (\<open>internal/store/settings.go\<close>).\<close>

record telegram_settings =
  tg_enabled :: bool
  tg_token :: string
  tg_chat :: string
  tg_admins :: "int list"

text \<open>The result of a mutation of a variable (\<open>VarChange\<close> in \<open>internal/store/variables.go\<close>).\<close>

record var_change =
  ch_variable :: variable
  ch_type :: string

end
