(* ===== verification/Database.thy ===== *)
theory Database
  imports Models
begin

text \<open>
  Postgres as the data-access layer sees it: the tables of \<open>migrations/\<close>, the sequences
  behind the BIGSERIAL columns, the clock that \<open>now()\<close> reads, and the programs of SQL
  statements that \<open>internal/store\<close> runs. A program returns a value or an error and the new
  database.

  Every statement may fail for a reason outside the program (connection lost, context
  cancelled, a value the server refuses): \<open>faults\<close> is the schedule of these failures, one
  entry per statement, and an empty schedule means that no further statement fails. A
  property that holds for every schedule holds whatever fails.
\<close>

section \<open>State\<close>

datatype store_error =
    ErrNotFound
  | ErrUnique
  | ErrForeignKey
  | ErrCheck
  | ErrRollbackToDelete
  | ErrPayload
  | ErrFault

datatype seq_name =
    UsersSeq | ServicesSeq | VariablesSeq | VersionsSeq | PermsSeq | TokensSeq | ConnsSeq | AuditSeq

type_synonym sequences = "seq_name \<Rightarrow> int"

record tables =
  users_tbl :: "user list"
  services_tbl :: "service list"
  variables_tbl :: "variable list"
  versions_tbl :: "variable_version list"
  perms_tbl :: "service_permission list"
  favs_tbl :: "(int \<times> int) list"
  tokens_tbl :: "api_token list"
  conns_tbl :: "connection_client list"
  audit_tbl :: "audit_entry list"
  settings_row :: telegram_settings

text \<open>
  \<open>collate\<close> is the text order of the database (its collation) and \<open>ilike\<close> its
  case-insensitive LIKE operator; both belong to the installation, not to the program.
  \<open>notifs\<close> holds all payloads sent on the NOTIFY channel, in order.
\<close>

record db =
  tbl :: tables
  seqs :: sequences
  clock :: int
  notifs :: "string list"
  faults :: "bool list"
  collate :: "string \<Rightarrow> string \<Rightarrow> bool"
  ilike :: "string \<Rightarrow> string \<Rightarrow> bool"

definition empty_tables :: tables where
  "empty_tables = \<lparr>users_tbl = [], services_tbl = [], variables_tbl = [], versions_tbl = [],
     perms_tbl = [], favs_tbl = [], tokens_tbl = [], conns_tbl = [], audit_tbl = [],
     settings_row = \<lparr>tg_enabled = False, tg_token = '''', tg_chat = '''', tg_admins = []\<rparr>\<rparr>"

text \<open>The database right after the migrations.\<close>

definition init_db :: "(string \<Rightarrow> string \<Rightarrow> bool) \<Rightarrow> (string \<Rightarrow> string \<Rightarrow> bool) \<Rightarrow> db" where
  "init_db le like = \<lparr>tbl = empty_tables, seqs = (\<lambda>_. 1), clock = 0, notifs = [], faults = [],
     collate = le, ilike = like\<rparr>"

section \<open>Programs\<close>

type_synonym 'a dbm = "db \<Rightarrow> (store_error + 'a) \<times> db"

definition ret :: "'a \<Rightarrow> 'a dbm" where
  "ret x = (\<lambda>d. (Inr x, d))"

definition throw :: "store_error \<Rightarrow> 'a dbm" where
  "throw e = (\<lambda>d. (Inl e, d))"

definition bind :: "'a dbm \<Rightarrow> ('a \<Rightarrow> 'b dbm) \<Rightarrow> 'b dbm" where
  "bind m f = (\<lambda>d. case m d of (Inl e, d') \<Rightarrow> (Inl e, d') | (Inr x, d') \<Rightarrow> f x d')"

text \<open>One statement: it takes the next entry of the fault schedule.\<close>

definition stmt :: "'a dbm \<Rightarrow> 'a dbm" where
  "stmt f = (\<lambda>d. case faults d of
       [] \<Rightarrow> f d
     | b # bs \<Rightarrow> (let d' = d\<lparr>faults := bs\<rparr> in if b then (Inl ErrFault, d') else f d'))"

definition select :: "(db \<Rightarrow> 'a) \<Rightarrow> 'a dbm" where
  "select g = stmt (\<lambda>d. (Inr (g d), d))"

text \<open>
  A transaction: BEGIN, the body, COMMIT. Any error takes the tables back to the state at
  BEGIN (the deferred Rollback of the source); sequences are never rolled back. A failed
  COMMIT counts as rolled back.
\<close>

definition tx :: "'a dbm \<Rightarrow> 'a dbm" where
  "tx m = (\<lambda>d. case select (\<lambda>_. ()) d of
       (Inl e, d1) \<Rightarrow> (Inl e, d1)
     | (Inr _, d1) \<Rightarrow>
        (case m d1 of
           (Inl e, d2) \<Rightarrow> (Inl e, d2\<lparr>tbl := tbl d1\<rparr>)
         | (Inr x, d2) \<Rightarrow>
            (case select (\<lambda>_. ()) d2 of
               (Inl e, d3) \<Rightarrow> (Inl e, d3\<lparr>tbl := tbl d1\<rparr>)
             | (Inr _, d3) \<Rightarrow> (Inr x, d3))))"

definition nextval :: "seq_name \<Rightarrow> db \<Rightarrow> db" where
  "nextval q d = d\<lparr>seqs := (seqs d)(q := seqs d q + 1)\<rparr>"

text \<open>
  \<open>SELECT pg_notify(channel, payload)\<close> outside a transaction: the payload is queued for every
  session that listens. Postgres refuses payloads of 8000 bytes and more.
\<close>

definition pg_notify :: "string \<Rightarrow> unit dbm" where
  "pg_notify payload = stmt (\<lambda>d. if 8000 \<le> length payload then (Inl ErrPayload, d)
     else (Inr (), d\<lparr>notifs := notifs d @ [payload]\<rparr>))"

definition with_tbl :: "(tables \<Rightarrow> tables) \<Rightarrow> db \<Rightarrow> db" where
  "with_tbl f d = d\<lparr>tbl := f (tbl d)\<rparr>"

text \<open>A statement that finds no row reports ErrNotFound (\<open>pgx.ErrNoRows\<close> in the source).\<close>

definition or_not_found :: "'a option \<Rightarrow> 'a dbm" where
  "or_not_found x = (case x of None \<Rightarrow> throw ErrNotFound | Some a \<Rightarrow> ret a)"

section \<open>Running programs\<close>

lemma ret_run [simp]: "ret x d = (Inr x, d)"
  and throw_run [simp]: "throw e d = (Inl e, d)"
  by (simp_all add: ret_def throw_def)

lemma nextval_sel [simp]:
  "tbl (nextval q d) = tbl d" "clock (nextval q d) = clock d" "notifs (nextval q d) = notifs d"
  "faults (nextval q d) = faults d" "collate (nextval q d) = collate d"
  "ilike (nextval q d) = ilike d" "seqs (nextval q d) = (seqs d)(q := seqs d q + 1)"
  by (simp_all add: nextval_def)

lemma with_tbl_sel [simp]:
  "tbl (with_tbl f d) = f (tbl d)" "clock (with_tbl f d) = clock d"
  "notifs (with_tbl f d) = notifs d" "faults (with_tbl f d) = faults d"
  "collate (with_tbl f d) = collate d" "ilike (with_tbl f d) = ilike d"
  "seqs (with_tbl f d) = seqs d"
  by (simp_all add: with_tbl_def)

text \<open>On a state without faults a program runs by rewriting.\<close>

lemma stmt_run [run_simps]: "faults d = [] \<Longrightarrow> stmt f d = f d"
  by (simp add: stmt_def)

lemma select_run [run_simps]: "faults d = [] \<Longrightarrow> select g d = (Inr (g d), d)"
  by (simp add: select_def stmt_run)

lemma bind_run [run_simps]:
  "bind m f d = (case m d of (Inl e, d') \<Rightarrow> (Inl e, d') | (Inr x, d') \<Rightarrow> f x d')"
  by (simp add: bind_def)

lemma tx_run [run_simps]:
  "faults d = [] \<Longrightarrow> tx m d =
     (case m d of (Inl e, d') \<Rightarrow> (Inl e, d'\<lparr>tbl := tbl d\<rparr>)
      | (Inr x, d') \<Rightarrow>
         (case select (\<lambda>_. ()) d' of
            (Inl e, d3) \<Rightarrow> (Inl e, d3\<lparr>tbl := tbl d\<rparr>) | (Inr _, d3) \<Rightarrow> (Inr x, d3)))"
  by (simp add: tx_def select_run)

lemma or_not_found_simps [simp]:
  "or_not_found None = throw ErrNotFound" "or_not_found (Some a) = ret a"
  by (simp_all add: or_not_found_def)

text \<open>Whatever the schedule, a successful program went through all its statements.\<close>

lemma stmt_InrE:
  assumes "stmt f d = (Inr x, d')"
  obtains fs where "f (d\<lparr>faults := fs\<rparr>) = (Inr x, d')" and "faults d = [] \<longrightarrow> fs = []"
proof (cases "faults d")
  case Nil
  then have "d\<lparr>faults := []\<rparr> = d" by simp
  with Nil assms that [of "[]"] show ?thesis by (simp add: stmt_def)
next
  case (Cons b bs)
  with assms that [of bs] show ?thesis by (auto simp: stmt_def Let_def split: if_splits)
qed

lemma stmt_cases:
  assumes "stmt f d = (r, d')"
  obtains (fault) fs where "r = Inl ErrFault" and "d' = d\<lparr>faults := fs\<rparr>"
  | (ran) fs where "f (d\<lparr>faults := fs\<rparr>) = (r, d')"
proof (cases "faults d")
  case Nil
  then have "d\<lparr>faults := []\<rparr> = d" by simp
  with Nil assms that(2) [of "[]"] show ?thesis by (simp add: stmt_def)
next
  case (Cons b bs)
  with assms that show ?thesis by (auto simp: stmt_def Let_def split: if_splits)
qed

lemma select_InrE:
  assumes "select g d = (Inr x, d')"
  obtains fs where "d' = d\<lparr>faults := fs\<rparr>" and "g (d\<lparr>faults := fs\<rparr>) = x"
  using assms by (auto simp: select_def elim!: stmt_InrE)

lemma select_tbl: "select g d = (r, d') \<Longrightarrow> tbl d' = tbl d \<and> seqs d' = seqs d \<and> clock d' = clock d"
  by (auto simp: select_def elim!: stmt_cases)

lemma bind_InrE:
  assumes "bind m f d = (Inr y, d')"
  obtains x d1 where "m d = (Inr x, d1)" and "f x d1 = (Inr y, d')"
  using assms by (auto simp: bind_def split: prod.splits sum.splits)

lemma bind_cases:
  assumes "bind m f d = (r, d')"
  obtains (fail) e where "m d = (Inl e, d')" and "r = Inl e"
  | (step) x d1 where "m d = (Inr x, d1)" and "f x d1 = (r, d')"
  using assms by (auto simp: bind_def split: prod.splits sum.splits)

lemma or_not_found_InrE:
  assumes "or_not_found x d = (Inr y, d')"
  obtains "x = Some y" and "d' = d"
  using assms by (cases x) auto

lemma tx_InrE:
  assumes "tx m d = (Inr x, d')"
  obtains fs d2 fs' where "m (d\<lparr>faults := fs\<rparr>) = (Inr x, d2)" and "d' = d2\<lparr>faults := fs'\<rparr>"
  using assms by (fastforce simp: tx_def split: prod.splits sum.splits elim!: select_InrE)

lemma tx_InlE:
  assumes "tx m d = (Inl e, d')"
  obtains (fault) "e = ErrFault" | (body) fs d2 where "m (d\<lparr>faults := fs\<rparr>) = (Inl e, d2)"
  using assms
  by (fastforce simp: tx_def select_def split: prod.splits sum.splits elim!: stmt_cases)

lemma select_InlD: "select g d = (Inl e, d') \<Longrightarrow> e = ErrFault \<and> tbl d' = tbl d \<and> seqs d' = seqs d"
  by (auto simp: select_def elim!: stmt_cases)

text \<open>A statement whose number of affected rows decides between success and ErrNotFound.\<close>

lemma affected_cases:
  assumes run: "bind (stmt (\<lambda>d. (Inr (n d), f d)))
      (\<lambda>k. if k = (0 :: nat) then throw ErrNotFound else ret ()) d = (r, d')"
    and n: "\<And>fs. n (d\<lparr>faults := fs\<rparr>) = n d"
  obtains (fault) fs where "r = Inl ErrFault" and "d' = d\<lparr>faults := fs\<rparr>"
  | (missing) fs where "n d = 0" and "r = Inl ErrNotFound" and "d' = f (d\<lparr>faults := fs\<rparr>)"
  | (affected) fs where "n d \<noteq> 0" and "r = Inr ()" and "d' = f (d\<lparr>faults := fs\<rparr>)"
  using run
proof (cases rule: bind_cases)
  case (fail e)
  from fail(1) show ?thesis by (cases rule: stmt_cases) (use fail(2) fault in auto)
next
  case (step k d1)
  from step(1) obtain fs where "d1 = f (d\<lparr>faults := fs\<rparr>)" and "k = n d"
    by (elim stmt_InrE) (auto simp: n)
  with step(2) missing affected show ?thesis by (cases "n d = 0") auto
qed

text \<open>A transaction that fails leaves every table as it was, whatever statement failed.\<close>

lemma tx_atomic:
  assumes "tx m d = (Inl e, d')"
  shows "tbl d' = tbl d"
  using assms
  by (auto simp: tx_def dest!: select_tbl split: prod.splits sum.splits)

section \<open>Invariants of the tables\<close>

text \<open>
  \<open>preserves P m\<close>: whatever the fault schedule and the result, \<open>m\<close> keeps \<open>P\<close>, and the
  sequences only grow. An invariant may speak of the sequences (ids below the next value)
  as long as it stays true when they grow, because a rolled back transaction keeps its gaps.
\<close>

type_synonym tinv = "tables \<Rightarrow> sequences \<Rightarrow> bool"

definition seq_mono :: "tinv \<Rightarrow> bool" where
  "seq_mono P \<longleftrightarrow> (\<forall>t s s'. P t s \<longrightarrow> s \<le> s' \<longrightarrow> P t s')"

definition preserves :: "tinv \<Rightarrow> 'a dbm \<Rightarrow> bool" where
  "preserves P m \<longleftrightarrow> (\<forall>d r d'. P (tbl d) (seqs d) \<longrightarrow> m d = (r, d') \<longrightarrow>
     P (tbl d') (seqs d') \<and> seqs d \<le> seqs d')"

lemma preservesI:
  "(\<And>d r d'. P (tbl d) (seqs d) \<Longrightarrow> m d = (r, d') \<Longrightarrow> P (tbl d') (seqs d') \<and> seqs d \<le> seqs d')
     \<Longrightarrow> preserves P m"
  by (auto simp: preserves_def)

lemma preservesD:
  "preserves P m \<Longrightarrow> m d = (r, d') \<Longrightarrow> P (tbl d) (seqs d) \<Longrightarrow>
     P (tbl d') (seqs d') \<and> seqs d \<le> seqs d'"
  unfolding preserves_def by blast

lemma preserves_ret [pres]: "preserves P (ret x)"
  and preserves_throw [pres]: "preserves P (throw e)"
  by (auto simp: preserves_def)

lemma preserves_or_not_found [pres]: "preserves P (or_not_found x)"
  by (cases x) (auto intro: pres)

lemma preserves_bind [pres]:
  assumes "preserves P m" and "\<And>x. preserves P (f x)"
  shows "preserves P (bind m f)"
proof (rule preservesI)
  fix d r d'
  assume P: "P (tbl d) (seqs d)" and run: "bind m f d = (r, d')"
  from run show "P (tbl d') (seqs d') \<and> seqs d \<le> seqs d'"
  proof (cases rule: bind_cases)
    case (fail e)
    from preservesD [OF assms(1) fail(1) P] show ?thesis .
  next
    case (step x d1)
    note mid = preservesD [OF assms(1) step(1) P]
    from preservesD [OF assms(2) step(2)] mid show ?thesis by (auto intro: order_trans)
  qed
qed

lemma preserves_stmt:
  assumes "\<And>d r d'. P (tbl d) (seqs d) \<Longrightarrow> f d = (r, d') \<Longrightarrow>
     P (tbl d') (seqs d') \<and> seqs d \<le> seqs d'"
  shows "preserves P (stmt f)"
proof (rule preservesI)
  fix d r d'
  assume P: "P (tbl d) (seqs d)" and run: "stmt f d = (r, d')"
  from run show "P (tbl d') (seqs d') \<and> seqs d \<le> seqs d'"
  proof (cases rule: stmt_cases)
    case (fault fs)
    with P show ?thesis by simp
  next
    case (ran fs)
    from assms [OF _ ran] P show ?thesis by simp
  qed
qed

lemma preserves_select [pres]: "preserves P (select g)"
  unfolding select_def by (rule preserves_stmt) auto

lemma preserves_tx:
  assumes mono: "seq_mono P" and m: "preserves P m"
  shows "preserves P (tx m)"
proof (rule preservesI)
  fix d r d'
  assume P: "P (tbl d) (seqs d)" and run: "tx m d = (r, d')"
  obtain r1 d1 where s1: "select (\<lambda>_. ()) d = (r1, d1)" by fastforce
  then have d1: "tbl d1 = tbl d" "seqs d1 = seqs d" by (auto dest: select_tbl)
  obtain r2 d2 where s2: "m d1 = (r2, d2)" by fastforce
  from P d1 have "P (tbl d1) (seqs d1)" by simp
  from preservesD [OF m s2 this] d1 have d2: "P (tbl d2) (seqs d2)" "seqs d \<le> seqs d2"
    by simp_all
  obtain r3 d3 where s3: "select (\<lambda>_. ()) d2 = (r3, d3)" by fastforce
  then have d3: "tbl d3 = tbl d2" "seqs d3 = seqs d2" by (auto dest: select_tbl)
  have restored: "P (tbl d) (seqs d2)" using mono P d2(2) by (auto simp: seq_mono_def)
  show "P (tbl d') (seqs d') \<and> seqs d \<le> seqs d'"
    using run P d1 d2 d3 restored
    by (auto simp: tx_def s1 s2 s3 split: sum.splits)
qed

text \<open>
  An invariant that holds only between transactions: the body may break it on the way as
  long as it holds when the body succeeds.
\<close>

lemma preserves_tx_whole:
  assumes mono: "seq_mono P" and grow: "preserves (\<lambda>_ _. True) m"
    and ok: "\<And>d x d'. P (tbl d) (seqs d) \<Longrightarrow> m d = (Inr x, d') \<Longrightarrow> P (tbl d') (seqs d')"
  shows "preserves P (tx m)"
proof (rule preservesI)
  fix d r d'
  assume P: "P (tbl d) (seqs d)" and run: "tx m d = (r, d')"
  have "preserves (\<lambda>_ _. True) (tx m)"
    by (rule preserves_tx [OF _ grow]) (simp add: seq_mono_def)
  from preservesD [OF this run] have le: "seqs d \<le> seqs d'" by simp
  have "P (tbl d') (seqs d')"
  proof (cases r)
    case (Inl e)
    with run have "tbl d' = tbl d" by (simp add: tx_atomic)
    with mono P le show ?thesis by (auto simp: seq_mono_def)
  next
    case (Inr x)
    with run obtain fs d2 fs' where "m (d\<lparr>faults := fs\<rparr>) = (Inr x, d2)" and d': "d' = d2\<lparr>faults := fs'\<rparr>"
      by (auto elim: tx_InrE)
    with ok [of "d\<lparr>faults := fs\<rparr>"] P show ?thesis by simp
  qed
  with le show "P (tbl d') (seqs d') \<and> seqs d \<le> seqs d'" by simp
qed

lemma preserves_if [pres]: "preserves P a \<Longrightarrow> preserves P b \<Longrightarrow> preserves P (if c then a else b)"
  by simp

lemma preserves_case_option [pres]:
  "(x = None \<Longrightarrow> preserves P a) \<Longrightarrow> (\<And>y. x = Some y \<Longrightarrow> preserves P (b y)) \<Longrightarrow>
     preserves P (case x of None \<Rightarrow> a | Some y \<Rightarrow> b y)"
  by (cases x) auto

lemma preserves_conj:
  "preserves P m \<Longrightarrow> preserves Q m \<Longrightarrow> preserves (\<lambda>t s. P t s \<and> Q t s) m"
  by (auto simp: preserves_def)

lemma seq_mono_conj:
  "seq_mono P \<Longrightarrow> seq_mono Q \<Longrightarrow> seq_mono (\<lambda>t s. P t s \<and> Q t s)"
  by (auto simp: seq_mono_def)

lemma seq_grow: "s \<le> s(q := s q + (1 :: int))"
  by (simp add: le_fun_def)

text \<open>Programs under which an empty schedule of failures stays empty.\<close>

definition calm :: "'a dbm \<Rightarrow> bool" where
  "calm m \<longleftrightarrow> (\<forall>d. faults d = [] \<longrightarrow> faults (snd (m d)) = [])"

lemma calmD: "calm m \<Longrightarrow> m d = (r, d') \<Longrightarrow> faults d = [] \<Longrightarrow> faults d' = []"
  unfolding calm_def by (drule spec [of _ d]) simp

lemma calm_ret [calm]: "calm (ret x)" and calm_throw [calm]: "calm (throw e)"
  by (simp_all add: calm_def)

lemma calm_stmt [calm]: "(\<And>d. faults d = [] \<Longrightarrow> faults (snd (f d)) = []) \<Longrightarrow> calm (stmt f)"
  by (simp add: calm_def stmt_def)

lemma calm_select [calm]: "calm (select g)"
  unfolding select_def by (rule calm_stmt) simp

lemma calm_or_not_found [calm]: "calm (or_not_found x)"
  by (cases x) (simp_all add: calm)

lemma calm_bind [calm]: "calm m \<Longrightarrow> (\<And>x. calm (k x)) \<Longrightarrow> calm (bind m k)"
  by (auto simp: calm_def bind_def split: prod.splits sum.splits)

lemma calm_tx [calm]: "calm m \<Longrightarrow> calm (tx m)"
proof -
  assume m: "calm m"
  have "faults (snd (tx m d)) = []" if d: "faults d = []" for d
  proof (cases "m d")
    case (Pair r d2)
    with calmD [OF m this d] d show ?thesis by (cases r) (simp_all add: tx_def select_run)
  qed
  then show ?thesis by (simp add: calm_def)
qed

lemma calm_if [calm]: "calm a \<Longrightarrow> calm b \<Longrightarrow> calm (if c then a else b)"
  by simp

text \<open>The tables of a program that only reads.\<close>

definition reads_only :: "'a dbm \<Rightarrow> bool" where
  "reads_only m \<longleftrightarrow> (\<forall>d r d'. m d = (r, d') \<longrightarrow> tbl d' = tbl d \<and> seqs d' = seqs d \<and>
     notifs d' = notifs d \<and> clock d' = clock d)"

lemma reads_onlyD: "reads_only m \<Longrightarrow> m d = (r, d') \<Longrightarrow> tbl d' = tbl d"
  by (auto simp: reads_only_def)

lemma reads_only_select [simp]: "reads_only (select g)"
  by (auto simp: reads_only_def select_def elim!: stmt_cases)

lemma reads_only_ret [simp]: "reads_only (ret x)" "reads_only (throw e)"
  by (auto simp: reads_only_def)

lemma reads_only_or_not_found [simp]: "reads_only (or_not_found x)"
  by (cases x) auto

lemma reads_only_bind:
  "reads_only m \<Longrightarrow> (\<And>x. reads_only (f x)) \<Longrightarrow> reads_only (bind m f)"
proof -
  assume m: "reads_only m" and f: "\<And>x. reads_only (f x)"
  show "reads_only (bind m f)"
    unfolding reads_only_def
  proof (intro allI impI)
    fix d r d'
    assume "bind m f d = (r, d')"
    then show "tbl d' = tbl d \<and> seqs d' = seqs d \<and> notifs d' = notifs d \<and> clock d' = clock d"
    proof (cases rule: bind_cases)
      case (fail e)
      with m show ?thesis by (simp add: reads_only_def)
    next
      case (step x d1)
      with m have "tbl d1 = tbl d \<and> seqs d1 = seqs d \<and> notifs d1 = notifs d \<and> clock d1 = clock d"
        by (simp add: reads_only_def)
      with step(2) f [of x] show ?thesis by (simp add: reads_only_def)
    qed
  qed
qed

lemma reads_only_preserves: "reads_only m \<Longrightarrow> preserves P m"
  by (auto simp: reads_only_def preserves_def)

end
