(* ===== verification/Version_Log.thy ===== *)
theory Version_Log
  imports Database
begin

text \<open>
  What the versioned variable store promises, without tables: each service has a log of
  changes, numbered per key from 1 without gaps; the current configuration is the replay of
  that log. The operations on tables in \<open>Store_Variables\<close> are proved to implement the
  operations on logs of this theory, and the locale \<open>versioned_store\<close> derives from that
  contract what its clients rely on.
\<close>

section \<open>Logs\<close>

record entry =
  e_key :: string
  e_value :: string
  e_version :: int
  e_change :: string
  e_by :: string

type_synonym log = "entry list"

definition key_log :: "log \<Rightarrow> string \<Rightarrow> log" where
  "key_log L k = filter (\<lambda>e. e_key e = k) L"

definition last_live :: "log \<Rightarrow> entry option" where
  "last_live es = (if es = [] \<or> e_change (last es) = ChangeDelete then None else Some (last es))"

definition live :: "log \<Rightarrow> string \<Rightarrow> entry option" where
  "live L k = last_live (key_log L k)"

text \<open>Replaying a log from left to right: an entry sets its key, a delete entry clears it.\<close>

fun replay_from :: "(string \<rightharpoonup> string) \<Rightarrow> log \<Rightarrow> (string \<rightharpoonup> string)" where
  "replay_from m [] = m"
| "replay_from m (e # es) =
     replay_from (if e_change e = ChangeDelete then m(e_key e := None)
                  else m(e_key e \<mapsto> e_value e)) es"

definition replay :: "log \<Rightarrow> (string \<rightharpoonup> string)" where
  "replay L = replay_from Map.empty L"

section \<open>Operations on logs\<close>

definition next_number :: "log \<Rightarrow> string \<Rightarrow> int" where
  "next_number L k = int (length (key_log L k)) + 1"

definition log_put :: "string \<Rightarrow> string \<Rightarrow> string \<Rightarrow> log \<Rightarrow> log" where
  "log_put k v by L = L @ [\<lparr>e_key = k, e_value = v, e_version = next_number L k,
     e_change = (if live L k = None then ChangeCreate else ChangeUpdate), e_by = by\<rparr>]"

definition log_delete :: "string \<Rightarrow> string \<Rightarrow> log \<Rightarrow> store_error + log" where
  "log_delete k by L = (case live L k of
       None \<Rightarrow> Inl ErrNotFound
     | Some e \<Rightarrow> Inr (L @ [\<lparr>e_key = k, e_value = e_value e, e_version = next_number L k,
                          e_change = ChangeDelete, e_by = by\<rparr>]))"

text \<open>Version \<open>n\<close> of a key is the \<open>n\<close>-th entry of its log.\<close>

definition log_entry :: "log \<Rightarrow> string \<Rightarrow> int \<Rightarrow> entry option" where
  "log_entry L k n = (if 1 \<le> n \<and> n \<le> int (length (key_log L k))
     then Some (key_log L k ! nat (n - 1)) else None)"

definition log_rollback :: "string \<Rightarrow> int \<Rightarrow> string \<Rightarrow> log \<Rightarrow> store_error + log" where
  "log_rollback k n by L = (case log_entry L k n of
       None \<Rightarrow> Inl ErrNotFound
     | Some e \<Rightarrow> if e_change e = ChangeDelete then Inl ErrRollbackToDelete
                else Inr (L @ [\<lparr>e_key = k, e_value = e_value e, e_version = next_number L k,
                               e_change = ChangeRollback, e_by = by\<rparr>]))"

datatype log_cmd =
    Put string string string
  | Remove string string
  | Rollback string int string

fun log_step :: "log_cmd \<Rightarrow> log \<Rightarrow> store_error + log" where
  "log_step (Put k v by) L = Inr (log_put k v by L)"
| "log_step (Remove k by) L = log_delete k by L"
| "log_step (Rollback k n by) L = log_rollback k n by L"

section \<open>The life of a key\<close>

text \<open>
  A key is absent or present. The change types of its log, read in order, are a path of
  this machine.
\<close>

inductive key_step :: "bool \<Rightarrow> string \<Rightarrow> bool \<Rightarrow> bool" where
  create: "key_step False ChangeCreate True"
| update: "key_step True ChangeUpdate True"
| delete: "key_step True ChangeDelete False"
| rollback: "key_step b ChangeRollback True"

inductive_cases key_step_deleteE: "key_step b ChangeDelete b'"
inductive_simps key_step_simps: "key_step b c b'"

inductive key_path :: "string list \<Rightarrow> bool \<Rightarrow> bool" where
  nil: "key_path [] False"
| snoc: "key_path cs b \<Longrightarrow> key_step b c b' \<Longrightarrow> key_path (cs @ [c]) b'"

text \<open>A path ends absent exactly when it is empty or its last change is a delete.\<close>

lemma key_path_last:
  "key_path cs b \<Longrightarrow> b \<longleftrightarrow> cs \<noteq> [] \<and> last cs \<noteq> ChangeDelete"
  by (induction rule: key_path.induct) (auto simp: key_step_simps)

definition log_wf :: "log \<Rightarrow> bool" where
  "log_wf L \<longleftrightarrow> (\<forall>k. map e_version (key_log L k) = [1..int (length (key_log L k))] \<and>
     key_path (map e_change (key_log L k)) (live L k \<noteq> None))"

section \<open>Facts about logs\<close>

lemma key_log_Nil [simp]: "key_log [] k = []"
  and key_log_append [simp]: "key_log (L @ M) k = key_log L k @ key_log M k"
  by (simp_all add: key_log_def)

lemma key_log_Cons [simp]:
  "key_log (e # L) k = (if e_key e = k then e # key_log L k else key_log L k)"
  by (simp add: key_log_def)

lemma key_log_single: "key_log [e] k = (if e_key e = k then [e] else [])"
  by (simp add: key_log_def)

lemma live_Nil [simp]: "live [] k = None"
  by (simp add: live_def last_live_def)

lemma live_snoc [simp]:
  "live (L @ [e]) k =
     (if e_key e = k then (if e_change e = ChangeDelete then None else Some e) else live L k)"
  by (simp add: live_def last_live_def)

lemma live_SomeD: "live L k = Some e \<Longrightarrow> e_key e = k \<and> e \<in> set L \<and> e_change e \<noteq> ChangeDelete"
proof -
  assume "live L k = Some e"
  then have e: "key_log L k \<noteq> []" "e = last (key_log L k)" "e_change e \<noteq> ChangeDelete"
    by (auto simp: live_def last_live_def split: if_splits)
  then have "e \<in> set (key_log L k)" by simp
  with e show ?thesis by (auto simp: key_log_def)
qed

lemma replay_from_append: "replay_from m (L @ M) = replay_from (replay_from m L) M"
  by (induction L arbitrary: m) auto

lemma replay_snoc [simp]:
  "replay (L @ [e]) = (if e_change e = ChangeDelete then (replay L)(e_key e := None)
     else (replay L)(e_key e \<mapsto> e_value e))"
  by (simp add: replay_def replay_from_append)

lemma replay_Nil [simp]: "replay [] = Map.empty"
  by (simp add: replay_def)

text \<open>Replaying a log and looking only at the last entry of each key agree.\<close>

lemma replay_live: "replay L k = map_option e_value (live L k)"
  by (induction L rule: rev_induct) auto

lemma upto_snoc: "0 \<le> n \<Longrightarrow> [1..n + 1] = [1..n] @ [n + (1::int)]"
  using upto_rec2 [of 1 "n + 1"] by simp

lemma log_wf_Nil [simp]: "log_wf []"
  by (simp add: log_wf_def key_path.nil)

text \<open>Appending one entry with the next number and a legal change keeps a log well formed.\<close>

lemma log_wf_snoc:
  assumes wf: "log_wf L" and num: "e_version e = next_number L (e_key e)"
    and step: "key_step (live L (e_key e) \<noteq> None) (e_change e) (e_change e \<noteq> ChangeDelete)"
  shows "log_wf (L @ [e])"
  unfolding log_wf_def
proof (intro allI)
  fix k
  from wf have k: "map e_version (key_log L k) = [1..int (length (key_log L k))]"
    "key_path (map e_change (key_log L k)) (live L k \<noteq> None)"
    by (simp_all add: log_wf_def)
  show "map e_version (key_log (L @ [e]) k) = [1..int (length (key_log (L @ [e]) k))] \<and>
     key_path (map e_change (key_log (L @ [e]) k)) (live (L @ [e]) k \<noteq> None)"
  proof (cases "e_key e = k")
    case True
    have "key_path (map e_change (key_log L k) @ [e_change e]) (e_change e \<noteq> ChangeDelete)"
      using k(2) step True by (intro key_path.snoc) auto
    moreover have "[1..int (length (key_log L k)) + 1] =
        [1..int (length (key_log L k))] @ [int (length (key_log L k)) + 1]"
      by (rule upto_snoc) simp
    ultimately show ?thesis using k True num
      by (cases "e_change e = ChangeDelete") (simp_all add: next_number_def add.commute)
  next
    case False
    with k show ?thesis by simp
  qed
qed

lemma log_wf_put: "log_wf L \<Longrightarrow> log_wf (log_put k v by L)"
  unfolding log_put_def by (rule log_wf_snoc) (auto intro: key_step.intros)

lemma log_wf_delete: "log_wf L \<Longrightarrow> log_delete k by L = Inr L' \<Longrightarrow> log_wf L'"
  by (auto simp: log_delete_def split: option.splits
      intro!: log_wf_snoc key_step.delete [simplified])

lemma log_wf_rollback: "log_wf L \<Longrightarrow> log_rollback k n by L = Inr L' \<Longrightarrow> log_wf L'"
  by (auto simp: log_rollback_def split: option.splits if_splits
      intro!: log_wf_snoc key_step.rollback)

lemma log_wf_step: "log_wf L \<Longrightarrow> log_step c L = Inr L' \<Longrightarrow> log_wf L'"
  by (cases c) (auto intro: log_wf_put log_wf_delete log_wf_rollback)

text \<open>A command that succeeds appends exactly one entry.\<close>

lemma log_step_appends:
  assumes "log_step c L = Inr L'"
  shows "\<exists>e. L' = L @ [e]"
proof (cases c)
  case (Put k v who)
  with assms have "L' = log_put k v who L" by simp
  then show ?thesis unfolding log_put_def by blast
next
  case (Remove k who)
  with assms have "log_delete k who L = Inr L'" by simp
  then show ?thesis unfolding log_delete_def by (auto split: option.splits)
next
  case (Rollback k n who)
  with assms have "log_rollback k n who L = Inr L'" by simp
  then show ?thesis unfolding log_rollback_def by (auto split: option.splits if_splits)
qed

text \<open>In a well-formed log the entry with version \<open>n\<close> of a key is its \<open>n\<close>-th entry.\<close>

lemma find_version_nth:
  assumes "map g xs = [1..int (length xs)]"
  shows "find (\<lambda>x. g x = n) xs =
     (if 1 \<le> n \<and> n \<le> int (length xs) then Some (xs ! nat (n - 1)) else None)"
proof -
  have dist: "distinct (map g xs)" using assms by simp
  have img: "g ` set xs = {1..int (length xs)}" using assms by (metis set_map set_upto)
  show ?thesis
  proof (cases "1 \<le> n \<and> n \<le> int (length xs)")
    case True
    then have lt: "nat (n - 1) < length xs" by linarith
    have "map g xs ! nat (n - 1) = n"
      using True lt by (simp add: assms)
    then have "g (xs ! nat (n - 1)) = n" using lt by simp
    with dist lt True show ?thesis by (simp add: find_key_Some)
  next
    case False
    then have "n \<notin> g ` set xs" using img by auto
    with False show ?thesis by (auto simp: find_eq_None)
  qed
qed

lemma find_version:
  assumes "log_wf L"
  shows "find (\<lambda>e. e_version e = n) (key_log L k) = log_entry L k n"
proof -
  from assms have "map e_version (key_log L k) = [1..int (length (key_log L k))]"
    by (simp add: log_wf_def)
  from find_version_nth [OF this] show ?thesis by (simp add: log_entry_def)
qed

section \<open>The contract of a versioned store\<close>

text \<open>
  A store of one service that implements the commands on logs. The numbers stay within
  \<open>int64\<close> as long as the log is shorter than \<open>2 ^ 63 - 1\<close>. An error is the one of the
  specification, or a failure of the database (a fault, a service that is gone).
\<close>

definition log_room :: "log \<Rightarrow> bool" where
  "log_room L \<longleftrightarrow> int (length L) < 2 ^ 63 - 1"

lemma log_room_key: "log_room L \<Longrightarrow> int (length (key_log L k)) < 2 ^ 63 - 1"
  using length_filter_le [of "\<lambda>e. e_key e = k" L] unfolding log_room_def key_log_def by linarith

text \<open>Running commands one after the other, up to the first error.\<close>

fun execs :: "(log_cmd \<Rightarrow> 'st \<Rightarrow> store_error + 'st) \<Rightarrow> log_cmd list \<Rightarrow> 'st \<Rightarrow> store_error + 'st" where
  "execs exec [] s = Inr s"
| "execs exec (c # cs) s = (case exec c s of Inl e \<Rightarrow> Inl e | Inr s' \<Rightarrow> execs exec cs s')"

locale versioned_store =
  fixes log_of :: "'st \<Rightarrow> log"
    and exec :: "log_cmd \<Rightarrow> 'st \<Rightarrow> store_error + 'st"
    and current :: "'st \<Rightarrow> string \<rightharpoonup> string"
    and inv :: "'st \<Rightarrow> bool"
  assumes exec_log:
      "inv s \<Longrightarrow> log_room (log_of s) \<Longrightarrow> exec c s = Inr s' \<Longrightarrow> log_step c (log_of s) = Inr (log_of s')"
    and exec_err:
      "inv s \<Longrightarrow> log_room (log_of s) \<Longrightarrow> exec c s = Inl e \<Longrightarrow>
         e \<in> {ErrFault, ErrForeignKey} \<or> log_step c (log_of s) = Inl e"
    and exec_inv: "inv s \<Longrightarrow> log_room (log_of s) \<Longrightarrow> exec c s = Inr s' \<Longrightarrow> inv s'"
    and current_log: "inv s \<Longrightarrow> current s = replay (log_of s)"
begin

lemma current_put:
  assumes "inv s" and "log_room (log_of s)" and "exec (Put k v by) s = Inr s'"
  shows "current s' = (current s)(k \<mapsto> v)"
proof -
  have "log_of s' = log_put k v by (log_of s)"
    using exec_log [OF assms] by simp
  then show ?thesis
    using assms exec_inv [OF assms] by (simp add: current_log log_put_def)
qed

lemma current_remove:
  assumes "inv s" and "log_room (log_of s)" and "exec (Remove k by) s = Inr s'"
  shows "current s' = (current s)(k := None) \<and> current s k \<noteq> None"
proof -
  have "log_delete k by (log_of s) = Inr (log_of s')"
    using exec_log [OF assms] by simp
  then show ?thesis
    using assms exec_inv [OF assms]
    by (auto simp: current_log log_delete_def replay_live split: option.splits)
       (metis Inr_inject current_log replay_snoc entry.select_convs(1,4))
qed

lemma current_rollback:
  assumes "inv s" and "log_room (log_of s)" and "exec (Rollback k n by) s = Inr s'"
  shows "\<exists>e. log_entry (log_of s) k n = Some e \<and> current s' = (current s)(k \<mapsto> e_value e)"
proof -
  have "log_rollback k n by (log_of s) = Inr (log_of s')"
    using exec_log [OF assms] by simp
  then obtain e where e: "log_entry (log_of s) k n = Some e" and
    L: "log_of s' = log_of s @ [\<lparr>e_key = k, e_value = e_value e,
      e_version = next_number (log_of s) k, e_change = ChangeRollback, e_by = by\<rparr>]"
    by (auto simp: log_rollback_def split: option.splits if_splits)
  have "current s' = (current s)(k \<mapsto> e_value e)"
    using assms exec_inv [OF assms] by (simp add: current_log L)
  with e show ?thesis by blast
qed

text \<open>The log only grows at its end.\<close>

lemma log_appends:
  assumes "inv s" and "log_room (log_of s)" and "exec c s = Inr s'"
  shows "\<exists>e. log_of s' = log_of s @ [e]"
  by (rule log_step_appends [OF exec_log [OF assms]])

lemma execs_log:
  "inv s \<Longrightarrow> int (length (log_of s) + length cs) < 2 ^ 63 \<Longrightarrow> execs exec cs s = Inr s' \<Longrightarrow>
     inv s' \<and> (\<exists>M. length M = length cs \<and> log_of s' = log_of s @ M)"
proof (induction cs arbitrary: s)
  case Nil
  then show ?case by simp
next
  case (Cons c cs)
  then obtain s1 where s1: "exec c s = Inr s1" and rest: "execs exec cs s1 = Inr s'"
    by (auto split: sum.splits)
  have room: "log_room (log_of s)" using Cons.prems by (simp add: log_room_def)
  from log_appends [OF Cons.prems(1) room s1] obtain e where e: "log_of s1 = log_of s @ [e]" ..
  have inv1: "inv s1" using exec_inv [OF Cons.prems(1) room s1] .
  have "int (length (log_of s1) + length cs) < 2 ^ 63" using Cons.prems(2) e by simp
  from Cons.IH [OF inv1 this rest] obtain M where
    M: "inv s'" "length M = length cs" "log_of s' = log_of s1 @ M" by blast
  then have "length (e # M) = length (c # cs) \<and> log_of s' = log_of s @ (e # M)"
    using e by simp
  with M show ?case by blast
qed

text \<open>
  A value once written can be brought back: after any further commands, a successful
  rollback to the version the write got makes the written value current again.
\<close>

lemma rollback_restores:
  assumes inv: "inv s" and room: "int (length (log_of s) + length cs) + 2 < 2 ^ 63"
    and put: "exec (Put k v by) s = Inr s1" and more: "execs exec cs s1 = Inr s2"
    and rb: "exec (Rollback k (next_number (log_of s) k) by') s2 = Inr s3"
  shows "current s3 k = Some v"
proof -
  have r: "log_room (log_of s)" using room by (simp add: log_room_def)
  have L1: "log_of s1 = log_put k v by (log_of s)" using exec_log [OF inv r put] by simp
  then have len1: "length (log_of s1) = length (log_of s) + 1" by (simp add: log_put_def)
  have "int (length (log_of s1) + length cs) < 2 ^ 63" using len1 room by simp
  from execs_log [OF exec_inv [OF inv r put] this more] obtain M where
    M: "inv s2" "length M = length cs" "log_of s2 = log_of s1 @ M" by blast
  have r2: "log_room (log_of s2)" using M len1 room by (simp add: log_room_def)
  from current_rollback [OF M(1) r2 rb] obtain e where
    e: "log_entry (log_of s2) k (next_number (log_of s) k) = Some e"
    and cur: "current s3 = (current s2)(k \<mapsto> e_value e)" by blast
  have "e_value (key_log (log_of s2) k ! length (key_log (log_of s) k)) = v"
    by (simp add: M(3) L1 log_put_def nth_append)
  with e have "e_value e = v"
    by (auto simp: log_entry_def next_number_def split: if_splits)
  with cur show ?thesis by simp
qed

end

end
