(* ===== verification/Store_Services.thy ===== *)
theory Store_Services
  imports Database
begin

text \<open>
  \<open>internal/store/services.go\<close>: the services table, its unique key, the listing per user,
  the deletion with the cascades of the schema, and the search across services.
\<close>

section \<open>Operations\<close>

definition find_service :: "tables \<Rightarrow> int \<Rightarrow> service option" where
  "find_service t sid = find (\<lambda>s. s_id s = sid) (services_tbl t)"

definition find_service_key :: "tables \<Rightarrow> string \<Rightarrow> service option" where
  "find_service_key t key = find (\<lambda>s. s_key s = key) (services_tbl t)"

text \<open>The foreign key to \<open>services\<close> that every table of per-service rows carries.\<close>

definition service_exists :: "tables \<Rightarrow> int \<Rightarrow> bool" where
  "service_exists t sid \<longleftrightarrow> find_service t sid \<noteq> None"

definition CreateService :: "string \<Rightarrow> string \<Rightarrow> string \<Rightarrow> string \<Rightarrow> service dbm" where
  "CreateService key name description createdBy = stmt (\<lambda>d0.
     let d = nextval ServicesSeq d0;
         svc = \<lparr>s_id = seqs d0 ServicesSeq, s_key = key, s_name = name, s_desc = description,
                s_tags = [], s_created = clock d, s_by = createdBy\<rparr>
     in if find_service_key (tbl d) key \<noteq> None then (Inl ErrUnique, d)
        else (Inr svc, with_tbl (\<lambda>t. t\<lparr>services_tbl := services_tbl t @ [svc]\<rparr>) d))"

definition GetService :: "int \<Rightarrow> service dbm" where
  "GetService sid = bind (select (\<lambda>d. find_service (tbl d) sid)) or_not_found"

definition GetServiceByKey :: "string \<Rightarrow> service dbm" where
  "GetServiceByKey key = bind (select (\<lambda>d. find_service_key (tbl d) key)) or_not_found"

definition ListServices :: "service list dbm" where
  "ListServices = select (\<lambda>d.
     sort_by (\<lambda>a b. collate d (s_name a) (s_name b)) (services_tbl (tbl d)))"

text \<open>The join with the permission rows of one user.\<close>

definition services_of_user :: "tables \<Rightarrow> int \<Rightarrow> service list" where
  "services_of_user t uid = concat (map (\<lambda>s.
     map (\<lambda>_. s) (filter (\<lambda>p. p_service p = s_id s \<and> p_user p = uid) (perms_tbl t)))
     (services_tbl t))"

definition ListServicesForUser :: "int \<Rightarrow> service list dbm" where
  "ListServicesForUser uid = select (\<lambda>d.
     sort_by (\<lambda>a b. collate d (s_name a) (s_name b)) (services_of_user (tbl d) uid))"

text \<open>An UPDATE or DELETE that affects no row is reported as ErrNotFound.\<close>

definition UpdateServiceTags :: "int \<Rightarrow> string list \<Rightarrow> unit dbm" where
  "UpdateServiceTags sid tags =
     bind (stmt (\<lambda>d. (Inr (length (filter (\<lambda>s. s_id s = sid) (services_tbl (tbl d)))),
        with_tbl (\<lambda>t. t\<lparr>services_tbl :=
          update_where (\<lambda>s. s_id s = sid) (\<lambda>s. s\<lparr>s_tags := tags\<rparr>) (services_tbl t)\<rparr>) d)))
      (\<lambda>n. if n = 0 then throw ErrNotFound else ret ())"

definition cascade_service :: "int \<Rightarrow> tables \<Rightarrow> tables" where
  "cascade_service sid t = t\<lparr>
     services_tbl := filter (\<lambda>s. s_id s \<noteq> sid) (services_tbl t),
     variables_tbl := filter (\<lambda>v. v_service v \<noteq> sid) (variables_tbl t),
     versions_tbl := filter (\<lambda>v. vv_service v \<noteq> sid) (versions_tbl t),
     perms_tbl := filter (\<lambda>p. p_service p \<noteq> sid) (perms_tbl t),
     favs_tbl := filter (\<lambda>f. snd f \<noteq> sid) (favs_tbl t),
     conns_tbl := filter (\<lambda>c. c_service c \<noteq> sid) (conns_tbl t)\<rparr>"

definition DeleteService :: "int \<Rightarrow> unit dbm" where
  "DeleteService sid =
     bind (stmt (\<lambda>d. let n = length (filter (\<lambda>s. s_id s = sid) (services_tbl (tbl d)))
        in (Inr n, if n = 0 then d else with_tbl (cascade_service sid) d)))
      (\<lambda>n. if n = 0 then throw ErrNotFound else ret ())"

record search_hit =
  h_service :: int
  h_service_key :: string
  h_service_name :: string
  h_key :: string
  h_value :: string

text \<open>
  The rows of the search: every variable joined with its service and, for a restricted
  search, with the permission rows of the user; the pattern is matched by the database.
\<close>

definition search_rows :: "db \<Rightarrow> string \<Rightarrow> int option \<Rightarrow> search_hit list" where
  "search_rows d pat restrict_user = concat (map (\<lambda>v. concat (map (\<lambda>s.
       if s_id s = v_service v \<and> (ilike d (v_key v) pat \<or> ilike d (v_value v) pat)
       then (let h = \<lparr>h_service = v_service v, h_service_key = s_key s, h_service_name = s_name s,
                      h_key = v_key v, h_value = v_value v\<rparr>
             in case restrict_user of
                  None \<Rightarrow> [h]
                | Some uid \<Rightarrow> map (\<lambda>_. h)
                    (filter (\<lambda>p. p_service p = s_id s \<and> p_user p = uid) (perms_tbl (tbl d))))
       else []) (services_tbl (tbl d)))) (variables_tbl (tbl d)))"

definition search_le :: "(string \<Rightarrow> string \<Rightarrow> bool) \<Rightarrow> search_hit \<Rightarrow> search_hit \<Rightarrow> bool" where
  "search_le le a b \<longleftrightarrow>
     (if le (h_service_name b) (h_service_name a)
      then le (h_service_name a) (h_service_name b) \<and> le (h_key a) (h_key b)
      else le (h_service_name a) (h_service_name b))"

definition SearchVariables :: "string \<Rightarrow> int option \<Rightarrow> search_hit list dbm" where
  "SearchVariables q restrict_user =
     select (\<lambda>d. take 200 (sort_by (search_le (collate d))
       (search_rows d (''%'' @ q @ ''%'') restrict_user)))"

section \<open>The services table\<close>

text \<open>
  Ids and keys are unique, and every id was drawn from the sequence. Ids start at 1: the
  id 0 of the events broker, which means all services, is never the id of a service.
\<close>

definition services_inv :: tinv where
  "services_inv t s \<longleftrightarrow>
     distinct (map s_id (services_tbl t)) \<and> distinct (map s_key (services_tbl t)) \<and>
     (\<forall>x \<in> set (services_tbl t). 1 \<le> s_id x \<and> s_id x < s ServicesSeq) \<and> 1 \<le> s ServicesSeq"

lemma services_inv_mono: "seq_mono services_inv"
  by (fastforce simp: seq_mono_def services_inv_def le_fun_def intro: order_less_le_trans order_trans)

lemma service_exists_iff: "service_exists t sid \<longleftrightarrow> sid \<in> s_id ` set (services_tbl t)"
  by (auto simp: service_exists_def find_service_def find_eq_None)

lemma find_service_Some:
  "services_inv t s \<Longrightarrow> find_service t sid = Some x \<longleftrightarrow> x \<in> set (services_tbl t) \<and> s_id x = sid"
  by (simp add: services_inv_def find_service_def find_key_Some)

lemma find_service_key_Some:
  "services_inv t s \<Longrightarrow> find_service_key t k = Some x \<longleftrightarrow> x \<in> set (services_tbl t) \<and> s_key x = k"
  by (simp add: services_inv_def find_service_key_def find_key_Some)

text \<open>
  Everything that mentions the services table only through the ids of its rows is unchanged
  by an update that keeps them.
\<close>

lemma service_exists_cong:
  "map s_id (services_tbl t') = map s_id (services_tbl t) \<Longrightarrow>
     service_exists t' sid = service_exists t sid"
  unfolding service_exists_iff by (metis set_map)

lemma CreateService_result:
  assumes "CreateService key name desc by d = (Inr svc, d')"
  shows "tbl d' = (tbl d)\<lparr>services_tbl := services_tbl (tbl d) @ [svc]\<rparr> \<and>
     s_id svc = seqs d ServicesSeq \<and> s_key svc = key \<and> s_name svc = name \<and> s_desc svc = desc \<and>
     s_tags svc = [] \<and> s_by svc = by \<and> find_service_key (tbl d) key = None \<and>
     seqs d' = (seqs d)(ServicesSeq := seqs d ServicesSeq + 1) \<and> notifs d' = notifs d"
  using assms
  by (auto simp: CreateService_def Let_def elim!: stmt_InrE split: if_splits)

lemma CreateService_error:
  assumes "CreateService key name desc by d = (Inl e, d')"
  shows "tbl d' = tbl d \<and> (e = ErrFault \<or> e = ErrUnique \<and> find_service_key (tbl d) key \<noteq> None)"
  using assms
  by (auto simp: CreateService_def Let_def elim!: stmt_cases split: if_splits)

lemma GetService_result:
  "GetService sid d = (Inr svc, d') \<Longrightarrow> find_service (tbl d) sid = Some svc \<and> tbl d' = tbl d"
  unfolding GetService_def
  by (elim bind_InrE select_InrE or_not_found_InrE) simp

lemma GetServiceByKey_result:
  "GetServiceByKey k d = (Inr svc, d') \<Longrightarrow> find_service_key (tbl d) k = Some svc \<and> tbl d' = tbl d"
  unfolding GetServiceByKey_def
  by (elim bind_InrE select_InrE or_not_found_InrE) simp

lemma reads_only_GetService [simp]: "reads_only (GetService sid)"
  and reads_only_GetServiceByKey [simp]: "reads_only (GetServiceByKey k)"
  and reads_only_ListServices [simp]: "reads_only ListServices"
  and reads_only_ListServicesForUser [simp]: "reads_only (ListServicesForUser uid)"
  and reads_only_SearchVariables [simp]: "reads_only (SearchVariables q r)"
  by (simp_all add: GetService_def GetServiceByKey_def ListServices_def ListServicesForUser_def
      SearchVariables_def reads_only_bind)

lemma UpdateServiceTags_cases:
  assumes "UpdateServiceTags sid tags d = (r, d')"
  obtains (fault) "r = Inl ErrFault" and "tbl d' = tbl d" and "seqs d' = seqs d"
  | (missing) "r = Inl ErrNotFound" and "tbl d' = tbl d" and "seqs d' = seqs d"
      and "\<not> service_exists (tbl d) sid"
  | (updated) "r = Inr ()" and "seqs d' = seqs d" and "service_exists (tbl d) sid"
      and "tbl d' = (tbl d)\<lparr>services_tbl :=
        update_where (\<lambda>s. s_id s = sid) (\<lambda>s. s\<lparr>s_tags := tags\<rparr>) (services_tbl (tbl d))\<rparr>"
proof (cases "service_exists (tbl d) sid")
  case True
  then have ne: "filter (\<lambda>s. s_id s = sid) (services_tbl (tbl d)) \<noteq> []"
    by (auto simp: service_exists_iff filter_empty_conv)
  from assms show ?thesis unfolding UpdateServiceTags_def
    using True ne fault updated by (auto elim!: bind_cases stmt_cases)
next
  case False
  then have none: "filter (\<lambda>s. s_id s = sid) (services_tbl (tbl d)) = []"
    by (auto simp: service_exists_iff filter_empty_conv)
  then have idle: "update_where (\<lambda>s. s_id s = sid) f (services_tbl (tbl d)) = services_tbl (tbl d)"
    for f by (intro update_where_idle) (auto simp: filter_empty_conv)
  from assms show ?thesis unfolding UpdateServiceTags_def
    using False none fault missing by (auto simp: idle elim!: bind_cases stmt_cases)
qed

lemma DeleteService_cases:
  assumes "DeleteService sid d = (r, d')"
  obtains (fault) "r = Inl ErrFault" and "tbl d' = tbl d" and "seqs d' = seqs d"
  | (missing) "r = Inl ErrNotFound" and "tbl d' = tbl d" and "seqs d' = seqs d"
      and "\<not> service_exists (tbl d) sid"
  | (deleted) "r = Inr ()" and "tbl d' = cascade_service sid (tbl d)" and "seqs d' = seqs d"
      and "service_exists (tbl d) sid"
proof -
  have "(filter (\<lambda>s. s_id s = sid) (services_tbl (tbl d)) = []) = (\<not> service_exists (tbl d) sid)"
    by (auto simp: service_exists_iff filter_empty_conv)
  with assms show ?thesis unfolding DeleteService_def
    using that by (auto simp: Let_def elim!: bind_cases stmt_cases split: if_splits)
qed

section \<open>Preservation\<close>

lemma services_inv_snoc:
  assumes "services_inv t s" and "find_service_key t (s_key svc) = None" and "s_id svc = s ServicesSeq"
  shows "services_inv (t\<lparr>services_tbl := services_tbl t @ [svc]\<rparr>)
     (s(ServicesSeq := s ServicesSeq + 1))"
  using assms
  by (fastforce simp: services_inv_def find_service_key_def find_eq_None)

lemma preserves_CreateService_services [pres]:
  "preserves services_inv (CreateService key name desc by)"
  unfolding CreateService_def
proof (rule preserves_stmt, goal_cases)
  case (1 d r d')
  then show ?case
    using services_inv_snoc [of "tbl d" "seqs d"] seq_mono_def services_inv_mono seq_grow
    by (fastforce simp: Let_def split: if_splits)
qed

lemma services_inv_tags:
  "services_inv t s \<Longrightarrow> services_inv (t\<lparr>services_tbl :=
     update_where p (\<lambda>x. x\<lparr>s_tags := tags\<rparr>) (services_tbl t)\<rparr>) s"
  by (auto simp: services_inv_def in_set_update_where)

lemma preserves_UpdateServiceTags_services [pres]:
  "preserves services_inv (UpdateServiceTags sid tags)"
  by (rule preservesI, erule UpdateServiceTags_cases) (simp_all add: services_inv_tags)

lemma services_inv_cascade: "services_inv t s \<Longrightarrow> services_inv (cascade_service sid t) s"
  by (auto simp: services_inv_def cascade_service_def distinct_map_filter)

lemma preserves_DeleteService_services [pres]: "preserves services_inv (DeleteService sid)"
  by (rule preservesI, erule DeleteService_cases) (simp_all add: services_inv_cascade)

text \<open>Services that are not deleted stay, and so do foreign keys to them.\<close>

lemma service_exists_cascade [simp]:
  "service_exists (cascade_service sid t) x \<longleftrightarrow> x \<noteq> sid \<and> service_exists t x"
  by (auto simp: service_exists_iff cascade_service_def)

section \<open>Search\<close>

lemma search_rows_hit:
  assumes "h \<in> set (search_rows d pat restrict_user)"
  obtains v s where "v \<in> set (variables_tbl (tbl d))" and "s \<in> set (services_tbl (tbl d))"
    and "s_id s = v_service v" and "h_service h = s_id s" and "h_key h = v_key v"
    and "h_value h = v_value v" and "h_service_key h = s_key s"
    and "ilike d (v_key v) pat \<or> ilike d (v_value v) pat"
    and "\<And>uid. restrict_user = Some uid \<Longrightarrow>
       \<exists>p \<in> set (perms_tbl (tbl d)). p_user p = uid \<and> p_service p = s_id s"
proof -
  from assms obtain v s where v: "v \<in> set (variables_tbl (tbl d))"
    and s: "s \<in> set (services_tbl (tbl d))"
    and cond: "s_id s = v_service v" "ilike d (v_key v) pat \<or> ilike d (v_value v) pat"
    and h: "h \<in> set (let h = \<lparr>h_service = v_service v, h_service_key = s_key s,
                 h_service_name = s_name s, h_key = v_key v, h_value = v_value v\<rparr>
             in case restrict_user of
                  None \<Rightarrow> [h]
                | Some uid \<Rightarrow> map (\<lambda>_. h)
                    (filter (\<lambda>p. p_service p = s_id s \<and> p_user p = uid) (perms_tbl (tbl d))))"
    unfolding search_rows_def by (auto split: if_splits)
  from h have "h = \<lparr>h_service = v_service v, h_service_key = s_key s,
                 h_service_name = s_name s, h_key = v_key v, h_value = v_value v\<rparr>"
    and "\<And>uid. restrict_user = Some uid \<Longrightarrow>
       \<exists>p \<in> set (perms_tbl (tbl d)). p_user p = uid \<and> p_service p = s_id s"
    by (auto simp: Let_def split: option.splits)
  with v s cond show ?thesis by (intro that [of v s]) auto
qed

end
