(* ===== verification/Store_Variables.thy ===== *)
theory Store_Variables
  imports Version_Log Store_Services
begin

text \<open>
  \<open>internal/store/variables.go\<close>: the current variables, their version history and the
  transactions that change both. The contract of \<open>Version_Log\<close> is proved for them.
\<close>

section \<open>Queries and statements\<close>

definition is_var :: "int \<Rightarrow> string \<Rightarrow> variable \<Rightarrow> bool" where
  "is_var sid key v \<longleftrightarrow> v_service v = sid \<and> v_key v = key"

definition find_variable :: "tables \<Rightarrow> int \<Rightarrow> string \<Rightarrow> variable option" where
  "find_variable t sid key = find (is_var sid key) (variables_tbl t)"

definition key_history :: "tables \<Rightarrow> int \<Rightarrow> string \<Rightarrow> variable_version list" where
  "key_history t sid key =
     filter (\<lambda>x. vv_service x = sid \<and> vv_key x = key) (versions_tbl t)"

definition ListVariables :: "int \<Rightarrow> variable list dbm" where
  "ListVariables sid = select (\<lambda>d. sort_by (\<lambda>a b. collate d (v_key a) (v_key b))
     (filter (\<lambda>v. v_service v = sid) (variables_tbl (tbl d))))"

text \<open>SQL's MAX: NULL on no rows.\<close>

definition sql_max :: "int list \<Rightarrow> int option" where
  "sql_max xs = (case xs of [] \<Rightarrow> None | y # ys \<Rightarrow> Some (fold max ys y))"

definition max_version :: "tables \<Rightarrow> int \<Rightarrow> string \<Rightarrow> int" where
  "max_version t sid key =
     (case sql_max (map vv_version (key_history t sid key)) of None \<Rightarrow> 0 | Some m \<Rightarrow> m)"

definition nextVersion :: "int \<Rightarrow> string \<Rightarrow> int dbm" where
  "nextVersion sid key =
     bind (select (\<lambda>d. max_version (tbl d) sid key)) (\<lambda>m. ret (int64 (m + 1)))"

definition variable_existed :: "int \<Rightarrow> string \<Rightarrow> bool dbm" where
  "variable_existed sid key = select (\<lambda>d. find_variable (tbl d) sid key \<noteq> None)"

text \<open>
  The INSERT ... ON CONFLICT (service_id, key) DO UPDATE ... RETURNING statement. The
  sequence is advanced on both branches; the foreign key is checked for a new row.
\<close>

definition write_variable :: "int \<Rightarrow> string \<Rightarrow> string \<Rightarrow> int \<Rightarrow> string \<Rightarrow> variable dbm" where
  "write_variable sid key val ver who = stmt (\<lambda>d0.
     let d = nextval VariablesSeq d0 in
     case find_variable (tbl d) sid key of
       Some old \<Rightarrow>
         (let new = old\<lparr>v_value := val, v_version := ver, v_updated_at := clock d,
                        v_updated_by := who\<rparr>
          in (Inr new, with_tbl (\<lambda>t. t\<lparr>variables_tbl :=
                update_where (is_var sid key) (\<lambda>_. new) (variables_tbl t)\<rparr>) d))
     | None \<Rightarrow>
         if service_exists (tbl d) sid
         then (let new = \<lparr>v_id = seqs d0 VariablesSeq, v_service = sid, v_key = key, v_value = val,
                          v_version = ver, v_updated_at = clock d, v_updated_by = who\<rparr>
               in (Inr new, with_tbl (\<lambda>t. t\<lparr>variables_tbl := variables_tbl t @ [new]\<rparr>) d))
         else (Inl ErrForeignKey, d))"

text \<open>The CHECK constraint on \<open>change_type\<close>.\<close>

definition change_ok :: "string \<Rightarrow> bool" where
  "change_ok c \<longleftrightarrow> c \<in> set [ChangeCreate, ChangeUpdate, ChangeDelete, ChangeRollback]"

definition insertVersion :: "int \<Rightarrow> string \<Rightarrow> string \<Rightarrow> int \<Rightarrow> string \<Rightarrow> string \<Rightarrow> unit dbm" where
  "insertVersion sid key val ver changeType who = stmt (\<lambda>d0.
     let d = nextval VersionsSeq d0;
         row = \<lparr>vv_id = seqs d0 VersionsSeq, vv_service = sid, vv_key = key, vv_value = val,
                vv_version = ver, vv_change = changeType, vv_at = clock d, vv_by = who\<rparr>
     in if \<not> change_ok changeType then (Inl ErrCheck, d)
        else if \<not> service_exists (tbl d) sid then (Inl ErrForeignKey, d)
        else (Inr (), with_tbl (\<lambda>t. t\<lparr>versions_tbl := versions_tbl t @ [row]\<rparr>) d))"

section \<open>Transactions\<close>

text \<open>The statements of one create-or-update, shared by the single and the bulk transaction.\<close>

definition upsert_body :: "int \<Rightarrow> string \<Rightarrow> string \<Rightarrow> string \<Rightarrow> var_change dbm" where
  "upsert_body sid key val who =
     bind (variable_existed sid key) (\<lambda>existed.
     bind (nextVersion sid key) (\<lambda>ver.
     let changeType = (if existed then ChangeUpdate else ChangeCreate) in
     bind (write_variable sid key val ver who) (\<lambda>v.
     bind (insertVersion sid key val ver changeType who) (\<lambda>_.
     ret \<lparr>ch_variable = v, ch_type = changeType\<rparr>))))"

definition UpsertVariable :: "int \<Rightarrow> string \<Rightarrow> string \<Rightarrow> string \<Rightarrow> var_change dbm" where
  "UpsertVariable sid key val who = tx (upsert_body sid key val who)"

text \<open>The map of the bulk request, as the list of its pairs in the order of the iteration.\<close>

fun bulk_loop :: "int \<Rightarrow> (string \<times> string) list \<Rightarrow> string \<Rightarrow> var_change list \<Rightarrow>
    var_change list dbm" where
  "bulk_loop sid [] who out = ret out"
| "bulk_loop sid ((key, val) # kv) who out =
     bind (upsert_body sid key val who) (\<lambda>ch. bulk_loop sid kv who (out @ [ch]))"

definition BulkUpsertVariables :: "int \<Rightarrow> (string \<times> string) list \<Rightarrow> string \<Rightarrow>
    var_change list dbm" where
  "BulkUpsertVariables sid kv who = tx (bulk_loop sid kv who [])"

text \<open>The change returned for a delete carries zero values for id, time and author.\<close>

definition delete_body :: "int \<Rightarrow> string \<Rightarrow> string \<Rightarrow> var_change dbm" where
  "delete_body sid key who =
     bind (bind (select (\<lambda>d. map_option v_value (find_variable (tbl d) sid key))) or_not_found)
       (\<lambda>prevValue.
     bind (nextVersion sid key) (\<lambda>ver.
     bind (stmt (\<lambda>d. (Inr (), with_tbl (\<lambda>t. t\<lparr>variables_tbl :=
        filter (\<lambda>v. \<not> is_var sid key v) (variables_tbl t)\<rparr>) d))) (\<lambda>_.
     bind (insertVersion sid key prevValue ver ChangeDelete who) (\<lambda>_.
     ret \<lparr>ch_variable = \<lparr>v_id = 0, v_service = sid, v_key = key, v_value = prevValue,
              v_version = ver, v_updated_at = 0, v_updated_by = ''''\<rparr>,
          ch_type = ChangeDelete\<rparr>))))"

definition DeleteVariable :: "int \<Rightarrow> string \<Rightarrow> string \<Rightarrow> var_change dbm" where
  "DeleteVariable sid key who = tx (delete_body sid key who)"

definition rollback_body :: "int \<Rightarrow> string \<Rightarrow> int \<Rightarrow> string \<Rightarrow> var_change dbm" where
  "rollback_body sid key targetVersion who =
     bind (bind (select (\<lambda>d. find (\<lambda>x. vv_version x = targetVersion)
        (key_history (tbl d) sid key))) or_not_found) (\<lambda>old.
     if vv_change old = ChangeDelete then throw ErrRollbackToDelete
     else
     bind (nextVersion sid key) (\<lambda>ver.
     bind (write_variable sid key (vv_value old) ver who) (\<lambda>v.
     bind (insertVersion sid key (vv_value old) ver ChangeRollback who) (\<lambda>_.
     ret \<lparr>ch_variable = v, ch_type = ChangeRollback\<rparr>))))"

definition RollbackVariable :: "int \<Rightarrow> string \<Rightarrow> int \<Rightarrow> string \<Rightarrow> var_change dbm" where
  "RollbackVariable sid key targetVersion who = tx (rollback_body sid key targetVersion who)"

definition VariableHistory :: "int \<Rightarrow> string \<Rightarrow> variable_version list dbm" where
  "VariableHistory sid key =
     select (\<lambda>d. sort_by (\<lambda>a b. vv_version a \<ge> vv_version b) (key_history (tbl d) sid key))"

text \<open>A limit outside 1..1000 becomes 200, here and in the audit listing.\<close>

definition clamp_limit :: "int \<Rightarrow> nat" where
  "clamp_limit limit = (if limit \<le> 0 \<or> limit > 1000 then 200 else nat limit)"

definition ServiceHistory :: "int \<Rightarrow> int \<Rightarrow> variable_version list dbm" where
  "ServiceHistory sid limit =
     select (\<lambda>d. take (clamp_limit limit) (sort_by (\<lambda>a b. vv_at a \<ge> vv_at b)
       (filter (\<lambda>x. vv_service x = sid) (versions_tbl (tbl d)))))"

section \<open>What the transactions leave in the tables\<close>

text \<open>The two appends of a change: the current row and the history row.\<close>

definition put_row :: "variable \<Rightarrow> variable list \<Rightarrow> variable list" where
  "put_row v vs = (if \<exists>x \<in> set vs. is_var (v_service v) (v_key v) x
     then update_where (is_var (v_service v) (v_key v)) (\<lambda>_. v) vs else vs @ [v])"

definition version_row :: "int \<Rightarrow> int \<Rightarrow> string \<Rightarrow> string \<Rightarrow> int \<Rightarrow> string \<Rightarrow> int \<Rightarrow> string \<Rightarrow>
    variable_version" where
  "version_row i sid key val ver ct at who = \<lparr>vv_id = i, vv_service = sid, vv_key = key,
     vv_value = val, vv_version = ver, vv_change = ct, vv_at = at, vv_by = who\<rparr>"

text \<open>\<open>wrote\<close>: a change of one key was applied to \<open>t\<close> by a successful program.\<close>

definition wrote :: "tables \<Rightarrow> sequences \<Rightarrow> int \<Rightarrow> string \<Rightarrow> string \<Rightarrow> string \<Rightarrow> int \<Rightarrow> string \<Rightarrow>
    variable \<Rightarrow> tables \<Rightarrow> sequences \<Rightarrow> bool" where
  "wrote t s sid key val ct now who v t' s' \<longleftrightarrow>
     service_exists t sid \<and> is_var sid key v \<and> v_value v = val \<and>
     v_version v = int64 (max_version t sid key + 1) \<and> v_updated_at v = now \<and> v_updated_by v = who \<and>
     v_id v = (case find_variable t sid key of None \<Rightarrow> s VariablesSeq | Some old \<Rightarrow> v_id old) \<and>
     t' = t\<lparr>variables_tbl := put_row v (variables_tbl t),
            versions_tbl := versions_tbl t @
              [version_row (s VersionsSeq) sid key val (v_version v) ct now who]\<rparr> \<and>
     s' = s(VariablesSeq := s VariablesSeq + 1, VersionsSeq := s VersionsSeq + 1)"

lemma nextVersion_InrE:
  assumes "nextVersion sid key d = (Inr n, d')"
  obtains "tbl d' = tbl d" and "seqs d' = seqs d" and "clock d' = clock d" and "notifs d' = notifs d"
    and "n = int64 (max_version (tbl d) sid key + 1)"
  using assms unfolding nextVersion_def by (auto elim!: bind_InrE select_InrE)

lemma find_variable_is_var: "find_variable t sid key = Some v \<Longrightarrow> is_var sid key v"
  by (auto simp: find_variable_def dest: find_SomeD)

lemma find_variable_ex:
  "(\<exists>x \<in> set (variables_tbl t). is_var sid key x) \<longleftrightarrow> find_variable t sid key \<noteq> None"
  by (auto simp: find_variable_def find_eq_None)

lemma put_row_find:
  assumes "is_var sid key v"
  shows "put_row v (variables_tbl t) = (case find_variable t sid key of
     None \<Rightarrow> variables_tbl t @ [v]
   | Some _ \<Rightarrow> update_where (is_var sid key) (\<lambda>_. v) (variables_tbl t))"
proof -
  have "is_var (v_service v) (v_key v) = is_var sid key" using assms by (simp add: is_var_def)
  then show ?thesis
    using find_variable_ex [of t sid key] by (auto simp: put_row_def split: option.splits)
qed

lemma write_variable_InrE:
  assumes "write_variable sid key val ver who d = (Inr v, d')"
  obtains "is_var sid key v" and "v_value v = val" and "v_version v = ver"
    and "v_updated_at v = clock d" and "v_updated_by v = who"
    and "v_id v = (case find_variable (tbl d) sid key of None \<Rightarrow> seqs d VariablesSeq
                   | Some old \<Rightarrow> v_id old)"
    and "tbl d' = (tbl d)\<lparr>variables_tbl := put_row v (variables_tbl (tbl d))\<rparr>"
    and "seqs d' = (seqs d)(VariablesSeq := seqs d VariablesSeq + 1)"
    and "clock d' = clock d" and "notifs d' = notifs d"
proof (cases "find_variable (tbl d) sid key")
  case None
  with assms show ?thesis
    unfolding write_variable_def
    by (elim stmt_InrE, intro that)
      (auto simp: Let_def put_row_find [of sid key] is_var_def split: if_splits)
next
  case (Some old)
  then have "v_service old = sid" "v_key old = key"
    using find_variable_is_var by (auto simp: is_var_def)
  with assms Some show ?thesis
    unfolding write_variable_def
    by (elim stmt_InrE, intro that)
      (auto simp: Let_def put_row_find [of sid key] is_var_def)
qed

lemma insertVersion_InrE:
  assumes "insertVersion sid key val ver ct who d = (Inr x, d')"
  obtains "service_exists (tbl d) sid" and "change_ok ct"
    and "tbl d' = (tbl d)\<lparr>versions_tbl := versions_tbl (tbl d) @
           [version_row (seqs d VersionsSeq) sid key val ver ct (clock d) who]\<rparr>"
    and "seqs d' = (seqs d)(VersionsSeq := seqs d VersionsSeq + 1)"
    and "clock d' = clock d" and "notifs d' = notifs d"
  using assms unfolding insertVersion_def
  by (elim stmt_InrE) (auto simp: Let_def version_row_def split: if_splits)

text \<open>\<open>removed\<close>: the current row went away and a delete row was recorded.\<close>

definition removed :: "tables \<Rightarrow> sequences \<Rightarrow> int \<Rightarrow> string \<Rightarrow> variable \<Rightarrow> int \<Rightarrow> string \<Rightarrow> int \<Rightarrow>
    tables \<Rightarrow> sequences \<Rightarrow> bool" where
  "removed t s sid key old now who ver t' s' \<longleftrightarrow>
     find_variable t sid key = Some old \<and> service_exists t sid \<and>
     ver = int64 (max_version t sid key + 1) \<and>
     t' = t\<lparr>variables_tbl := filter (\<lambda>v. \<not> is_var sid key v) (variables_tbl t),
            versions_tbl := versions_tbl t @
              [version_row (s VersionsSeq) sid key (v_value old) ver ChangeDelete now who]\<rparr> \<and>
     s' = s(VersionsSeq := s VersionsSeq + 1)"

lemma max_version_cong:
  "versions_tbl t' = versions_tbl t \<Longrightarrow> max_version t' sid key = max_version t sid key"
  by (simp add: max_version_def key_history_def)

lemma service_exists_eq:
  "services_tbl t' = services_tbl t \<Longrightarrow> service_exists t' sid = service_exists t sid"
  by (simp add: service_exists_def find_service_def)

lemma service_exists_upd [simp]:
  "service_exists (t\<lparr>variables_tbl := x\<rparr>) sid = service_exists t sid"
  "service_exists (t\<lparr>versions_tbl := y\<rparr>) sid = service_exists t sid"
  by (simp_all add: service_exists_def find_service_def)

text \<open>The tail that every write shares: number, current row, history row.\<close>

definition write_tail :: "int \<Rightarrow> string \<Rightarrow> string \<Rightarrow> string \<Rightarrow> string \<Rightarrow> var_change dbm" where
  "write_tail sid key val ct who =
     bind (nextVersion sid key) (\<lambda>ver.
     bind (write_variable sid key val ver who) (\<lambda>v.
     bind (insertVersion sid key val ver ct who) (\<lambda>_.
     ret \<lparr>ch_variable = v, ch_type = ct\<rparr>)))"

lemma write_tail_wrote:
  assumes "write_tail sid key val ct who d = (Inr ch, d')"
  shows "ch_type ch = ct \<and>
     wrote (tbl d) (seqs d) sid key val ct (clock d) who (ch_variable ch) (tbl d') (seqs d') \<and>
     clock d' = clock d \<and> notifs d' = notifs d"
proof -
  from assms obtain ver d1 where 1: "nextVersion sid key d = (Inr ver, d1)"
    and r1: "bind (write_variable sid key val ver who) (\<lambda>v.
       bind (insertVersion sid key val ver ct who) (\<lambda>_.
       ret \<lparr>ch_variable = v, ch_type = ct\<rparr>)) d1 = (Inr ch, d')"
    unfolding write_tail_def by (rule bind_InrE)
  from r1 obtain v d2 where 2: "write_variable sid key val ver who d1 = (Inr v, d2)"
    and r2: "bind (insertVersion sid key val ver ct who) (\<lambda>_.
       ret \<lparr>ch_variable = v, ch_type = ct\<rparr>) d2 = (Inr ch, d')"
    by (rule bind_InrE)
  from r2 obtain u where 3: "insertVersion sid key val ver ct who d2 = (Inr u, d')"
    and ch: "ch = \<lparr>ch_variable = v, ch_type = ct\<rparr>"
    by (rule bind_InrE) simp
  from 1 have d1: "tbl d1 = tbl d" "seqs d1 = seqs d" "clock d1 = clock d" "notifs d1 = notifs d"
    "ver = int64 (max_version (tbl d) sid key + 1)" by (auto elim: nextVersion_InrE)
  from 2 d1 have v: "is_var sid key v" "v_value v = val" "v_version v = ver"
    "v_updated_at v = clock d" "v_updated_by v = who"
    "v_id v = (case find_variable (tbl d) sid key of None \<Rightarrow> seqs d VariablesSeq
                   | Some old \<Rightarrow> v_id old)"
    "tbl d2 = (tbl d)\<lparr>variables_tbl := put_row v (variables_tbl (tbl d))\<rparr>"
    "seqs d2 = (seqs d)(VariablesSeq := seqs d VariablesSeq + 1)"
    "clock d2 = clock d" "notifs d2 = notifs d"
    by (auto elim!: write_variable_InrE split: option.splits)
  from 3 v have e: "service_exists (tbl d) sid"
    "tbl d' = (tbl d)\<lparr>variables_tbl := put_row v (variables_tbl (tbl d)),
       versions_tbl := versions_tbl (tbl d) @
           [version_row (seqs d VersionsSeq) sid key val ver ct (clock d) who]\<rparr>"
    "seqs d' = (seqs d)(VariablesSeq := seqs d VariablesSeq + 1, VersionsSeq := seqs d VersionsSeq + 1)"
    "clock d' = clock d" "notifs d' = notifs d"
    by (auto elim!: insertVersion_InrE)
  show ?thesis using d1 v(1-6) e ch unfolding wrote_def by simp
qed

lemma upsert_body_eq:
  "upsert_body sid key val who = bind (variable_existed sid key) (\<lambda>existed.
     write_tail sid key val (if existed then ChangeUpdate else ChangeCreate) who)"
  by (simp add: upsert_body_def write_tail_def Let_def bind_def fun_eq_iff
      split: prod.splits sum.splits)

lemma upsert_body_wrote:
  assumes "upsert_body sid key val who d = (Inr ch, d')"
  shows "ch_type ch = (if find_variable (tbl d) sid key = None then ChangeCreate else ChangeUpdate) \<and>
     wrote (tbl d) (seqs d) sid key val (ch_type ch) (clock d) who (ch_variable ch) (tbl d') (seqs d') \<and>
     clock d' = clock d \<and> notifs d' = notifs d"
proof -
  from assms obtain existed d1 where 1: "variable_existed sid key d = (Inr existed, d1)"
    and 2: "write_tail sid key val (if existed then ChangeUpdate else ChangeCreate) who d1 = (Inr ch, d')"
    unfolding upsert_body_eq by (rule bind_InrE)
  from 1 obtain fs where "d1 = d\<lparr>faults := fs\<rparr>" "existed = (find_variable (tbl d) sid key \<noteq> None)"
    unfolding variable_existed_def by (auto elim: select_InrE)
  with write_tail_wrote [OF 2] show ?thesis by auto
qed

lemma rollback_body_eq:
  "rollback_body sid key n who =
     bind (bind (select (\<lambda>d. find (\<lambda>x. vv_version x = n) (key_history (tbl d) sid key))) or_not_found)
      (\<lambda>old. if vv_change old = ChangeDelete then throw ErrRollbackToDelete
         else write_tail sid key (vv_value old) ChangeRollback who)"
  unfolding rollback_body_def write_tail_def by (rule refl)

lemma rollback_body_wrote:
  assumes "rollback_body sid key n who d = (Inr ch, d')"
  shows "\<exists>old. find (\<lambda>x. vv_version x = n) (key_history (tbl d) sid key) = Some old \<and>
     vv_change old \<noteq> ChangeDelete \<and> ch_type ch = ChangeRollback \<and>
     wrote (tbl d) (seqs d) sid key (vv_value old) ChangeRollback (clock d) who (ch_variable ch)
       (tbl d') (seqs d') \<and> clock d' = clock d \<and> notifs d' = notifs d"
proof -
  from assms obtain old d1 where
    1: "bind (select (\<lambda>d. find (\<lambda>x. vv_version x = n) (key_history (tbl d) sid key)))
          or_not_found d = (Inr old, d1)"
    and 2: "(if vv_change old = ChangeDelete then throw ErrRollbackToDelete
         else write_tail sid key (vv_value old) ChangeRollback who) d1 = (Inr ch, d')"
    unfolding rollback_body_eq by (rule bind_InrE)
  from 1 obtain fs where d1: "d1 = d\<lparr>faults := fs\<rparr>"
    and old: "find (\<lambda>x. vv_version x = n) (key_history (tbl d) sid key) = Some old"
    by (elim bind_InrE select_InrE or_not_found_InrE) auto
  from 2 have nd: "vv_change old \<noteq> ChangeDelete"
    and 3: "write_tail sid key (vv_value old) ChangeRollback who d1 = (Inr ch, d')"
    by (auto split: if_splits)
  from write_tail_wrote [OF 3] d1 old nd show ?thesis by auto
qed

lemma delete_body_removed:
  assumes "delete_body sid key who d = (Inr ch, d')"
  shows "\<exists>old. removed (tbl d) (seqs d) sid key old (clock d) who (v_version (ch_variable ch))
       (tbl d') (seqs d') \<and> ch_type ch = ChangeDelete \<and> is_var sid key (ch_variable ch) \<and>
       v_value (ch_variable ch) = v_value old \<and> clock d' = clock d \<and> notifs d' = notifs d"
proof -
  let ?fetch = "bind (select (\<lambda>d. map_option v_value (find_variable (tbl d) sid key))) or_not_found"
  let ?del = "stmt (\<lambda>d. (Inr (), with_tbl (\<lambda>t. t\<lparr>variables_tbl :=
        filter (\<lambda>v. \<not> is_var sid key v) (variables_tbl t)\<rparr>) d))"
  from assms obtain prev d1 where 1: "?fetch d = (Inr prev, d1)"
    and r1: "bind (nextVersion sid key) (\<lambda>ver. bind ?del (\<lambda>_.
       bind (insertVersion sid key prev ver ChangeDelete who) (\<lambda>_.
       ret \<lparr>ch_variable = \<lparr>v_id = 0, v_service = sid, v_key = key, v_value = prev,
              v_version = ver, v_updated_at = 0, v_updated_by = ''''\<rparr>,
          ch_type = ChangeDelete\<rparr>))) d1 = (Inr ch, d')"
    unfolding delete_body_def by (rule bind_InrE)
  from r1 obtain ver d2 where 2: "nextVersion sid key d1 = (Inr ver, d2)"
    and r2: "bind ?del (\<lambda>_. bind (insertVersion sid key prev ver ChangeDelete who) (\<lambda>_.
       ret \<lparr>ch_variable = \<lparr>v_id = 0, v_service = sid, v_key = key, v_value = prev,
              v_version = ver, v_updated_at = 0, v_updated_by = ''''\<rparr>,
          ch_type = ChangeDelete\<rparr>)) d2 = (Inr ch, d')"
    by (rule bind_InrE)
  from r2 obtain d3 where 3: "?del d2 = (Inr (), d3)"
    and r3: "bind (insertVersion sid key prev ver ChangeDelete who) (\<lambda>_.
       ret \<lparr>ch_variable = \<lparr>v_id = 0, v_service = sid, v_key = key, v_value = prev,
              v_version = ver, v_updated_at = 0, v_updated_by = ''''\<rparr>,
          ch_type = ChangeDelete\<rparr>) d3 = (Inr ch, d')"
    by (rule bind_InrE) auto
  from r3 obtain u d4 where 4: "insertVersion sid key prev ver ChangeDelete who d3 = (Inr u, d4)"
    and 5: "d' = d4" "ch = \<lparr>ch_variable = \<lparr>v_id = 0, v_service = sid, v_key = key,
              v_value = prev, v_version = ver, v_updated_at = 0, v_updated_by = ''''\<rparr>,
            ch_type = ChangeDelete\<rparr>"
    by (rule bind_InrE) simp
  from 1 obtain old where old: "find_variable (tbl d) sid key = Some old" "v_value old = prev"
    and d1: "tbl d1 = tbl d" "seqs d1 = seqs d" "clock d1 = clock d" "notifs d1 = notifs d"
    by (elim bind_InrE select_InrE or_not_found_InrE) auto
  from 2 d1 have d2: "tbl d2 = tbl d" "seqs d2 = seqs d" "clock d2 = clock d" "notifs d2 = notifs d"
    "ver = int64 (max_version (tbl d) sid key + 1)" by (auto elim: nextVersion_InrE)
  from 3 d2 have d3: "tbl d3 = (tbl d)\<lparr>variables_tbl :=
        filter (\<lambda>v. \<not> is_var sid key v) (variables_tbl (tbl d))\<rparr>"
    "seqs d3 = seqs d" "clock d3 = clock d" "notifs d3 = notifs d" by (auto elim: stmt_InrE)
  from 4 d3 have d4: "service_exists (tbl d) sid"
    "tbl d4 = (tbl d)\<lparr>variables_tbl := filter (\<lambda>v. \<not> is_var sid key v) (variables_tbl (tbl d)),
       versions_tbl := versions_tbl (tbl d) @
           [version_row (seqs d VersionsSeq) sid key prev ver ChangeDelete (clock d) who]\<rparr>"
    "seqs d4 = (seqs d)(VersionsSeq := seqs d VersionsSeq + 1)"
    "clock d4 = clock d" "notifs d4 = notifs d"
    by (auto elim!: insertVersion_InrE)
  have "removed (tbl d) (seqs d) sid key old (clock d) who ver (tbl d') (seqs d')"
    using old d2(5) d4 5(1) unfolding removed_def by simp
  with 5 d4 old show ?thesis by (intro exI [of _ old]) (simp add: is_var_def)
qed

text \<open>The transactions, whatever the fault schedule.\<close>

lemma UpsertVariable_wrote:
  assumes "UpsertVariable sid key val who d = (Inr ch, d')"
  shows "ch_type ch = (if find_variable (tbl d) sid key = None then ChangeCreate else ChangeUpdate) \<and>
     wrote (tbl d) (seqs d) sid key val (ch_type ch) (clock d) who (ch_variable ch) (tbl d') (seqs d') \<and>
     clock d' = clock d \<and> notifs d' = notifs d"
  using assms unfolding UpsertVariable_def
  by (elim tx_InrE) (drule upsert_body_wrote, auto)

lemma RollbackVariable_wrote:
  assumes "RollbackVariable sid key n who d = (Inr ch, d')"
  shows "\<exists>old. find (\<lambda>x. vv_version x = n) (key_history (tbl d) sid key) = Some old \<and>
     vv_change old \<noteq> ChangeDelete \<and> ch_type ch = ChangeRollback \<and>
     wrote (tbl d) (seqs d) sid key (vv_value old) ChangeRollback (clock d) who (ch_variable ch)
       (tbl d') (seqs d') \<and> clock d' = clock d \<and> notifs d' = notifs d"
  using assms unfolding RollbackVariable_def
  by (elim tx_InrE) (drule rollback_body_wrote, auto)

lemma DeleteVariable_removed:
  assumes "DeleteVariable sid key who d = (Inr ch, d')"
  shows "\<exists>old. removed (tbl d) (seqs d) sid key old (clock d) who (v_version (ch_variable ch))
       (tbl d') (seqs d') \<and> ch_type ch = ChangeDelete \<and> is_var sid key (ch_variable ch) \<and>
       v_value (ch_variable ch) = v_value old \<and> clock d' = clock d \<and> notifs d' = notifs d"
  using assms unfolding DeleteVariable_def
  by (elim tx_InrE) (drule delete_body_removed, auto)

section \<open>How they fail\<close>

lemma nextVersion_InlD: "nextVersion sid key d = (Inl e, d') \<Longrightarrow> e = ErrFault"
  unfolding nextVersion_def by (auto elim!: bind_cases dest: select_InlD)

lemma write_variable_InlD:
  "write_variable sid key val ver who d = (Inl e, d') \<Longrightarrow>
     e = ErrFault \<or> e = ErrForeignKey \<and> \<not> service_exists (tbl d) sid"
  unfolding write_variable_def by (elim stmt_cases) (auto simp: Let_def split: option.splits if_splits)

lemma insertVersion_InlD:
  "insertVersion sid key val ver ct who d = (Inl e, d') \<Longrightarrow> change_ok ct \<Longrightarrow>
     e = ErrFault \<or> e = ErrForeignKey \<and> \<not> service_exists (tbl d) sid"
  unfolding insertVersion_def by (elim stmt_cases) (auto simp: Let_def split: if_splits)

lemma change_ok_simps [simp]:
  "change_ok ChangeCreate" "change_ok ChangeUpdate" "change_ok ChangeDelete" "change_ok ChangeRollback"
  by (simp_all add: change_ok_def)

lemma write_tail_InlD:
  assumes "write_tail sid key val ct who d = (Inl e, d')" and ct: "change_ok ct"
  shows "e = ErrFault \<or> e = ErrForeignKey \<and> \<not> service_exists (tbl d) sid"
  using assms(1) unfolding write_tail_def
proof (cases rule: bind_cases)
  case (fail e')
  then show ?thesis by (auto dest: nextVersion_InlD)
next
  case (step ver d1)
  then have d1: "tbl d1 = tbl d" by (auto elim: nextVersion_InrE)
  from step(2) show ?thesis
  proof (cases rule: bind_cases)
    case (fail e')
    then show ?thesis using d1 by (auto dest: write_variable_InlD)
  next
    case (step v d2)
    then have "service_exists (tbl d2) sid = service_exists (tbl d) sid"
      using d1 by (auto elim!: write_variable_InrE)
    with step(2) ct show ?thesis by (auto elim!: bind_cases dest: insertVersion_InlD)
  qed
qed

lemma upsert_body_InlD:
  "upsert_body sid key val who d = (Inl e, d') \<Longrightarrow>
     e = ErrFault \<or> e = ErrForeignKey \<and> \<not> service_exists (tbl d) sid"
  unfolding upsert_body_eq
  by (elim bind_cases)
    (auto simp: variable_existed_def elim!: select_InrE dest!: select_InlD write_tail_InlD split: if_splits)

text \<open>A row that is looked up: a fault, no row, or the row on the same tables.\<close>

lemma fetch_cases:
  assumes "bind (select g) or_not_found d = (r, d')"
  obtains (fault) "r = Inl ErrFault"
  | (missing) fs where "r = Inl ErrNotFound" and "g (d\<lparr>faults := fs\<rparr>) = None"
  | (found) x fs where "r = Inr x" and "g (d\<lparr>faults := fs\<rparr>) = Some x" and "d' = d\<lparr>faults := fs\<rparr>"
  using assms
proof (cases rule: bind_cases)
  case (fail e)
  then show ?thesis using fault by (auto dest: select_InlD)
next
  case (step x d1)
  then show ?thesis using missing found by (cases x) (auto elim!: select_InrE)
qed

lemma rollback_body_InlD:
  assumes "rollback_body sid key n who d = (Inl e, d')"
  shows "e = ErrFault \<or> e = ErrForeignKey \<and> \<not> service_exists (tbl d) sid \<or>
     e = ErrNotFound \<and> find (\<lambda>x. vv_version x = n) (key_history (tbl d) sid key) = None \<or>
     e = ErrRollbackToDelete \<and>
       (\<exists>old. find (\<lambda>x. vv_version x = n) (key_history (tbl d) sid key) = Some old \<and>
          vv_change old = ChangeDelete)"
  using assms unfolding rollback_body_eq
proof (cases rule: bind_cases)
  case (fail e')
  then show ?thesis by (auto elim: fetch_cases)
next
  case (step old d1)
  from step(1) obtain fs where d1: "d1 = d\<lparr>faults := fs\<rparr>"
    and old: "find (\<lambda>x. vv_version x = n) (key_history (tbl d) sid key) = Some old"
    by (auto elim: fetch_cases)
  from step(2) d1 old show ?thesis
    by (cases "vv_change old = ChangeDelete") (auto dest: write_tail_InlD)
qed

lemma delete_body_InlD:
  assumes "delete_body sid key who d = (Inl e, d')"
  shows "e = ErrFault \<or> e = ErrForeignKey \<and> \<not> service_exists (tbl d) sid \<or>
     e = ErrNotFound \<and> find_variable (tbl d) sid key = None"
  using assms unfolding delete_body_def
proof (cases rule: bind_cases)
  case (fail e')
  then show ?thesis by (auto elim: fetch_cases)
next
  case (step prev d1)
  then have d1: "tbl d1 = tbl d" by (auto elim: fetch_cases)
  from step(2) show ?thesis
  proof (cases rule: bind_cases)
    case (fail e')
    then show ?thesis by (auto dest: nextVersion_InlD)
  next
    case (step ver d2)
    then have d2: "tbl d2 = tbl d" using d1 by (auto elim: nextVersion_InrE)
    from step(2) show ?thesis
    proof (cases rule: bind_cases)
      case (fail e')
      then show ?thesis by (auto elim: stmt_cases)
    next
      case (step u d3)
      then have "service_exists (tbl d3) sid = service_exists (tbl d) sid"
        using d2 by (auto elim!: stmt_cases)
      with step(2) show ?thesis by (auto elim!: bind_cases dest: insertVersion_InlD)
    qed
  qed
qed

text \<open>The transactions: an error is a fault of the database or has its cause in the tables.\<close>

lemma UpsertVariable_InlD:
  assumes "UpsertVariable sid key val who d = (Inl e, d')"
  shows "e = ErrFault \<or> e = ErrForeignKey \<and> \<not> service_exists (tbl d) sid"
  using assms unfolding UpsertVariable_def
  by (cases rule: tx_InlE) (auto dest: upsert_body_InlD)

lemma DeleteVariable_InlD:
  assumes "DeleteVariable sid key who d = (Inl e, d')"
  shows "e = ErrFault \<or> e = ErrForeignKey \<and> \<not> service_exists (tbl d) sid \<or>
     e = ErrNotFound \<and> find_variable (tbl d) sid key = None"
  using assms unfolding DeleteVariable_def
  by (cases rule: tx_InlE) (auto dest: delete_body_InlD)

lemma RollbackVariable_InlD:
  assumes "RollbackVariable sid key n who d = (Inl e, d')"
  shows "e = ErrFault \<or> e = ErrForeignKey \<and> \<not> service_exists (tbl d) sid \<or>
     e = ErrNotFound \<and> find (\<lambda>x. vv_version x = n) (key_history (tbl d) sid key) = None \<or>
     e = ErrRollbackToDelete \<and>
       (\<exists>old. find (\<lambda>x. vv_version x = n) (key_history (tbl d) sid key) = Some old \<and>
          vv_change old = ChangeDelete)"
  using assms unfolding RollbackVariable_def
proof (cases rule: tx_InlE)
  case fault
  then show ?thesis by simp
next
  case (body fs d2)
  from rollback_body_InlD [OF this] show ?thesis by simp
qed

section \<open>Without failures\<close>

lemma calm_commands [calm]:
  "calm (UpsertVariable sid k v who)" "calm (DeleteVariable sid k who)" "calm (RollbackVariable sid k n who)"
  unfolding UpsertVariable_def upsert_body_def DeleteVariable_def delete_body_def RollbackVariable_def
    rollback_body_def variable_existed_def nextVersion_def write_variable_def insertVersion_def Let_def
  by (intro calm; simp split: option.splits)+


end
