(* ===== verification/Store_History.thy ===== *)
theory Store_History
  imports Store_Variables
begin

text \<open>
  The invariant that ties the current variables to their version history, and the proof that
  the transactions of \<open>Store_Variables\<close> implement the commands on logs of \<open>Version_Log\<close>.
\<close>

section \<open>From tables to logs\<close>

definition to_entry :: "variable_version \<Rightarrow> entry" where
  "to_entry x = \<lparr>e_key = vv_key x, e_value = vv_value x, e_version = vv_version x,
     e_change = vv_change x, e_by = vv_by x\<rparr>"

definition service_log :: "tables \<Rightarrow> int \<Rightarrow> log" where
  "service_log t sid = map to_entry (filter (\<lambda>x. vv_service x = sid) (versions_tbl t))"

text \<open>The current configuration of a service, as its clients see it.\<close>

definition config_of :: "tables \<Rightarrow> int \<Rightarrow> string \<rightharpoonup> string" where
  "config_of t sid key = map_option v_value (find_variable t sid key)"

definition live_row :: "variable_version list \<Rightarrow> variable_version option" where
  "live_row h = (if h = [] \<or> vv_change (last h) = ChangeDelete then None else Some (last h))"

text \<open>
  The invariant: the versions of a key are 1, 2, 3, ... in the order of its history (as long
  as they fit \<open>int64\<close>); its change types form a path of the key machine; and the current row
  is the last history row, with the same value, version, author and time, unless that was a
  delete.
\<close>

definition log_inv :: "tables \<Rightarrow> bool" where
  "log_inv t \<longleftrightarrow> (\<forall>sid key.
     (int (length (key_history t sid key)) < 2 ^ 63 \<longrightarrow>
        map vv_version (key_history t sid key) = [1..int (length (key_history t sid key))]) \<and>
     key_path (map vv_change (key_history t sid key)) (find_variable t sid key \<noteq> None) \<and>
     map_option (\<lambda>v. (v_value v, v_version v, v_updated_by v, v_updated_at v))
        (find_variable t sid key) =
     map_option (\<lambda>x. (vv_value x, vv_version x, vv_by x, vv_at x))
        (live_row (key_history t sid key)))"

lemma log_invD:
  assumes "log_inv t"
  shows "int (length (key_history t sid key)) < 2 ^ 63 \<Longrightarrow>
      map vv_version (key_history t sid key) = [1..int (length (key_history t sid key))]"
    and "key_path (map vv_change (key_history t sid key)) (find_variable t sid key \<noteq> None)"
    and "map_option (\<lambda>v. (v_value v, v_version v, v_updated_by v, v_updated_at v))
        (find_variable t sid key) =
     map_option (\<lambda>x. (vv_value x, vv_version x, vv_by x, vv_at x))
        (live_row (key_history t sid key))"
  using assms unfolding log_inv_def by blast+

lemma to_entry_sel [simp]:
  "e_key (to_entry x) = vv_key x" "e_value (to_entry x) = vv_value x"
  "e_version (to_entry x) = vv_version x" "e_change (to_entry x) = vv_change x"
  "e_by (to_entry x) = vv_by x"
  by (simp_all add: to_entry_def)

lemma key_log_service: "key_log (service_log t sid) key = map to_entry (key_history t sid key)"
  by (simp add: key_log_def service_log_def key_history_def filter_map comp_def conj_commute)

lemma live_service: "live (service_log t sid) key = map_option to_entry (live_row (key_history t sid key))"
  by (cases "key_history t sid key = []")
    (simp_all add: live_def last_live_def key_log_service live_row_def last_map)

lemma live_service_find:
  assumes "log_inv t"
  shows "map_option e_value (live (service_log t sid) key) = map_option v_value (find_variable t sid key)"
    and "live (service_log t sid) key = None \<longleftrightarrow> find_variable t sid key = None"
proof -
  note * = log_invD(3) [OF assms, of sid key]
  then show "map_option e_value (live (service_log t sid) key) = map_option v_value (find_variable t sid key)"
    and "live (service_log t sid) key = None \<longleftrightarrow> find_variable t sid key = None"
    by (cases "find_variable t sid key"; cases "live_row (key_history t sid key)";
        simp add: live_service)+
qed

text \<open>The current configuration is the replay of the history.\<close>

lemma config_replay: "log_inv t \<Longrightarrow> config_of t sid = replay (service_log t sid)"
  by (simp add: fun_eq_iff config_of_def replay_live live_service_find(1))

lemma log_wf_service:
  assumes "log_inv t" and "log_room (service_log t sid)"
  shows "log_wf (service_log t sid)"
  unfolding log_wf_def
proof (intro allI conjI)
  fix key
  have "int (length (key_history t sid key)) < 2 ^ 63"
    using log_room_key [OF assms(2), of key] by (simp add: key_log_service)
  from log_invD(1) [OF assms(1) this]
  show "map e_version (key_log (service_log t sid) key) =
      [1..int (length (key_log (service_log t sid) key))]"
    by (simp add: key_log_service comp_def)
  from log_invD(2) [OF assms(1), of sid key] live_service_find(2) [OF assms(1), of sid key]
  show "key_path (map e_change (key_log (service_log t sid) key))
      (live (service_log t sid) key \<noteq> None)"
    by (simp add: key_log_service comp_def)
qed

section \<open>The number of the next version\<close>

lemma sql_max_upto: "sql_max [1..int n] = (if n = 0 then None else Some (int n))"
proof -
  have max: "fold max [a..b] c = (if a \<le> b then max b c else c)" for a b c :: int
  proof (induction a b arbitrary: c rule: upto.induct)
    case (1 a b)
    then show ?case by (cases "a \<le> b"; cases "a + 1 \<le> b") (auto simp: upto.simps [of a b])
  qed
  show ?thesis
  proof (cases "n = 0")
    case True
    then show ?thesis by (simp add: sql_max_def)
  next
    case False
    then have "[1..int n] = 1 # [2..int n]" by (simp add: upto_rec1)
    with False show ?thesis by (simp add: sql_max_def max)
  qed
qed

lemma next_version_number:
  assumes "log_inv t" and "int (length (key_history t sid key)) < 2 ^ 63 - 1"
  shows "int64 (max_version t sid key + 1) = int (length (key_history t sid key)) + 1"
proof -
  let ?n = "length (key_history t sid key)"
  from assms(2) have "int ?n < 2 ^ 63" by simp
  from log_invD(1) [OF assms(1) this] have "max_version t sid key = int ?n"
    by (simp add: max_version_def sql_max_upto)
  with assms(2) show ?thesis by (simp add: int64_small)
qed

section \<open>Writing keeps the invariant\<close>

lemma key_history_snoc:
  "key_history (t\<lparr>versions_tbl := versions_tbl t @ [x]\<rparr>) sid key =
     key_history t sid key @ (if vv_service x = sid \<and> vv_key x = key then [x] else [])"
  by (simp add: key_history_def)

lemma find_variable_put:
  assumes "is_var sid key v"
  shows "find (is_var sid' key') (put_row v (variables_tbl t)) =
     (if sid' = sid \<and> key' = key then Some v else find_variable t sid' key')"
proof (cases "find_variable t sid key")
  case None
  with assms show ?thesis
    by (auto simp: put_row_find [OF assms] find_append find_variable_def is_var_def
        split: option.splits)
next
  case (Some old)
  have key: "x = v \<or> x \<noteq> v" for x :: variable by blast
  have "find (is_var sid' key') (update_where (is_var sid key) (\<lambda>_. v) (variables_tbl t)) =
      map_option (\<lambda>x. if is_var sid key x then v else x) (find_variable t sid' key')"
    unfolding find_variable_def by (rule find_update_where) (use assms in \<open>auto simp: is_var_def\<close>)
  also have "\<dots> = (if sid' = sid \<and> key' = key then Some v else find_variable t sid' key')"
  proof (cases "find_variable t sid' key'")
    case None
    with Some show ?thesis by auto
  next
    case (Some x)
    then have "is_var sid' key' x" by (rule find_variable_is_var)
    with Some show ?thesis by (auto simp: is_var_def)
  qed
  finally show ?thesis using Some by (simp add: put_row_find [OF assms])
qed

lemma log_inv_append:
  assumes inv: "log_inv t"
    and hist: "\<And>s k. key_history t' s k =
      key_history t s k @ (if s = sid \<and> k = key then [x] else [])"
    and cur: "\<And>s k. find_variable t' s k =
      (if s = sid \<and> k = key then now_row else find_variable t s k)"
    and ver: "int (length (key_history t sid key)) < 2 ^ 63 - 1 \<Longrightarrow>
      vv_version x = int (length (key_history t sid key)) + 1"
    and step: "key_step (find_variable t sid key \<noteq> None) (vv_change x) (now_row \<noteq> None)"
    and row: "map_option (\<lambda>v. (v_value v, v_version v, v_updated_by v, v_updated_at v)) now_row =
      map_option (\<lambda>x. (vv_value x, vv_version x, vv_by x, vv_at x)) (live_row [x])"
  shows "log_inv t'"
  unfolding log_inv_def
proof (intro allI)
  fix s k
  show "(int (length (key_history t' s k)) < 2 ^ 63 \<longrightarrow>
        map vv_version (key_history t' s k) = [1..int (length (key_history t' s k))]) \<and>
     key_path (map vv_change (key_history t' s k)) (find_variable t' s k \<noteq> None) \<and>
     map_option (\<lambda>v. (v_value v, v_version v, v_updated_by v, v_updated_at v))
        (find_variable t' s k) =
     map_option (\<lambda>x. (vv_value x, vv_version x, vv_by x, vv_at x))
        (live_row (key_history t' s k))"
  proof (cases "s = sid \<and> k = key")
    case False
    have "key_history t' s k = key_history t s k" and "find_variable t' s k = find_variable t s k"
      unfolding hist [of s k] cur [of s k] if_not_P [OF False] by simp_all
    then show ?thesis using log_invD [OF inv, of s k] by simp
  next
    case True
    let ?n = "length (key_history t sid key)"
    have path: "key_path (map vv_change (key_history t sid key @ [x])) (now_row \<noteq> None)"
      using key_path.snoc [OF log_invD(2) [OF inv] step] by simp
    have nums: "map vv_version (key_history t sid key @ [x]) = [1..int ?n + 1]"
      if "int ?n + 1 < 2 ^ 63"
    proof -
      have "map vv_version (key_history t sid key) = [1..int ?n]"
        using that by (intro log_invD(1) [OF inv]) simp
      moreover have "vv_version x = int ?n + 1" using that by (intro ver) simp
      ultimately show ?thesis using upto_snoc [of "int ?n"] by simp
    qed
    have "live_row (key_history t sid key @ [x]) = live_row [x]" by (simp add: live_row_def)
    then show ?thesis using True path nums row by (simp add: hist cur add.commute)
  qed
qed

lemma wrote_log_inv:
  assumes inv: "log_inv t" and w: "wrote t s sid key val ct now who v t' s'"
    and step: "key_step (find_variable t sid key \<noteq> None) ct True"
  shows "log_inv t'"
proof (rule log_inv_append [OF inv, where now_row = "Some v"])
  let ?x = "version_row (s VersionsSeq) sid key val (v_version v) ct now who"
  from w have v: "is_var sid key v" "v_value v = val" "v_updated_at v = now" "v_updated_by v = who"
    and num: "v_version v = int64 (max_version t sid key + 1)"
    and t': "t' = t\<lparr>variables_tbl := put_row v (variables_tbl t),
        versions_tbl := versions_tbl t @ [?x]\<rparr>"
    by (simp_all add: wrote_def)
  show "key_history t' a b = key_history t a b @ (if a = sid \<and> b = key then [?x] else [])" for a b
    by (auto simp: t' key_history_def version_row_def)
  show "find_variable t' a b = (if a = sid \<and> b = key then Some v else find_variable t a b)" for a b
    using find_variable_put [OF v(1)] by (simp add: t' find_variable_def)
  show "vv_version ?x = int (length (key_history t sid key)) + 1"
    if "int (length (key_history t sid key)) < 2 ^ 63 - 1"
    using next_version_number [OF inv that] num by (simp add: version_row_def)
  show "key_step (find_variable t sid key \<noteq> None) (vv_change ?x) (Some v \<noteq> None)"
    using step by (simp add: version_row_def)
  have "ct \<noteq> ChangeDelete" using step by (auto simp: key_step_simps)
  then show "map_option (\<lambda>v. (v_value v, v_version v, v_updated_by v, v_updated_at v)) (Some v) =
      map_option (\<lambda>x. (vv_value x, vv_version x, vv_by x, vv_at x)) (live_row [?x])"
    using v by (simp add: live_row_def version_row_def)
qed

lemma find_variable_removed:
  "find (is_var s k) (filter (\<lambda>v. \<not> is_var sid key v) (variables_tbl t)) =
     (if s = sid \<and> k = key then None else find_variable t s k)"
proof (cases "s = sid \<and> k = key")
  case True
  then show ?thesis by (auto simp: find_filter find_eq_None)
next
  case False
  then show ?thesis unfolding find_filter find_variable_def
    by (intro find_cong_pred [THEN trans [OF _ if_not_P [symmetric]]]) (auto simp: is_var_def)
qed

lemma removed_log_inv:
  assumes inv: "log_inv t" and w: "removed t s sid key old now who ver t' s'"
  shows "log_inv t'"
proof (rule log_inv_append [OF inv, where now_row = None])
  let ?x = "version_row (s VersionsSeq) sid key (v_value old) ver ChangeDelete now who"
  from w have old: "find_variable t sid key = Some old"
    and num: "ver = int64 (max_version t sid key + 1)"
    and t': "t' = t\<lparr>variables_tbl := filter (\<lambda>v. \<not> is_var sid key v) (variables_tbl t),
        versions_tbl := versions_tbl t @ [?x]\<rparr>"
    by (simp_all add: removed_def)
  show "key_history t' a b = key_history t a b @ (if a = sid \<and> b = key then [?x] else [])" for a b
    by (auto simp: t' key_history_def version_row_def)
  show "find_variable t' a b = (if a = sid \<and> b = key then None else find_variable t a b)" for a b
    using find_variable_removed [of a b sid key t] by (simp add: t' find_variable_def)
  show "vv_version ?x = int (length (key_history t sid key)) + 1"
    if "int (length (key_history t sid key)) < 2 ^ 63 - 1"
    using next_version_number [OF inv that] num by (simp add: version_row_def)
  show "key_step (find_variable t sid key \<noteq> None) (vv_change ?x) (None \<noteq> (None :: variable option))"
    using old by (simp add: version_row_def key_step_simps)
qed (simp add: live_row_def version_row_def)

section \<open>The transactions keep the invariant\<close>

lemma grows_write_variable [pres]: "preserves (\<lambda>_ _. True) (write_variable sid key val ver who)"
  unfolding write_variable_def
  by (rule preserves_stmt) (auto simp: Let_def seq_grow split: option.splits if_splits)

lemma grows_insertVersion [pres]: "preserves (\<lambda>_ _. True) (insertVersion sid key val ver ct who)"
  unfolding insertVersion_def
  by (rule preserves_stmt) (auto simp: Let_def seq_grow split: if_splits)

lemma grows_upsert_body [pres]: "preserves (\<lambda>_ _. True) (upsert_body sid key val who)"
  unfolding upsert_body_def nextVersion_def variable_existed_def Let_def by (intro pres)

lemma grows_rollback_body [pres]: "preserves (\<lambda>_ _. True) (rollback_body sid key n who)"
  unfolding rollback_body_def nextVersion_def by (intro pres)

lemma grows_delete_body [pres]: "preserves (\<lambda>_ _. True) (delete_body sid key who)"
  unfolding delete_body_def nextVersion_def
  by (intro pres preserves_stmt) auto

lemma grows_bulk_loop [pres]: "preserves (\<lambda>_ _. True) (bulk_loop sid kv who out)"
  by (induction sid kv who out rule: bulk_loop.induct)
    (simp_all only: bulk_loop.simps preserves_ret preserves_bind grows_upsert_body)

lemma upsert_step: "key_step b (if b then ChangeUpdate else ChangeCreate) True"
  by (cases b) (auto intro: key_step.intros)

lemma upsert_body_log_inv:
  assumes "log_inv (tbl d)" and run: "upsert_body sid key val who d = (Inr ch, d')"
  shows "log_inv (tbl d')"
proof -
  note w = upsert_body_wrote [OF run]
  show ?thesis
    using wrote_log_inv [OF assms(1)] w
      upsert_step [of "find_variable (tbl d) sid key \<noteq> None"]
    by (cases "find_variable (tbl d) sid key") auto
qed

lemma rollback_body_log_inv:
  assumes "log_inv (tbl d)" and run: "rollback_body sid key n who d = (Inr ch, d')"
  shows "log_inv (tbl d')"
  using rollback_body_wrote [OF run] wrote_log_inv [OF assms(1) _ key_step.rollback] by blast

lemma delete_body_log_inv:
  assumes "log_inv (tbl d)" and run: "delete_body sid key who d = (Inr ch, d')"
  shows "log_inv (tbl d')"
  using delete_body_removed [OF run] removed_log_inv [OF assms(1)] by blast

lemma bulk_loop_log_inv:
  "log_inv (tbl d) \<Longrightarrow> bulk_loop sid kv who out d = (Inr chs, d') \<Longrightarrow> log_inv (tbl d')"
  by (induction sid kv who out arbitrary: d rule: bulk_loop.induct)
    (auto elim!: bind_InrE dest: upsert_body_log_inv)

lemma log_inv_mono: "seq_mono (\<lambda>t _. log_inv t)"
  by (simp add: seq_mono_def)

lemma preserves_UpsertVariable_log [pres]: "preserves (\<lambda>t _. log_inv t) (UpsertVariable sid key val who)"
  and preserves_BulkUpsert_log [pres]: "preserves (\<lambda>t _. log_inv t) (BulkUpsertVariables sid kv who)"
  and preserves_DeleteVariable_log [pres]: "preserves (\<lambda>t _. log_inv t) (DeleteVariable sid key who)"
  and preserves_RollbackVariable_log [pres]: "preserves (\<lambda>t _. log_inv t) (RollbackVariable sid key n who)"
  unfolding UpsertVariable_def BulkUpsertVariables_def DeleteVariable_def RollbackVariable_def
  by (intro preserves_tx_whole log_inv_mono pres;
      auto dest: upsert_body_log_inv bulk_loop_log_inv delete_body_log_inv rollback_body_log_inv)+

text \<open>Deleting a service empties its history together with its variables.\<close>

lemma key_history_cascade [simp]:
  "key_history (cascade_service sid t) s k = (if s = sid then [] else key_history t s k)"
  by (auto simp: key_history_def cascade_service_def intro!: filter_cong)

lemma find_variable_cascade [simp]:
  "find_variable (cascade_service sid t) s k = (if s = sid then None else find_variable t s k)"
  by (auto simp: find_variable_def cascade_service_def find_filter find_eq_None is_var_def
      intro!: find_cong_pred)

lemma log_inv_cascade: "log_inv t \<Longrightarrow> log_inv (cascade_service sid t)"
  unfolding log_inv_def [of "cascade_service sid t"] key_history_cascade find_variable_cascade
proof (intro allI, goal_cases)
  case (1 s k)
  then show ?case using log_invD [of t s k] by (cases "s = sid") (simp_all add: live_row_def key_path.nil)
qed

lemma log_inv_cong:
  "log_inv t \<Longrightarrow> variables_tbl t' = variables_tbl t \<Longrightarrow> versions_tbl t' = versions_tbl t \<Longrightarrow>
     log_inv t'"
  by (simp add: log_inv_def key_history_def find_variable_def)

lemma log_inv_services [simp]: "log_inv (t\<lparr>services_tbl := x\<rparr>) = log_inv t"
  by (simp add: log_inv_def key_history_def find_variable_def)

lemma preserves_DeleteService_log [pres]: "preserves (\<lambda>t _. log_inv t) (DeleteService sid)"
  by (rule preservesI, erule DeleteService_cases) (simp_all add: log_inv_cascade)

lemma preserves_CreateService_log [pres]: "preserves (\<lambda>t _. log_inv t) (CreateService key name desc who)"
  unfolding CreateService_def
  by (rule preserves_stmt) (auto simp: Let_def seq_grow split: if_splits)

lemma preserves_UpdateServiceTags_log [pres]: "preserves (\<lambda>t _. log_inv t) (UpdateServiceTags sid tags)"
  by (rule preservesI, erule UpdateServiceTags_cases) simp_all

lemma log_inv_empty: "log_inv empty_tables"
  by (simp add: log_inv_def empty_tables_def key_history_def find_variable_def live_row_def key_path.nil)

section \<open>The transactions implement the log commands\<close>

lemma find_version_service:
  assumes "log_inv t" and "log_room (service_log t sid)"
  shows "map_option to_entry (find (\<lambda>x. vv_version x = n) (key_history t sid key)) =
     log_entry (service_log t sid) key n"
  using find_version [OF log_wf_service [OF assms], of n key]
  by (simp add: key_log_service find_map comp_def)

lemma next_number_service:
  assumes "log_inv t" and "log_room (service_log t sid)"
  shows "int64 (max_version t sid key + 1) = next_number (service_log t sid) key"
proof -
  have "int (length (key_history t sid key)) < 2 ^ 63 - 1"
    using log_room_key [OF assms(2), of key] by (simp add: key_log_service)
  from next_version_number [OF assms(1) this] show ?thesis
    by (simp add: next_number_def key_log_service)
qed

lemma service_log_snoc:
  "versions_tbl t' = versions_tbl t @ [x] \<Longrightarrow>
     service_log t' s = service_log t s @ (if vv_service x = s then [to_entry x] else [])"
  by (simp add: service_log_def)

lemma wrote_service_log:
  assumes "wrote t s sid key val ct now who v t' s'"
  shows "service_log t' a = service_log t a @ (if a = sid then
     [\<lparr>e_key = key, e_value = val, e_version = int64 (max_version t sid key + 1),
       e_change = ct, e_by = who\<rparr>] else [])"
  using assms service_log_snoc [of t' t "version_row (s VersionsSeq) sid key val (v_version v) ct now who" a]
  by (auto simp: wrote_def version_row_def to_entry_def)

lemma removed_service_log:
  assumes "removed t s sid key old now who ver t' s'"
  shows "service_log t' a = service_log t a @ (if a = sid then
     [\<lparr>e_key = key, e_value = v_value old, e_version = int64 (max_version t sid key + 1),
       e_change = ChangeDelete, e_by = who\<rparr>] else [])"
  using assms
    service_log_snoc [of t' t "version_row (s VersionsSeq) sid key (v_value old) ver ChangeDelete now who" a]
  by (auto simp: removed_def version_row_def to_entry_def)

lemma upsert_body_refines:
  assumes inv: "log_inv (tbl d)" and room: "log_room (service_log (tbl d) sid)"
    and run: "upsert_body sid key val who d = (Inr ch, d')"
  shows "service_log (tbl d') sid = log_put key val who (service_log (tbl d) sid)"
  using upsert_body_wrote [OF run] wrote_service_log [of "tbl d" _ sid key val _ _ who _ "tbl d'" _ sid]
  by (auto simp: log_put_def next_number_service [OF inv room] live_service_find(2) [OF inv])

lemma upsert_body_others:
  "upsert_body sid key val who d = (Inr ch, d') \<Longrightarrow> a \<noteq> sid \<Longrightarrow>
     service_log (tbl d') a = service_log (tbl d) a"
  using upsert_body_wrote wrote_service_log by fastforce

lemma live_SomeE:
  assumes "log_inv t" and "find_variable t sid key = Some v"
  obtains e where "live (service_log t sid) key = Some e" and "e_value e = v_value v"
  using live_service_find [OF assms(1), of sid key] assms(2)
  by (cases "live (service_log t sid) key") auto

lemma UpsertVariable_refines:
  assumes inv: "log_inv (tbl d)" and room: "log_room (service_log (tbl d) sid)"
    and run: "UpsertVariable sid key val who d = (Inr ch, d')"
  shows "service_log (tbl d') sid = log_put key val who (service_log (tbl d) sid)"
  using UpsertVariable_wrote [OF run] wrote_service_log [of "tbl d" _ sid key val _ _ who _ "tbl d'" _ sid]
  by (auto simp: log_put_def next_number_service [OF inv room] live_service_find(2) [OF inv])

lemma DeleteVariable_refines:
  assumes inv: "log_inv (tbl d)" and room: "log_room (service_log (tbl d) sid)"
    and run: "DeleteVariable sid key who d = (Inr ch, d')"
  shows "log_delete key who (service_log (tbl d) sid) = Inr (service_log (tbl d') sid)"
proof -
  from DeleteVariable_removed [OF run] obtain old where
    w: "removed (tbl d) (seqs d) sid key old (clock d) who (v_version (ch_variable ch)) (tbl d') (seqs d')"
    by blast
  then have "find_variable (tbl d) sid key = Some old" by (simp add: removed_def)
  then obtain e where "live (service_log (tbl d) sid) key = Some e" "e_value e = v_value old"
    by (rule live_SomeE [OF inv])
  with removed_service_log [OF w, of sid] show ?thesis
    by (simp add: log_delete_def next_number_service [OF inv room])
qed

lemma RollbackVariable_refines:
  assumes inv: "log_inv (tbl d)" and room: "log_room (service_log (tbl d) sid)"
    and run: "RollbackVariable sid key n who d = (Inr ch, d')"
  shows "log_rollback key n who (service_log (tbl d) sid) = Inr (service_log (tbl d') sid)"
proof -
  from RollbackVariable_wrote [OF run] obtain old where
    old: "find (\<lambda>x. vv_version x = n) (key_history (tbl d) sid key) = Some old"
      "vv_change old \<noteq> ChangeDelete"
    and w: "wrote (tbl d) (seqs d) sid key (vv_value old) ChangeRollback (clock d) who
        (ch_variable ch) (tbl d') (seqs d')" by blast
  from find_version_service [OF inv room, of n key] old(1)
  have "log_entry (service_log (tbl d) sid) key n = Some (to_entry old)" by simp
  with old(2) wrote_service_log [OF w, of sid] show ?thesis
    by (simp add: log_rollback_def next_number_service [OF inv room])
qed

text \<open>A command on the log of one service, executed by the store.\<close>

fun exec_cmd :: "int \<Rightarrow> log_cmd \<Rightarrow> db \<Rightarrow> (store_error + var_change) \<times> db" where
  "exec_cmd sid (Put k v who) d = UpsertVariable sid k v who d"
| "exec_cmd sid (Remove k who) d = DeleteVariable sid k who d"
| "exec_cmd sid (Rollback k n who) d = RollbackVariable sid k n who d"

definition exec_state :: "int \<Rightarrow> log_cmd \<Rightarrow> db \<Rightarrow> store_error + db" where
  "exec_state sid c d = (case exec_cmd sid c d of (Inl e, _) \<Rightarrow> Inl e | (Inr _, d') \<Rightarrow> Inr d')"

lemma exec_state_InrE:
  assumes "exec_state sid c d = Inr d'"
  obtains ch where "exec_cmd sid c d = (Inr ch, d')"
  using assms by (auto simp: exec_state_def split: prod.splits sum.splits)

lemma exec_state_InlE:
  assumes "exec_state sid c d = Inl e"
  obtains d' where "exec_cmd sid c d = (Inl e, d')"
  using assms by (auto simp: exec_state_def split: prod.splits sum.splits)

lemma exec_cmd_refines:
  assumes "log_inv (tbl d)" and "log_room (service_log (tbl d) sid)"
    and "exec_cmd sid c d = (Inr ch, d')"
  shows "log_step c (service_log (tbl d) sid) = Inr (service_log (tbl d') sid)"
  using assms by (cases c) (simp_all add: UpsertVariable_refines DeleteVariable_refines RollbackVariable_refines)

lemma exec_cmd_error:
  assumes inv: "log_inv (tbl d)" and room: "log_room (service_log (tbl d) sid)"
    and run: "exec_cmd sid c d = (Inl e, d')"
  shows "e = ErrFault \<or> e = ErrForeignKey \<and> \<not> service_exists (tbl d) sid \<or>
     log_step c (service_log (tbl d) sid) = Inl e"
proof (cases c)
  case (Put k v who)
  with run show ?thesis by (auto dest: UpsertVariable_InlD)
next
  case (Remove k who)
  with run have "DeleteVariable sid k who d = (Inl e, d')" by simp
  from DeleteVariable_InlD [OF this] Remove show ?thesis
    using live_service_find(2) [OF inv, of sid k] by (auto simp: log_delete_def)
next
  case (Rollback k n who)
  with run have "RollbackVariable sid k n who d = (Inl e, d')" by simp
  from RollbackVariable_InlD [OF this] Rollback show ?thesis
    by (auto simp: log_rollback_def find_version_service [OF inv room, of n k, symmetric])
qed

lemma exec_cmd_inv:
  assumes "log_inv (tbl d)" and "exec_cmd sid c d = (r, d')"
  shows "log_inv (tbl d')"
  using assms
  by (cases c) (auto dest: preservesD [OF preserves_UpsertVariable_log]
      preservesD [OF preserves_DeleteVariable_log] preservesD [OF preserves_RollbackVariable_log])

interpretation vs: versioned_store "\<lambda>d. service_log (tbl d) sid" "exec_state sid"
    "\<lambda>d. config_of (tbl d) sid" "\<lambda>d. log_inv (tbl d)" for sid :: int
proof (unfold_locales, goal_cases)
  case (1 d c d')
  then show ?case by (auto elim!: exec_state_InrE dest: exec_cmd_refines)
next
  case (2 d c e)
  then show ?case by (auto elim!: exec_state_InlE dest: exec_cmd_error)
next
  case (3 d c d')
  then show ?case by (auto elim!: exec_state_InrE dest: exec_cmd_inv)
next
  case (4 d)
  then show ?case by (rule config_replay)
qed

section \<open>The bulk transaction\<close>

definition put_all :: "string \<Rightarrow> (string \<times> string) list \<Rightarrow> log \<Rightarrow> log" where
  "put_all who kv L = fold (\<lambda>(k, v). log_put k v who) kv L"

lemma put_all_simps [simp]:
  "put_all who [] L = L" "put_all who ((k, v) # kv) L = put_all who kv (log_put k v who L)"
  by (simp_all add: put_all_def)

lemma length_log_put [simp]: "length (log_put k v who L) = length L + 1"
  by (simp add: log_put_def)

lemma length_put_all [simp]: "length (put_all who kv L) = length L + length kv"
  by (induction kv arbitrary: L) auto

lemma replay_put [simp]: "replay (log_put k v who L) = (replay L)(k \<mapsto> v)"
  by (simp add: log_put_def)

lemma replay_put_all:
  "distinct (map fst kv) \<Longrightarrow> replay (put_all who kv L) = replay L ++ map_of kv"
proof (induction kv arbitrary: L)
  case Nil
  then show ?case by simp
next
  case (Cons kv1 kv)
  obtain k v where kv1: "kv1 = (k, v)" by fastforce
  with Cons have "map_of kv k = None" by (simp add: map_of_eq_None_iff)
  with Cons kv1 show ?case by (auto simp: fun_eq_iff map_add_def split: option.splits)
qed

lemma bulk_loop_refines:
  assumes "log_inv (tbl d)" and "int (length (service_log (tbl d) sid) + length kv) < 2 ^ 63"
    and "bulk_loop sid kv who out d = (Inr chs, d')"
  shows "service_log (tbl d') sid = put_all who kv (service_log (tbl d) sid) \<and>
     length chs = length out + length kv"
  using assms
proof (induction sid kv who out arbitrary: d rule: bulk_loop.induct)
  case (1 sid who out)
  then show ?case by simp
next
  case (2 sid key val kv who out)
  from "2.prems"(3) obtain ch d1 where one: "upsert_body sid key val who d = (Inr ch, d1)"
    and rest: "bulk_loop sid kv who (out @ [ch]) d1 = (Inr chs, d')"
    by (auto elim: bind_InrE)
  have "log_room (service_log (tbl d) sid)" using "2.prems"(2) by (simp add: log_room_def)
  from upsert_body_refines [OF "2.prems"(1) this one]
  have L: "service_log (tbl d1) sid = log_put key val who (service_log (tbl d) sid)" .
  from "2.IH" [OF upsert_body_log_inv [OF "2.prems"(1) one] _ rest] "2.prems"(2) L
  show ?case by simp
qed

lemma bulk_loop_others:
  "bulk_loop sid kv who out d = (Inr chs, d') \<Longrightarrow> a \<noteq> sid \<Longrightarrow>
     service_log (tbl d') a = service_log (tbl d) a"
  by (induction sid kv who out arbitrary: d rule: bulk_loop.induct)
    (auto elim!: bind_InrE dest: upsert_body_others)

lemma BulkUpsertVariables_refines:
  assumes "log_inv (tbl d)" and "int (length (service_log (tbl d) sid) + length kv) < 2 ^ 63"
    and run: "BulkUpsertVariables sid kv who d = (Inr chs, d')"
  shows "service_log (tbl d') sid = put_all who kv (service_log (tbl d) sid) \<and>
     length chs = length kv"
proof -
  from run obtain fs d2 fs' where "bulk_loop sid kv who [] (d\<lparr>faults := fs\<rparr>) = (Inr chs, d2)"
    and "d' = d2\<lparr>faults := fs'\<rparr>" unfolding BulkUpsertVariables_def by (rule tx_InrE)
  with bulk_loop_refines [OF _ _ this(1)] assms(1,2) show ?thesis by simp
qed

end
