(* ===== verification/Store_Users.thy ===== *)
theory Store_Users
  imports Store_Services
begin

text \<open>
  \<open>internal/store\<close>: \<open>users.go\<close>, \<open>permissions.go\<close>, \<open>favorites.go\<close>, \<open>tokens.go\<close> and
  \<open>settings.go\<close>. Each operation is followed by the lemma that lists its outcomes.
\<close>

section \<open>Users\<close>

definition find_user :: "tables \<Rightarrow> int \<Rightarrow> user option" where
  "find_user t uid = find (\<lambda>u. u_id u = uid) (users_tbl t)"

definition user_exists :: "tables \<Rightarrow> int \<Rightarrow> bool" where
  "user_exists t uid \<longleftrightarrow> find_user t uid \<noteq> None"

lemma user_exists_iff: "user_exists t uid \<longleftrightarrow> uid \<in> u_id ` set (users_tbl t)"
  by (auto simp: user_exists_def find_user_def find_eq_None)

text \<open>The role that a login asks for, and the CASE expression of the conflict branch.\<close>

definition login_role :: "string \<Rightarrow> string \<Rightarrow> string" where
  "login_role email bootstrapAdmin =
     (if bootstrapAdmin \<noteq> '''' \<and> email = bootstrapAdmin then RoleAdmin else RoleUser)"

definition merge_role :: "string \<Rightarrow> string \<Rightarrow> string" where
  "merge_role old new = (if old = RoleAdmin \<or> new = RoleAdmin then RoleAdmin else old)"

definition UpsertUserOnLogin :: "string \<Rightarrow> string \<Rightarrow> string \<Rightarrow> string \<Rightarrow> user dbm" where
  "UpsertUserOnLogin subject email name bootstrapAdmin = stmt (\<lambda>d0.
     let d = nextval UsersSeq d0;
         role = login_role email bootstrapAdmin
     in case find (\<lambda>u. u_subject u = subject) (users_tbl (tbl d)) of
          Some old \<Rightarrow>
            (let new = old\<lparr>u_email := email, u_name := name, u_role := merge_role (u_role old) role\<rparr>
             in if \<exists>u \<in> set (users_tbl (tbl d)). u_email u = email \<and> u_subject u \<noteq> subject
                then (Inl ErrUnique, d)
                else (Inr new, with_tbl (\<lambda>t. t\<lparr>users_tbl :=
                       update_where (\<lambda>u. u_subject u = subject) (\<lambda>_. new) (users_tbl t)\<rparr>) d))
        | None \<Rightarrow>
            (let new = \<lparr>u_id = seqs d0 UsersSeq, u_subject = subject, u_email = email,
                        u_name = name, u_role = role, u_created = clock d\<rparr>
             in if \<exists>u \<in> set (users_tbl (tbl d)). u_email u = email
                then (Inl ErrUnique, d)
                else (Inr new, with_tbl (\<lambda>t. t\<lparr>users_tbl := users_tbl t @ [new]\<rparr>) d)))"

definition GetUser :: "int \<Rightarrow> user dbm" where
  "GetUser uid = bind (select (\<lambda>d. find_user (tbl d) uid)) or_not_found"

definition GetUserByEmail :: "string \<Rightarrow> user dbm" where
  "GetUserByEmail email =
     bind (select (\<lambda>d. find (\<lambda>u. u_email u = email) (users_tbl (tbl d)))) or_not_found"

definition ListUsers :: "user list dbm" where
  "ListUsers = select (\<lambda>d. sort_by (\<lambda>a b. collate d (u_email a) (u_email b)) (users_tbl (tbl d)))"

text \<open>The CHECK constraint on \<open>role\<close> applies to the rows that the UPDATE touches.\<close>

definition role_ok :: "string \<Rightarrow> bool" where
  "role_ok r \<longleftrightarrow> r = RoleAdmin \<or> r = RoleUser"

definition SetUserRole :: "int \<Rightarrow> string \<Rightarrow> unit dbm" where
  "SetUserRole uid role =
     bind (stmt (\<lambda>d. let n = length (filter (\<lambda>u. u_id u = uid) (users_tbl (tbl d)))
        in if n \<noteq> 0 \<and> \<not> role_ok role then (Inl ErrCheck, d)
           else (Inr n, with_tbl (\<lambda>t. t\<lparr>users_tbl :=
             update_where (\<lambda>u. u_id u = uid) (\<lambda>u. u\<lparr>u_role := role\<rparr>) (users_tbl t)\<rparr>) d)))
      (\<lambda>n. if n = 0 then throw ErrNotFound else ret ())"

definition users_inv :: tinv where
  "users_inv t s \<longleftrightarrow> distinct (map u_id (users_tbl t)) \<and> distinct (map u_subject (users_tbl t)) \<and>
     distinct (map u_email (users_tbl t)) \<and> 1 \<le> s UsersSeq \<and>
     (\<forall>u \<in> set (users_tbl t). 1 \<le> u_id u \<and> u_id u < s UsersSeq \<and> role_ok (u_role u))"

lemma users_inv_mono: "seq_mono users_inv"
  by (fastforce simp: seq_mono_def users_inv_def le_fun_def intro: order_less_le_trans order_trans)

lemma role_ok_simps [simp]: "role_ok RoleAdmin" "role_ok RoleUser"
  by (simp_all add: role_ok_def)

lemma role_ok_login [simp]: "role_ok (login_role email b)"
  by (simp add: login_role_def)

lemma role_ok_merge [simp]: "role_ok r \<Longrightarrow> role_ok (merge_role r r')"
  by (auto simp: merge_role_def)

lemma UpsertUserOnLogin_cases:
  assumes "UpsertUserOnLogin subject email name b d = (r, d')"
  obtains (failed) e where "r = Inl e" and "e = ErrFault \<or> e = ErrUnique"
      and "tbl d' = tbl d" and "seqs d \<le> seqs d'"
  | (updated) old new where "r = Inr new"
      and "find (\<lambda>u. u_subject u = subject) (users_tbl (tbl d)) = Some old"
      and "new = old\<lparr>u_email := email, u_name := name,
             u_role := merge_role (u_role old) (login_role email b)\<rparr>"
      and "\<forall>u \<in> set (users_tbl (tbl d)). u_email u = email \<longrightarrow> u_subject u = subject"
      and "tbl d' = (tbl d)\<lparr>users_tbl :=
             update_where (\<lambda>u. u_subject u = subject) (\<lambda>_. new) (users_tbl (tbl d))\<rparr>"
      and "seqs d' = (seqs d)(UsersSeq := seqs d UsersSeq + 1)"
  | (created) new where "r = Inr new"
      and "find (\<lambda>u. u_subject u = subject) (users_tbl (tbl d)) = None"
      and "u_id new = seqs d UsersSeq" and "u_subject new = subject" and "u_email new = email"
      and "u_role new = login_role email b"
      and "\<forall>u \<in> set (users_tbl (tbl d)). u_email u \<noteq> email"
      and "tbl d' = (tbl d)\<lparr>users_tbl := users_tbl (tbl d) @ [new]\<rparr>"
      and "seqs d' = (seqs d)(UsersSeq := seqs d UsersSeq + 1)"
  using assms unfolding UpsertUserOnLogin_def
proof (cases rule: stmt_cases)
  case (fault fs)
  with failed show ?thesis by simp
next
  case (ran fs)
  show ?thesis
  proof (cases "find (\<lambda>u. u_subject u = subject) (users_tbl (tbl d))")
    case None
    with ran show ?thesis
      using failed created by (auto simp: Let_def seq_grow split: if_splits)
  next
    case (Some old)
    with ran show ?thesis
      using failed updated by (auto simp: Let_def seq_grow split: if_splits)
  qed
qed

lemma SetUserRole_cases:
  assumes "SetUserRole uid role d = (r, d')"
  obtains (failed) e where "r = Inl e" and "tbl d' = tbl d" and "seqs d' = seqs d"
      and "e = ErrFault \<or> e = ErrCheck \<and> \<not> role_ok role \<or> e = ErrNotFound \<and> \<not> user_exists (tbl d) uid"
  | (updated) "r = Inr ()" and "role_ok role" and "user_exists (tbl d) uid" and "seqs d' = seqs d"
      and "tbl d' = (tbl d)\<lparr>users_tbl :=
        update_where (\<lambda>u. u_id u = uid) (\<lambda>u. u\<lparr>u_role := role\<rparr>) (users_tbl (tbl d))\<rparr>"
proof (cases "user_exists (tbl d) uid")
  case True
  then have ne: "filter (\<lambda>u. u_id u = uid) (users_tbl (tbl d)) \<noteq> []"
    by (auto simp: user_exists_iff filter_empty_conv)
  from assms show ?thesis unfolding SetUserRole_def
    using True ne failed updated
    by (auto simp: Let_def elim!: bind_cases stmt_cases split: if_splits)
next
  case False
  then have none: "filter (\<lambda>u. u_id u = uid) (users_tbl (tbl d)) = []"
    by (auto simp: user_exists_iff filter_empty_conv)
  then have idle: "update_where (\<lambda>u. u_id u = uid) f (users_tbl (tbl d)) = users_tbl (tbl d)" for f
    by (intro update_where_idle) (auto simp: filter_empty_conv)
  from assms show ?thesis unfolding SetUserRole_def
    using False none failed
    by (auto simp: Let_def idle elim!: bind_cases stmt_cases split: if_splits)
qed

lemma preserves_UpsertUserOnLogin_users [pres]:
  "preserves users_inv (UpsertUserOnLogin subject email name b)"
proof (rule preservesI)
  fix d r d'
  assume inv: "users_inv (tbl d) (seqs d)" and "UpsertUserOnLogin subject email name b d = (r, d')"
  from this(2) show "users_inv (tbl d') (seqs d') \<and> seqs d \<le> seqs d'"
  proof (cases rule: UpsertUserOnLogin_cases)
    case (failed e)
    with inv users_inv_mono show ?thesis by (auto simp: seq_mono_def)
  next
    case (updated old new)
    have old: "old \<in> set (users_tbl (tbl d))" "u_subject old = subject"
      using find_SomeD [OF updated(2)] by auto
    have only: "x = old" if "x \<in> set (users_tbl (tbl d))" "u_subject x = subject" for x
      using inv old that by (auto simp: users_inv_def distinct_map inj_on_def)
    let ?U = "users_tbl (tbl d)"
    let ?V = "update_where (\<lambda>u. u_subject u = subject) (\<lambda>_. new) ?U"
    have "map u_id ?V = map u_id ?U" and "map u_subject ?V = map u_subject ?U"
      using only old(2) updated(3) by (auto simp: update_where_def)
    moreover have "distinct (map u_email ?V)"
    proof (rule distinct_update_where)
      show "distinct (map u_email ?U)" using inv by (simp add: users_inv_def)
    qed (use only updated(3,4) in auto)
    moreover have "\<forall>u \<in> set ?V. 1 \<le> u_id u \<and> u_id u < seqs d UsersSeq + 1 \<and> role_ok (u_role u)"
      using inv old updated(3) by (auto simp: users_inv_def in_set_update_where less_imp_le
          intro: less_trans [OF _ zless_add1_eq [THEN iffD2]])
    ultimately show ?thesis using inv updated(5,6) by (simp add: users_inv_def seq_grow)
  next
    case (created new)
    then show ?thesis using inv
      by (fastforce simp: users_inv_def find_eq_None seq_grow)
  qed
qed

lemma preserves_SetUserRole_users [pres]: "preserves users_inv (SetUserRole uid role)"
  by (rule preservesI, erule SetUserRole_cases) (auto simp: users_inv_def in_set_update_where)

section \<open>Permissions\<close>

definition GetPermissionLevel :: "int \<Rightarrow> int \<Rightarrow> string dbm" where
  "GetPermissionLevel uid sid =
     bind (select (\<lambda>d. map_option p_level
        (find (\<lambda>p. p_user p = uid \<and> p_service p = sid) (perms_tbl (tbl d))))) or_not_found"

definition level_ok :: "string \<Rightarrow> bool" where
  "level_ok l \<longleftrightarrow> l = LevelViewer \<or> l = LevelEditor"

definition SetPermission :: "int \<Rightarrow> int \<Rightarrow> string \<Rightarrow> unit dbm" where
  "SetPermission uid sid level = stmt (\<lambda>d0.
     let d = nextval PermsSeq d0;
         row = \<lparr>p_id = seqs d0 PermsSeq, p_user = uid, p_service = sid, p_level = level\<rparr>
     in if \<not> level_ok level then (Inl ErrCheck, d)
        else if \<exists>p \<in> set (perms_tbl (tbl d)). p_user p = uid \<and> p_service p = sid
        then (Inr (), with_tbl (\<lambda>t. t\<lparr>perms_tbl :=
               update_where (\<lambda>p. p_user p = uid \<and> p_service p = sid)
                 (\<lambda>p. p\<lparr>p_level := level\<rparr>) (perms_tbl t)\<rparr>) d)
        else if user_exists (tbl d) uid \<and> service_exists (tbl d) sid
        then (Inr (), with_tbl (\<lambda>t. t\<lparr>perms_tbl := perms_tbl t @ [row]\<rparr>) d)
        else (Inl ErrForeignKey, d))"

definition RevokePermission :: "int \<Rightarrow> int \<Rightarrow> unit dbm" where
  "RevokePermission uid sid = stmt (\<lambda>d. (Inr (), with_tbl (\<lambda>t. t\<lparr>perms_tbl :=
     filter (\<lambda>p. \<not> (p_user p = uid \<and> p_service p = sid)) (perms_tbl t)\<rparr>) d))"

record permission_with_user =
  pu_user :: int
  pu_email :: string
  pu_name :: string
  pu_level :: string

definition ListServicePermissions :: "int \<Rightarrow> permission_with_user list dbm" where
  "ListServicePermissions sid = select (\<lambda>d.
     sort_by (\<lambda>a b. collate d (pu_email a) (pu_email b))
       (concat (map (\<lambda>p. map (\<lambda>u. \<lparr>pu_user = u_id u, pu_email = u_email u, pu_name = u_name u,
            pu_level = p_level p\<rparr>) (filter (\<lambda>u. u_id u = p_user p) (users_tbl (tbl d))))
          (filter (\<lambda>p. p_service p = sid) (perms_tbl (tbl d))))))"

text \<open>The level of a user on a service in the tables.\<close>

definition level_of :: "tables \<Rightarrow> int \<Rightarrow> int \<Rightarrow> string option" where
  "level_of t uid sid =
     map_option p_level (find (\<lambda>p. p_user p = uid \<and> p_service p = sid) (perms_tbl t))"

lemma GetPermissionLevel_cases:
  assumes "GetPermissionLevel uid sid d = (r, d')"
  obtains (fault) "r = Inl ErrFault"
  | (missing) "r = Inl ErrNotFound" and "level_of (tbl d) uid sid = None"
  | (found) l where "r = Inr l" and "level_of (tbl d) uid sid = Some l"
  using assms unfolding GetPermissionLevel_def level_of_def
  by (elim bind_cases) (auto simp: or_not_found_def elim!: select_InrE dest!: select_InlD
      split: option.splits)

lemma SetPermission_cases:
  assumes "SetPermission uid sid level d = (r, d')"
  obtains (failed) e where "r = Inl e" and "tbl d' = tbl d" and "seqs d \<le> seqs d'"
      and "e = ErrFault \<or> e = ErrCheck \<and> \<not> level_ok level \<or>
           e = ErrForeignKey \<and> \<not> (user_exists (tbl d) uid \<and> service_exists (tbl d) sid)"
  | (updated) "r = Inr ()" and "level_ok level" and "level_of (tbl d) uid sid \<noteq> None"
      and "tbl d' = (tbl d)\<lparr>perms_tbl := update_where (\<lambda>p. p_user p = uid \<and> p_service p = sid)
             (\<lambda>p. p\<lparr>p_level := level\<rparr>) (perms_tbl (tbl d))\<rparr>"
      and "seqs d' = (seqs d)(PermsSeq := seqs d PermsSeq + 1)"
  | (granted) row where "r = Inr ()" and "level_ok level" and "level_of (tbl d) uid sid = None"
      and "user_exists (tbl d) uid" and "service_exists (tbl d) sid"
      and "row = \<lparr>p_id = seqs d PermsSeq, p_user = uid, p_service = sid, p_level = level\<rparr>"
      and "tbl d' = (tbl d)\<lparr>perms_tbl := perms_tbl (tbl d) @ [row]\<rparr>"
      and "seqs d' = (seqs d)(PermsSeq := seqs d PermsSeq + 1)"
proof -
  have ex: "(\<exists>p \<in> set (perms_tbl (tbl d)). p_user p = uid \<and> p_service p = sid) \<longleftrightarrow>
      level_of (tbl d) uid sid \<noteq> None"
    by (auto simp: level_of_def find_eq_None)
  from assms show ?thesis unfolding SetPermission_def
  proof (cases rule: stmt_cases)
    case (fault fs)
    with failed show ?thesis by simp
  next
    case (ran fs)
    then show ?thesis
      using failed updated granted unfolding Let_def
      by (auto simp: ex seq_grow split: if_splits)
  qed
qed

lemma RevokePermission_cases:
  assumes "RevokePermission uid sid d = (r, d')"
  obtains (fault) "r = Inl ErrFault" and "tbl d' = tbl d" and "seqs d' = seqs d"
  | (revoked) "r = Inr ()" and "seqs d' = seqs d"
      and "tbl d' = (tbl d)\<lparr>perms_tbl :=
        filter (\<lambda>p. \<not> (p_user p = uid \<and> p_service p = sid)) (perms_tbl (tbl d))\<rparr>"
  using assms unfolding RevokePermission_def by (auto elim!: stmt_cases)

section \<open>Favorites\<close>

definition AddFavorite :: "int \<Rightarrow> int \<Rightarrow> unit dbm" where
  "AddFavorite uid sid = stmt (\<lambda>d.
     if (uid, sid) \<in> set (favs_tbl (tbl d)) then (Inr (), d)
     else if user_exists (tbl d) uid \<and> service_exists (tbl d) sid
     then (Inr (), with_tbl (\<lambda>t. t\<lparr>favs_tbl := favs_tbl t @ [(uid, sid)]\<rparr>) d)
     else (Inl ErrForeignKey, d))"

definition RemoveFavorite :: "int \<Rightarrow> int \<Rightarrow> unit dbm" where
  "RemoveFavorite uid sid = stmt (\<lambda>d. (Inr (), with_tbl (\<lambda>t. t\<lparr>favs_tbl :=
     filter (\<lambda>f. \<not> (fst f = uid \<and> snd f = sid)) (favs_tbl t)\<rparr>) d))"

definition ListFavorites :: "int \<Rightarrow> int list dbm" where
  "ListFavorites uid = select (\<lambda>d. map snd (filter (\<lambda>f. fst f = uid) (favs_tbl (tbl d))))"

lemma AddFavorite_cases:
  assumes "AddFavorite uid sid d = (r, d')"
  obtains (failed) e where "r = Inl e" and "tbl d' = tbl d" and "seqs d' = seqs d"
  | (kept) "r = Inr ()" and "tbl d' = tbl d" and "seqs d' = seqs d" and "(uid, sid) \<in> set (favs_tbl (tbl d))"
  | (added) "r = Inr ()" and "(uid, sid) \<notin> set (favs_tbl (tbl d))" and "seqs d' = seqs d"
      and "user_exists (tbl d) uid" and "service_exists (tbl d) sid"
      and "tbl d' = (tbl d)\<lparr>favs_tbl := favs_tbl (tbl d) @ [(uid, sid)]\<rparr>"
  using assms unfolding AddFavorite_def
  by (auto elim!: stmt_cases split: if_splits)

lemma RemoveFavorite_cases:
  assumes "RemoveFavorite uid sid d = (r, d')"
  obtains (fault) "r = Inl ErrFault" and "tbl d' = tbl d" and "seqs d' = seqs d"
  | (removed) "r = Inr ()" and "seqs d' = seqs d"
      and "tbl d' = (tbl d)\<lparr>favs_tbl := filter (\<lambda>f. \<not> (fst f = uid \<and> snd f = sid)) (favs_tbl (tbl d))\<rparr>"
  using assms unfolding RemoveFavorite_def by (auto elim!: stmt_cases)

section \<open>API tokens\<close>

text \<open>The Go struct has no field for the hash: what is returned carries an empty one.\<close>

definition public_token :: "api_token \<Rightarrow> api_token" where
  "public_token tok = tok\<lparr>t_hash := ''''\<rparr>"

definition CreateAPIToken :: "int \<Rightarrow> string \<Rightarrow> string \<Rightarrow> api_token dbm" where
  "CreateAPIToken uid name tokenHash = stmt (\<lambda>d0.
     let d = nextval TokensSeq d0;
         row = \<lparr>t_id = seqs d0 TokensSeq, t_user = uid, t_name = name, t_hash = tokenHash,
                t_created = clock d, t_last_used = None\<rparr>
     in if \<exists>x \<in> set (tokens_tbl (tbl d)). t_hash x = tokenHash then (Inl ErrUnique, d)
        else if \<not> user_exists (tbl d) uid then (Inl ErrForeignKey, d)
        else (Inr (public_token row), with_tbl (\<lambda>t. t\<lparr>tokens_tbl := tokens_tbl t @ [row]\<rparr>) d))"

definition ListAPITokens :: "int \<Rightarrow> api_token list dbm" where
  "ListAPITokens uid = select (\<lambda>d. map public_token (sort_by (\<lambda>a b. t_created a \<ge> t_created b)
     (filter (\<lambda>x. t_user x = uid) (tokens_tbl (tbl d)))))"

definition DeleteAPIToken :: "int \<Rightarrow> int \<Rightarrow> unit dbm" where
  "DeleteAPIToken uid tid =
     bind (stmt (\<lambda>d. (Inr (length (filter (\<lambda>x. t_id x = tid \<and> t_user x = uid) (tokens_tbl (tbl d)))),
        with_tbl (\<lambda>t. t\<lparr>tokens_tbl :=
          filter (\<lambda>x. \<not> (t_id x = tid \<and> t_user x = uid)) (tokens_tbl t)\<rparr>) d)))
      (\<lambda>n. if n = 0 then throw ErrNotFound else ret ())"

definition touch_token :: "string \<Rightarrow> int dbm" where
  "touch_token tokenHash =
     bind (stmt (\<lambda>d. (Inr (map_option t_user (find (\<lambda>x. t_hash x = tokenHash) (tokens_tbl (tbl d)))),
        with_tbl (\<lambda>t. t\<lparr>tokens_tbl := update_where (\<lambda>x. t_hash x = tokenHash)
          (\<lambda>x. x\<lparr>t_last_used := Some (clock d)\<rparr>) (tokens_tbl t)\<rparr>) d))) or_not_found"

definition UserByAPIToken :: "string \<Rightarrow> user dbm" where
  "UserByAPIToken tokenHash = bind (touch_token tokenHash) GetUser"

lemma CreateAPIToken_cases:
  assumes "CreateAPIToken uid name h d = (r, d')"
  obtains (failed) e where "r = Inl e" and "tbl d' = tbl d" and "seqs d \<le> seqs d'"
  | (created) row where "r = Inr (public_token row)" and "t_user row = uid" and "t_hash row = h"
      and "t_name row = name" and "t_id row = seqs d TokensSeq" and "t_last_used row = None"
      and "user_exists (tbl d) uid" and "\<forall>x \<in> set (tokens_tbl (tbl d)). t_hash x \<noteq> h"
      and "tbl d' = (tbl d)\<lparr>tokens_tbl := tokens_tbl (tbl d) @ [row]\<rparr>"
      and "seqs d' = (seqs d)(TokensSeq := seqs d TokensSeq + 1)"
  using assms unfolding CreateAPIToken_def
proof (cases rule: stmt_cases)
  case (fault fs)
  with failed show ?thesis by simp
next
  case (ran fs)
  let ?row = "\<lparr>t_id = seqs d TokensSeq, t_user = uid, t_name = name, t_hash = h,
    t_created = clock d, t_last_used = None\<rparr>"
  consider "\<exists>x \<in> set (tokens_tbl (tbl d)). t_hash x = h" | "\<not> user_exists (tbl d) uid"
    | "\<forall>x \<in> set (tokens_tbl (tbl d)). t_hash x \<noteq> h" "user_exists (tbl d) uid" by blast
  then show ?thesis
  proof cases
    case 1
    with ran show ?thesis by (intro failed) (auto simp: Let_def seq_grow)
  next
    case 2
    with ran have "\<exists>e. r = Inl e" "tbl d' = tbl d" "seqs d \<le> seqs d'"
      by (auto simp: Let_def seq_grow split: if_splits)
    with failed show ?thesis by blast
  next
    case 3
    with ran show ?thesis by (intro created [of ?row]) (auto simp: Let_def)
  qed
qed

lemma DeleteAPIToken_cases:
  assumes "DeleteAPIToken uid tid d = (r, d')"
  obtains (failed) e where "r = Inl e" and "tbl d' = tbl d" and "seqs d' = seqs d"
  | (deleted) "r = Inr ()" and "seqs d' = seqs d"
      and "\<exists>x \<in> set (tokens_tbl (tbl d)). t_id x = tid \<and> t_user x = uid"
      and "tbl d' = (tbl d)\<lparr>tokens_tbl :=
        filter (\<lambda>x. \<not> (t_id x = tid \<and> t_user x = uid)) (tokens_tbl (tbl d))\<rparr>"
  using assms unfolding DeleteAPIToken_def
proof (rule affected_cases)
  fix fs
  assume none: "length (filter (\<lambda>x. t_id x = tid \<and> t_user x = uid) (tokens_tbl (tbl d))) = 0"
    and r: "r = Inl ErrNotFound" and d': "d' = with_tbl (\<lambda>t. t\<lparr>tokens_tbl :=
          filter (\<lambda>x. \<not> (t_id x = tid \<and> t_user x = uid)) (tokens_tbl t)\<rparr>) (d\<lparr>faults := fs\<rparr>)"
  have "filter (\<lambda>x. \<not> (t_id x = tid \<and> t_user x = uid)) (tokens_tbl (tbl d)) = tokens_tbl (tbl d)"
    using none by (intro filter_True) (auto simp: filter_empty_conv)
  with r d' show ?thesis by (intro failed) simp_all
next
  fix fs
  assume some: "length (filter (\<lambda>x. t_id x = tid \<and> t_user x = uid) (tokens_tbl (tbl d))) \<noteq> 0"
    and r: "r = Inr ()" and d': "d' = with_tbl (\<lambda>t. t\<lparr>tokens_tbl :=
          filter (\<lambda>x. \<not> (t_id x = tid \<and> t_user x = uid)) (tokens_tbl t)\<rparr>) (d\<lparr>faults := fs\<rparr>)"
  have "\<exists>x \<in> set (tokens_tbl (tbl d)). t_id x = tid \<and> t_user x = uid"
    using some by (auto simp: filter_empty_conv)
  with r d' show ?thesis by (intro deleted) simp_all
qed (auto intro: failed)

lemma UserByAPIToken_cases:
  assumes "UserByAPIToken h d = (r, d')"
  obtains (failed) e where "r = Inl e" and "e = ErrFault \<or> e = ErrNotFound" and "seqs d' = seqs d"
      and "tbl d' = tbl d"
  | (touched) e where "r = Inl e" and "e = ErrFault \<or> e = ErrNotFound" and "seqs d' = seqs d"
      and "tbl d' = (tbl d)\<lparr>tokens_tbl := update_where (\<lambda>x. t_hash x = h)
             (\<lambda>y. y\<lparr>t_last_used := Some (clock d)\<rparr>) (tokens_tbl (tbl d))\<rparr>"
  | (found) tok u where "r = Inr u" and "find (\<lambda>x. t_hash x = h) (tokens_tbl (tbl d)) = Some tok"
      and "find_user (tbl d) (t_user tok) = Some u" and "seqs d' = seqs d"
      and "tbl d' = (tbl d)\<lparr>tokens_tbl := update_where (\<lambda>x. t_hash x = h)
             (\<lambda>y. y\<lparr>t_last_used := Some (clock d)\<rparr>) (tokens_tbl (tbl d))\<rparr>"
proof -
  have idle: "update_where (\<lambda>x. t_hash x = h) f (tokens_tbl (tbl d)) = tokens_tbl (tbl d)"
    if "find (\<lambda>x. t_hash x = h) (tokens_tbl (tbl d)) = None" for f
    using that by (intro update_where_idle) (auto simp: find_eq_None)
  from assms show ?thesis unfolding UserByAPIToken_def
  proof (cases rule: bind_cases)
    case (fail e)
    then show ?thesis unfolding touch_token_def
      using failed idle
      by (elim bind_cases stmt_cases) (auto simp: or_not_found_def split: option.splits)
  next
    case (step uid d1)
    then obtain tok where 1: "find (\<lambda>x. t_hash x = h) (tokens_tbl (tbl d)) = Some tok"
        "uid = t_user tok" "seqs d1 = seqs d"
      "tbl d1 = (tbl d)\<lparr>tokens_tbl := update_where (\<lambda>x. t_hash x = h)
             (\<lambda>y. y\<lparr>t_last_used := Some (clock d)\<rparr>) (tokens_tbl (tbl d))\<rparr>"
      unfolding touch_token_def
      by (elim bind_InrE stmt_InrE or_not_found_InrE) auto
    from step(2) show ?thesis unfolding GetUser_def
      using touched found 1
      by (elim bind_cases)
        (auto simp: or_not_found_def find_user_def dest!: select_tbl select_InlD
          elim!: select_InrE split: option.splits)
  qed
qed

section \<open>Telegram settings\<close>

definition GetTelegramSettings :: "telegram_settings dbm" where
  "GetTelegramSettings = select (\<lambda>d. settings_row (tbl d))"

text \<open>A nil slice of admin ids is stored as the empty array: both are the empty list here.\<close>

definition SaveTelegramSettings :: "telegram_settings \<Rightarrow> unit dbm" where
  "SaveTelegramSettings s = stmt (\<lambda>d. (Inr (), with_tbl (\<lambda>t. t\<lparr>settings_row := s\<rparr>) d))"

lemma SaveTelegramSettings_cases:
  assumes "SaveTelegramSettings s d = (r, d')"
  obtains (fault) "r = Inl ErrFault" and "tbl d' = tbl d" and "seqs d' = seqs d"
  | (saved) "r = Inr ()" and "seqs d' = seqs d" and "tbl d' = (tbl d)\<lparr>settings_row := s\<rparr>"
  using assms unfolding SaveTelegramSettings_def by (auto elim!: stmt_cases)

lemma reads_only_users [simp]:
  "reads_only (GetUser uid)" "reads_only (GetUserByEmail email)" "reads_only ListUsers"
  "reads_only (GetPermissionLevel uid sid)" "reads_only (ListServicePermissions sid)"
  "reads_only (ListFavorites uid)" "reads_only (ListAPITokens uid)" "reads_only GetTelegramSettings"
  by (simp_all add: GetUser_def GetUserByEmail_def ListUsers_def GetPermissionLevel_def
      ListServicePermissions_def ListFavorites_def ListAPITokens_def GetTelegramSettings_def
      reads_only_bind)

end
