(* ===== verification/Store_Audit.thy ===== *)
theory Store_Audit
  imports Store_Variables
begin

text \<open>
  \<open>internal/store/audit.go\<close>: the audit log, its listing and the periodic pruning. The details
  are stored as JSON and read back; the model keeps them as they are.
\<close>

definition InsertAudit :: "string \<Rightarrow> string \<Rightarrow> string \<Rightarrow> (string \<times> detail) list \<Rightarrow> unit dbm" where
  "InsertAudit actor action target details = stmt (\<lambda>d0.
     let d = nextval AuditSeq d0;
         row = \<lparr>a_id = seqs d0 AuditSeq, a_actor = actor, a_action = action, a_target = target,
                a_details = details, a_created = clock d\<rparr>
     in (Inr (), with_tbl (\<lambda>t. t\<lparr>audit_tbl := audit_tbl t @ [row]\<rparr>) d))"

definition sql_min :: "int list \<Rightarrow> int option" where
  "sql_min xs = (case xs of [] \<Rightarrow> None | y # ys \<Rightarrow> Some (fold min ys y))"

text \<open>The subquery: the smallest of the \<open>keep\<close> largest ids. A comparison with NULL selects nothing.\<close>

definition oldest_kept :: "nat \<Rightarrow> audit_entry list \<Rightarrow> int option" where
  "oldest_kept keep rows = sql_min (take keep (sort_by (\<lambda>a b. a \<ge> b) (map a_id rows)))"

definition pruned :: "nat \<Rightarrow> audit_entry list \<Rightarrow> audit_entry list" where
  "pruned keep rows = (case oldest_kept keep rows of
       None \<Rightarrow> rows
     | Some m \<Rightarrow> filter (\<lambda>a. \<not> a_id a < m) rows)"

definition PruneAudit :: "int \<Rightarrow> nat dbm" where
  "PruneAudit keep = (if keep \<le> 0 then ret 0 else stmt (\<lambda>d.
     (Inr (length (audit_tbl (tbl d)) - length (pruned (nat keep) (audit_tbl (tbl d)))),
      with_tbl (\<lambda>t. t\<lparr>audit_tbl := pruned (nat keep) (audit_tbl t)\<rparr>) d)))"

definition ListAudit :: "int \<Rightarrow> audit_entry list dbm" where
  "ListAudit limit = select (\<lambda>d. take (clamp_limit limit)
     (sort_by (\<lambda>a b. a_created a \<ge> a_created b) (audit_tbl (tbl d))))"

section \<open>Outcomes and invariant\<close>

text \<open>Ids are drawn from the sequence in the order of the rows.\<close>

definition audit_inv :: tinv where
  "audit_inv t s \<longleftrightarrow> sorted_wrt (<) (map a_id (audit_tbl t)) \<and>
     (\<forall>a \<in> set (audit_tbl t). a_id a < s AuditSeq)"

lemma audit_inv_mono: "seq_mono audit_inv"
  by (fastforce simp: seq_mono_def audit_inv_def le_fun_def intro: order_less_le_trans)

lemma InsertAudit_cases:
  assumes "InsertAudit actor action target details d = (r, d')"
  obtains (fault) "r = Inl ErrFault" and "tbl d' = tbl d" and "seqs d' = seqs d"
  | (added) row where "r = Inr ()" and "a_id row = seqs d AuditSeq" and "a_actor row = actor"
      and "a_action row = action" and "a_target row = target" and "a_details row = details"
      and "tbl d' = (tbl d)\<lparr>audit_tbl := audit_tbl (tbl d) @ [row]\<rparr>"
      and "seqs d' = (seqs d)(AuditSeq := seqs d AuditSeq + 1)"
  using assms unfolding InsertAudit_def
proof (cases rule: stmt_cases)
  case (fault fs)
  with that(1) show ?thesis by simp
next
  case (ran fs)
  let ?row = "\<lparr>a_id = seqs d AuditSeq, a_actor = actor, a_action = action, a_target = target,
    a_details = details, a_created = clock d\<rparr>"
  from ran show ?thesis by (intro added [of ?row]) (auto simp: Let_def)
qed

lemma PruneAudit_cases:
  assumes "PruneAudit keep d = (r, d')"
  obtains (fault) "r = Inl ErrFault" and "tbl d' = tbl d" and "seqs d' = seqs d"
  | (idle) "keep \<le> 0" and "r = Inr 0" and "tbl d' = tbl d" and "seqs d' = seqs d"
  | (pruned) "0 < keep" and "seqs d' = seqs d"
      and "r = Inr (length (audit_tbl (tbl d)) - length (pruned (nat keep) (audit_tbl (tbl d))))"
      and "tbl d' = (tbl d)\<lparr>audit_tbl := pruned (nat keep) (audit_tbl (tbl d))\<rparr>"
proof (cases "keep \<le> 0")
  case True
  with assms show ?thesis by (intro idle) (auto simp: PruneAudit_def)
next
  case False
  with assms have "stmt (\<lambda>d.
     (Inr (length (audit_tbl (tbl d)) - length (pruned (nat keep) (audit_tbl (tbl d)))),
      with_tbl (\<lambda>t. t\<lparr>audit_tbl := pruned (nat keep) (audit_tbl t)\<rparr>) d)) d = (r, d')"
    by (simp add: PruneAudit_def)
  then show ?thesis
  proof (cases rule: stmt_cases)
    case (fault fs)
    with that(1) show ?thesis by simp
  next
    case (ran fs)
    with False show ?thesis by (intro that(3)) auto
  qed
qed

lemma set_pruned: "set (pruned k rows) \<subseteq> set rows"
  by (auto simp: pruned_def split: option.splits)

lemma sorted_pruned: "sorted_wrt (<) (map a_id rows) \<Longrightarrow> sorted_wrt (<) (map a_id (pruned k rows))"
  by (auto simp: pruned_def sorted_wrt_map sorted_wrt_filter split: option.splits)

lemma preserves_InsertAudit_audit [pres]: "preserves audit_inv (InsertAudit actor action target details)"
  by (rule preservesI, erule InsertAudit_cases)
    (auto simp: audit_inv_def sorted_wrt_append seq_grow)

lemma preserves_PruneAudit_audit [pres]: "preserves audit_inv (PruneAudit keep)"
  by (rule preservesI, erule PruneAudit_cases)
    (use set_pruned in \<open>auto simp: audit_inv_def sorted_pruned\<close>)

section \<open>What pruning keeps\<close>

lemma sql_min_desc:
  "sorted_wrt (>) xs \<Longrightarrow> sql_min xs = (if xs = [] then None else Some (last xs))"
proof -
  have "fold min ys y = last (y # ys)" if "sorted_wrt (>) (y # ys)" for y :: int and ys
    using that by (induction ys arbitrary: y) auto
  then show "sorted_wrt (>) xs \<Longrightarrow> ?thesis"
    by (cases xs) (auto simp: sql_min_def)
qed

lemma count_above_desc:
  fixes xs :: "int list"
  shows "sorted_wrt (>) xs \<Longrightarrow> i < length xs \<Longrightarrow> length (filter (\<lambda>y. y > xs ! i) xs) = i"
proof (induction xs arbitrary: i)
  case Nil
  then show ?case by simp
next
  case (Cons x xs)
  show ?case
  proof (cases i)
    case 0
    have "filter (\<lambda>y. y > x) xs = []" using Cons.prems by (auto simp: filter_empty_conv)
    with 0 show ?thesis by simp
  next
    case (Suc j)
    with Cons.prems have "xs ! j < x" by simp
    with Suc Cons show ?thesis by simp
  qed
qed

lemma sort_desc:
  assumes "distinct (xs :: int list)"
  shows "sorted_wrt (>) (sort_by (\<lambda>a b. a \<ge> b) xs)"
proof -
  let ?L = "sort_by (\<lambda>a b. a \<ge> b) xs"
  have "sorted_wrt (\<ge>) ?L" by (rule sorted_wrt_sort_by) auto
  moreover have "distinct ?L"
    using assms distinct_map_sort_by [of "\<lambda>x. x" "\<lambda>a b. a \<ge> b" xs] by simp
  moreover have "sorted_wrt (\<ge>) ys \<Longrightarrow> distinct ys \<Longrightarrow> sorted_wrt (>) ys" for ys :: "int list"
    by (induction ys) (auto simp: less_le)
  ultimately show ?thesis by blast
qed

text \<open>A row stays exactly when fewer than \<open>keep\<close> rows are newer.\<close>

lemma pruned_newest:
  assumes dist: "distinct (map a_id rows)" and keep: "0 < keep"
  shows "pruned keep rows =
     filter (\<lambda>a. length (filter (\<lambda>b. a_id b > a_id a) rows) < keep) rows"
proof (cases "rows = []")
  case True
  then show ?thesis by (simp add: pruned_def oldest_kept_def sql_min_def)
next
  case False
  let ?L = "sort_by (\<lambda>a b. a \<ge> b) (map a_id rows)"
  have desc: "sorted_wrt (>) ?L" by (rule sort_desc [OF dist])
  have len: "length ?L = length rows" by simp
  let ?m = "min keep (length rows) - 1"
  have m: "?m < length rows" using False by (cases rows) auto
  have ne: "take keep ?L \<noteq> []" using False keep len by (metis length_0_conv neq0_conv take_eq_Nil)
  have "sorted_wrt (>) (take keep ?L)" using desc by (rule sorted_wrt_take)
  then have "oldest_kept keep rows = Some (last (take keep ?L))"
    using ne by (simp add: oldest_kept_def sql_min_desc)
  also have "last (take keep ?L) = ?L ! ?m"
  proof -
    have "last (take keep ?L) = take keep ?L ! ?m" using ne by (simp add: last_conv_nth min.commute)
    also have "\<dots> = ?L ! ?m" using keep by (intro nth_take) linarith
    finally show ?thesis .
  qed
  finally have old: "oldest_kept keep rows = Some (?L ! ?m)" .
  have "(\<not> a_id a < ?L ! ?m) = (length (filter (\<lambda>b. a_id b > a_id a) rows) < keep)"
    if a: "a \<in> set rows" for a
  proof -
    have "a_id a \<in> set ?L" using a by simp
    then obtain i where i: "i < length rows" "a_id a = ?L ! i" using len by (metis in_set_conv_nth)
    have "length (filter (\<lambda>b. a_id b > a_id a) rows) = length (filter (\<lambda>y. y > a_id a) (map a_id rows))"
      by (simp add: filter_map comp_def)
    also have "\<dots> = length (filter (\<lambda>y. y > a_id a) ?L)"
      by (metis mset_filter mset_sort_by size_mset)
    also have "\<dots> = i" using count_above_desc [OF desc, of i] i len by simp
    finally have cnt: "length (filter (\<lambda>b. a_id b > a_id a) rows) = i" .
    have mono: "?L ! q < ?L ! p" if "p < q" "q < length rows" for p q
      using desc that len by (simp add: sorted_wrt_iff_nth_less)
    have "(\<not> ?L ! i < ?L ! ?m) = (i \<le> ?m)"
      using mono [of ?m i] mono [of i ?m] i(1) m by (cases i ?m rule: linorder_cases) auto
    also have "\<dots> = (i < keep)" using i(1) keep by auto
    finally show ?thesis using i(2) cnt by simp
  qed
  then show ?thesis by (simp add: pruned_def old cong: filter_cong)
qed

lemma length_above_asc:
  "sorted_wrt (<) (map a_id rows) \<Longrightarrow>
     length (filter (\<lambda>a. length (filter (\<lambda>b. a_id b > a_id a) rows) < k) rows) = min k (length rows)"
proof (induction rows)
  case Nil
  then show ?case by simp
next
  case (Cons x rows)
  have top: "filter (\<lambda>b. a_id b > a_id x) rows = rows"
    using Cons.prems by (auto simp: filter_id_conv)
  have rest: "(length (filter (\<lambda>b. a_id b > a_id a) (x # rows)) < k) =
      (length (filter (\<lambda>b. a_id b > a_id a) rows) < k)" if "a \<in> set rows" for a
    using Cons.prems that by auto
  have "filter (\<lambda>a. length (filter (\<lambda>b. a_id b > a_id a) (x # rows)) < k) rows =
      filter (\<lambda>a. length (filter (\<lambda>b. a_id b > a_id a) rows) < k) rows"
    by (intro filter_cong refl rest)
  with Cons have "length (filter (\<lambda>a. length (filter (\<lambda>b. a_id b > a_id a) (x # rows)) < k) rows) =
      min k (length rows)" by simp
  then show ?case using top by auto
qed

lemma length_pruned:
  assumes "sorted_wrt (<) (map a_id rows)" and "0 < keep"
  shows "length (pruned keep rows) = min keep (length rows)"
proof -
  have "distinct (map a_id rows)" using assms(1) by (metis strict_sorted_iff)
  from pruned_newest [OF this assms(2)] length_above_asc [OF assms(1)] show ?thesis by simp
qed

lemma reads_only_ListAudit [simp]: "reads_only (ListAudit limit)"
  by (simp add: ListAudit_def)

end
