(* ===== verification/Store_Connections.thy ===== *)
theory Store_Connections
  imports Store_Services
begin

text \<open>
  \<open>internal/store/connections.go\<close>: one row per live gRPC stream, kept alive by the heartbeat
  of its replica. A row is live while its heartbeat is younger than the given number of
  seconds; the clock counts microseconds.
\<close>

definition ttl_limit :: "int \<Rightarrow> int \<Rightarrow> int" where
  "ttl_limit now ttlSeconds = now - ttlSeconds * 1000000"

definition is_conn :: "string \<Rightarrow> string \<Rightarrow> connection_client \<Rightarrow> bool" where
  "is_conn replicaID connID c \<longleftrightarrow> c_replica c = replicaID \<and> c_conn c = connID"

definition live_conn :: "int \<Rightarrow> int \<Rightarrow> connection_client \<Rightarrow> bool" where
  "live_conn now ttlSeconds c \<longleftrightarrow> c_updated c > ttl_limit now ttlSeconds"

definition RegisterConnection :: "int \<Rightarrow> string \<Rightarrow> string \<Rightarrow> string \<Rightarrow> unit dbm" where
  "RegisterConnection serviceID replicaID connID peerAddr = stmt (\<lambda>d0.
     let d = nextval ConnsSeq d0;
         row = \<lparr>c_id = seqs d0 ConnsSeq, c_service = serviceID, c_replica = replicaID,
                c_conn = connID, c_peer = peerAddr, c_connected = clock d, c_updated = clock d\<rparr>
     in if \<exists>c \<in> set (conns_tbl (tbl d)). is_conn replicaID connID c
        then (Inr (), with_tbl (\<lambda>t. t\<lparr>conns_tbl := update_where (is_conn replicaID connID)
               (\<lambda>c. c\<lparr>c_updated := clock d\<rparr>) (conns_tbl t)\<rparr>) d)
        else if service_exists (tbl d) serviceID
        then (Inr (), with_tbl (\<lambda>t. t\<lparr>conns_tbl := conns_tbl t @ [row]\<rparr>) d)
        else (Inl ErrForeignKey, d))"

text \<open>An UPDATE or DELETE that depends on the time only: its result is not looked at.\<close>

definition conn_stmt :: "(int \<Rightarrow> connection_client list \<Rightarrow> connection_client list) \<Rightarrow> unit dbm" where
  "conn_stmt g = stmt (\<lambda>d. (Inr (), with_tbl (\<lambda>t. t\<lparr>conns_tbl := g (clock d) (conns_tbl t)\<rparr>) d))"

definition UnregisterConnection :: "string \<Rightarrow> string \<Rightarrow> unit dbm" where
  "UnregisterConnection replicaID connID =
     conn_stmt (\<lambda>_. filter (\<lambda>c. \<not> is_conn replicaID connID c))"

definition TouchReplicaConnections :: "string \<Rightarrow> unit dbm" where
  "TouchReplicaConnections replicaID =
     conn_stmt (\<lambda>now. update_where (\<lambda>c. c_replica c = replicaID) (\<lambda>c. c\<lparr>c_updated := now\<rparr>))"

definition active_count :: "tables \<Rightarrow> int \<Rightarrow> int \<Rightarrow> int \<Rightarrow> nat" where
  "active_count t now serviceID ttlSeconds =
     length (filter (\<lambda>c. c_service c = serviceID \<and> live_conn now ttlSeconds c) (conns_tbl t))"

definition ActiveConnections :: "int \<Rightarrow> int \<Rightarrow> nat dbm" where
  "ActiveConnections serviceID ttlSeconds =
     select (\<lambda>d. active_count (tbl d) (clock d) serviceID ttlSeconds)"

text \<open>A service without live rows forms no group and has no entry in the result.\<close>

definition ActiveConnectionsAll :: "int \<Rightarrow> (int \<rightharpoonup> nat) dbm" where
  "ActiveConnectionsAll ttlSeconds = select (\<lambda>d sid.
     (let n = active_count (tbl d) (clock d) sid ttlSeconds in if n = 0 then None else Some n))"

definition ListConnectionClients :: "int \<Rightarrow> int \<Rightarrow> connection_client list dbm" where
  "ListConnectionClients serviceID ttlSeconds = select (\<lambda>d.
     sort_by (\<lambda>a b. if collate d (c_replica b) (c_replica a)
                    then collate d (c_replica a) (c_replica b) \<and> c_connected a \<le> c_connected b
                    else collate d (c_replica a) (c_replica b))
       (filter (\<lambda>c. c_service c = serviceID \<and> live_conn (clock d) ttlSeconds c) (conns_tbl (tbl d))))"

definition PurgeStaleConnections :: "int \<Rightarrow> unit dbm" where
  "PurgeStaleConnections ttlSeconds =
     conn_stmt (\<lambda>now. filter (\<lambda>c. \<not> c_updated c < ttl_limit now ttlSeconds))"

definition ClearReplicaConnections :: "string \<Rightarrow> unit dbm" where
  "ClearReplicaConnections replicaID = conn_stmt (\<lambda>_. filter (\<lambda>c. c_replica c \<noteq> replicaID))"

section \<open>Outcomes and invariant\<close>

text \<open>Every operation on the rows is a statement that rewrites them, or adds one row.\<close>

lemma RegisterConnection_cases:
  assumes "RegisterConnection sid rid cid peer d = (r, d')"
  obtains (failed) e where "r = Inl e" and "tbl d' = tbl d" and "seqs d \<le> seqs d'"
      and "e = ErrFault \<or> e = ErrForeignKey \<and> \<not> service_exists (tbl d) sid"
  | (updated) "r = Inr ()" and "seqs d \<le> seqs d'"
      and "tbl d' = (tbl d)\<lparr>conns_tbl := update_where (is_conn rid cid)
               (\<lambda>c. c\<lparr>c_updated := clock d\<rparr>) (conns_tbl (tbl d))\<rparr>"
      and "\<exists>c \<in> set (conns_tbl (tbl d)). is_conn rid cid c"
  | (added) row where "r = Inr ()" and "seqs d \<le> seqs d'" and "is_conn rid cid row"
      and "c_service row = sid" and "c_updated row = clock d" and "service_exists (tbl d) sid"
      and "\<forall>c \<in> set (conns_tbl (tbl d)). \<not> is_conn rid cid c"
      and "tbl d' = (tbl d)\<lparr>conns_tbl := conns_tbl (tbl d) @ [row]\<rparr>"
  using assms unfolding RegisterConnection_def
proof (cases rule: stmt_cases)
  case (fault fs)
  with failed show ?thesis by simp
next
  case (ran fs)
  let ?row = "\<lparr>c_id = seqs d ConnsSeq, c_service = sid, c_replica = rid, c_conn = cid,
    c_peer = peer, c_connected = clock d, c_updated = clock d\<rparr>"
  consider "\<exists>c \<in> set (conns_tbl (tbl d)). is_conn rid cid c"
    | "\<forall>c \<in> set (conns_tbl (tbl d)). \<not> is_conn rid cid c" "service_exists (tbl d) sid"
    | "\<forall>c \<in> set (conns_tbl (tbl d)). \<not> is_conn rid cid c" "\<not> service_exists (tbl d) sid" by blast
  then show ?thesis
  proof cases
    case 1
    from 1 ran have "r = Inr ()" and d': "d' = with_tbl (\<lambda>t. t\<lparr>conns_tbl := update_where (is_conn rid cid)
        (\<lambda>c. c\<lparr>c_updated := clock d\<rparr>) (conns_tbl t)\<rparr>) (nextval ConnsSeq (d\<lparr>faults := fs\<rparr>))"
      by (simp_all add: Let_def)
    then show ?thesis using 1 by (intro updated) (simp_all add: seq_grow)
  next
    case 2
    have row: "is_conn rid cid ?row" "c_service ?row = sid" "c_updated ?row = clock d"
      by (simp_all add: is_conn_def)
    from 2(1) have "\<not> (\<exists>c \<in> set (conns_tbl (tbl d)). is_conn rid cid c)" by blast
    with 2 ran have "r = Inr ()" and d': "d' = with_tbl (\<lambda>t. t\<lparr>conns_tbl := conns_tbl t @ [?row]\<rparr>)
        (nextval ConnsSeq (d\<lparr>faults := fs\<rparr>))"
      by (simp_all add: Let_def)
    then show ?thesis using 2 row by (intro added [of ?row]) (simp_all add: seq_grow)
  next
    case 3
    then have "\<not> (\<exists>c \<in> set (conns_tbl (tbl d)). is_conn rid cid c)" by blast
    with ran 3(2) have "r = Inl ErrForeignKey" and d': "d' = nextval ConnsSeq (d\<lparr>faults := fs\<rparr>)"
      by (simp_all add: Let_def)
    then show ?thesis using 3(2) by (intro failed [of ErrForeignKey]) (simp_all add: seq_grow)
  qed
qed

lemma conn_stmt_cases:
  assumes "conn_stmt g d = (r, d')"
  obtains (fault) "r = Inl ErrFault" and "tbl d' = tbl d" and "seqs d' = seqs d"
  | (ran) "r = Inr ()" and "seqs d' = seqs d" and "clock d' = clock d"
      and "tbl d' = (tbl d)\<lparr>conns_tbl := g (clock d) (conns_tbl (tbl d))\<rparr>"
  using assms unfolding conn_stmt_def
proof (cases rule: stmt_cases)
  case (fault fs)
  then show ?thesis by (intro that(1)) simp_all
next
  case (ran fs)
  then have "r = Inr ()" and
    d': "d' = with_tbl (\<lambda>t. t\<lparr>conns_tbl := g (clock d) (conns_tbl t)\<rparr>) (d\<lparr>faults := fs\<rparr>)"
    by simp_all
  then show ?thesis by (intro that(2)) (simp_all add: d')
qed

lemma preserves_conn_stmt:
  assumes "\<And>now t. P t \<Longrightarrow> P (t\<lparr>conns_tbl := g now (conns_tbl t)\<rparr>)"
  shows "preserves (\<lambda>t _. P t) (conn_stmt g)"
proof (rule preservesI)
  fix d r d'
  assume P: "P (tbl d)" and "conn_stmt g d = (r, d')"
  from this(2) show "P (tbl d') \<and> seqs d \<le> seqs d'"
    by (cases rule: conn_stmt_cases) (use P assms in simp_all)
qed

lemmas conn_ops = UnregisterConnection_def TouchReplicaConnections_def PurgeStaleConnections_def
  ClearReplicaConnections_def

definition conns_inv :: "tables \<Rightarrow> bool" where
  "conns_inv t \<longleftrightarrow> distinct (map (\<lambda>c. (c_replica c, c_conn c)) (conns_tbl t)) \<and>
     (\<forall>c \<in> set (conns_tbl t). service_exists t (c_service c))"

lemma service_exists_conns [simp]:
  "service_exists (t\<lparr>conns_tbl := x\<rparr>) sid = service_exists t sid"
  by (simp add: service_exists_def find_service_def)

lemma conns_inv_filter: "conns_inv t \<Longrightarrow> conns_inv (t\<lparr>conns_tbl := filter p (conns_tbl t)\<rparr>)"
  by (simp add: conns_inv_def distinct_map_filter)

lemma conns_inv_touch:
  "conns_inv t \<Longrightarrow> conns_inv (t\<lparr>conns_tbl := update_where p (\<lambda>c. c\<lparr>c_updated := x\<rparr>) (conns_tbl t)\<rparr>)"
  by (auto simp: conns_inv_def in_set_update_where)

lemma preserves_conns [pres]:
  "preserves (\<lambda>t _. conns_inv t) (RegisterConnection sid rid cid peer)"
  "preserves (\<lambda>t _. conns_inv t) (UnregisterConnection rid cid)"
  "preserves (\<lambda>t _. conns_inv t) (TouchReplicaConnections rid)"
  "preserves (\<lambda>t _. conns_inv t) (PurgeStaleConnections ttl)"
  "preserves (\<lambda>t _. conns_inv t) (ClearReplicaConnections rid)"
proof -
  show "preserves (\<lambda>t _. conns_inv t) (RegisterConnection sid rid cid peer)"
  proof (rule preservesI)
    fix d r d'
    assume inv: "conns_inv (tbl d)" and "RegisterConnection sid rid cid peer d = (r, d')"
    from this(2) show "conns_inv (tbl d') \<and> seqs d \<le> seqs d'"
    proof (cases rule: RegisterConnection_cases)
      case (added row)
      with inv show ?thesis by (auto simp: conns_inv_def is_conn_def)
    qed (use inv conns_inv_touch in auto)
  qed
  show "preserves (\<lambda>t _. conns_inv t) (UnregisterConnection rid cid)"
    and "preserves (\<lambda>t _. conns_inv t) (TouchReplicaConnections rid)"
    and "preserves (\<lambda>t _. conns_inv t) (PurgeStaleConnections ttl)"
    and "preserves (\<lambda>t _. conns_inv t) (ClearReplicaConnections rid)"
    unfolding conn_ops
    by (intro preserves_conn_stmt conns_inv_filter conns_inv_touch; assumption)+
qed

section \<open>Counting\<close>

text \<open>A purge with the same time to live never changes a count: it removes only stale rows.\<close>

lemma purge_active_count:
  assumes "PurgeStaleConnections ttl d = (r, d')"
  shows "active_count (tbl d') (clock d) sid ttl = active_count (tbl d) (clock d) sid ttl"
  using assms unfolding PurgeStaleConnections_def
proof (cases rule: conn_stmt_cases)
  case ran
  have "filter (\<lambda>c. c_service c = sid \<and> live_conn (clock d) ttl c)
      (filter (\<lambda>c. \<not> c_updated c < ttl_limit (clock d) ttl) (conns_tbl (tbl d))) =
    filter (\<lambda>c. c_service c = sid \<and> live_conn (clock d) ttl c) (conns_tbl (tbl d))"
    unfolding filter_filter by (rule filter_cong) (auto simp: live_conn_def)
  with ran show ?thesis by (simp add: active_count_def)
qed (simp add: active_count_def)

text \<open>A heartbeat makes every row of the replica live, for any positive time to live.\<close>

lemma touch_live:
  assumes "TouchReplicaConnections rid d = (Inr (), d')" and "c \<in> set (conns_tbl (tbl d'))"
    and "c_replica c = rid" and "now - clock d < ttl * 1000000"
  shows "live_conn now ttl c"
  using assms(1) unfolding TouchReplicaConnections_def
proof (cases rule: conn_stmt_cases)
  case ran
  have "conns_tbl (tbl d') = update_where (\<lambda>c. c_replica c = rid)
      (\<lambda>c. c\<lparr>c_updated := clock d\<rparr>) (conns_tbl (tbl d))"
    using ran(4) by simp
  with assms(2) have c: "c \<in> set (update_where (\<lambda>c. c_replica c = rid)
      (\<lambda>c. c\<lparr>c_updated := clock d\<rparr>) (conns_tbl (tbl d)))" by (simp only:)
  have "c_updated c = clock d"
    using c
  proof (cases rule: in_set_update_whereE)
    case (hit x)
    show ?thesis unfolding hit(3) by simp
  next
    case same
    with assms(3) show ?thesis by simp
  qed
  with assms(4) show ?thesis by (simp add: live_conn_def ttl_limit_def)
qed simp

lemma reads_only_connections [simp]:
  "reads_only (ActiveConnections sid ttl)" "reads_only (ActiveConnectionsAll ttl)"
  "reads_only (ListConnectionClients sid ttl)"
  by (simp_all add: ActiveConnections_def ActiveConnectionsAll_def ListConnectionClients_def)

end
