(* ===== verification/Store.thy ===== *)
theory Store
  imports Store_History Store_Users Store_Audit Store_Connections
begin

text \<open>
  \<open>internal/store\<close> as a whole: the operations that change the tables, as one data type; the
  invariant of all tables (unique keys, foreign keys, checks, version logs), and the states
  that the store can reach by its operations while the clock runs, notifications are
  delivered and statements fail.
\<close>

section \<open>The invariant of all tables\<close>

definition vars_inv :: "tables \<Rightarrow> bool" where
  "vars_inv t \<longleftrightarrow> distinct (map (\<lambda>v. (v_service v, v_key v)) (variables_tbl t)) \<and>
     (\<forall>v \<in> set (variables_tbl t). service_exists t (v_service v)) \<and>
     (\<forall>x \<in> set (versions_tbl t). service_exists t (vv_service x) \<and> change_ok (vv_change x))"

definition access_inv :: "tables \<Rightarrow> bool" where
  "access_inv t \<longleftrightarrow>
     distinct (map (\<lambda>p. (p_user p, p_service p)) (perms_tbl t)) \<and>
     (\<forall>p \<in> set (perms_tbl t). user_exists t (p_user p) \<and> service_exists t (p_service p) \<and>
        level_ok (p_level p)) \<and>
     distinct (favs_tbl t) \<and>
     (\<forall>f \<in> set (favs_tbl t). user_exists t (fst f) \<and> service_exists t (snd f)) \<and>
     distinct (map t_hash (tokens_tbl t)) \<and>
     (\<forall>x \<in> set (tokens_tbl t). user_exists t (t_user x))"

definition store_inv :: tinv where
  "store_inv t s \<longleftrightarrow> services_inv t s \<and> users_inv t s \<and> audit_inv t s \<and>
     log_inv t \<and> vars_inv t \<and> access_inv t \<and> conns_inv t"

lemmas table_invs = services_inv_def users_inv_def audit_inv_def log_inv_def vars_inv_def
  access_inv_def conns_inv_def key_history_def find_variable_def
  service_exists_def find_service_def user_exists_def find_user_def

lemma store_inv_mono: "seq_mono store_inv"
  using services_inv_mono users_inv_mono audit_inv_mono
  by (auto simp: seq_mono_def store_inv_def)

lemma store_inv_init: "store_inv (tbl (init_db le like)) (seqs (init_db le like))"
  using log_inv_empty
  by (simp add: store_inv_def init_db_def services_inv_def users_inv_def audit_inv_def vars_inv_def
      access_inv_def conns_inv_def empty_tables_def)

section \<open>Changes of one table\<close>

text \<open>
  A change of one table keeps the invariants that do not speak of it. What the others need
  is a premise.
\<close>

lemma store_inv_only:
  assumes inv: "store_inv t s" and le: "s \<le> s'"
  shows only_conns: "conns_inv (t\<lparr>conns_tbl := cs\<rparr>) \<Longrightarrow> store_inv (t\<lparr>conns_tbl := cs\<rparr>) s'"
    and only_audit: "audit_inv (t\<lparr>audit_tbl := as\<rparr>) s' \<Longrightarrow> store_inv (t\<lparr>audit_tbl := as\<rparr>) s'"
    and only_settings: "store_inv (t\<lparr>settings_row := st\<rparr>) s'"
    and only_perms: "access_inv (t\<lparr>perms_tbl := ps\<rparr>) \<Longrightarrow> store_inv (t\<lparr>perms_tbl := ps\<rparr>) s'"
    and only_favs: "access_inv (t\<lparr>favs_tbl := fs\<rparr>) \<Longrightarrow> store_inv (t\<lparr>favs_tbl := fs\<rparr>) s'"
    and only_tokens: "access_inv (t\<lparr>tokens_tbl := ts\<rparr>) \<Longrightarrow> store_inv (t\<lparr>tokens_tbl := ts\<rparr>) s'"
    and only_nothing: "store_inv t s'"
proof -
  have "store_inv t s'" using store_inv_mono inv le by (auto simp: seq_mono_def)
  then show "store_inv t s'" .
  then have parts: "services_inv t s'" "users_inv t s'" "audit_inv t s'" "log_inv t" "vars_inv t"
    "access_inv t" "conns_inv t" by (simp_all add: store_inv_def)
  show "conns_inv (t\<lparr>conns_tbl := cs\<rparr>) \<Longrightarrow> store_inv (t\<lparr>conns_tbl := cs\<rparr>) s'"
    using parts by (simp add: store_inv_def table_invs)
  show "audit_inv (t\<lparr>audit_tbl := as\<rparr>) s' \<Longrightarrow> store_inv (t\<lparr>audit_tbl := as\<rparr>) s'"
    using parts by (simp add: store_inv_def table_invs)
  show "store_inv (t\<lparr>settings_row := st\<rparr>) s'"
    using parts by (simp add: store_inv_def table_invs)
  show "access_inv (t\<lparr>perms_tbl := ps\<rparr>) \<Longrightarrow> store_inv (t\<lparr>perms_tbl := ps\<rparr>) s'"
    using parts by (simp add: store_inv_def table_invs)
  show "access_inv (t\<lparr>favs_tbl := fs\<rparr>) \<Longrightarrow> store_inv (t\<lparr>favs_tbl := fs\<rparr>) s'"
    using parts by (simp add: store_inv_def table_invs)
  show "access_inv (t\<lparr>tokens_tbl := ts\<rparr>) \<Longrightarrow> store_inv (t\<lparr>tokens_tbl := ts\<rparr>) s'"
    using parts by (simp add: store_inv_def table_invs)
qed

lemma refs_grow:
  assumes "\<And>x. service_exists t x \<Longrightarrow> service_exists t' x" and "\<And>x. user_exists t x \<Longrightarrow> user_exists t' x"
    and "variables_tbl t' = variables_tbl t" "versions_tbl t' = versions_tbl t"
      "perms_tbl t' = perms_tbl t" "favs_tbl t' = favs_tbl t" "tokens_tbl t' = tokens_tbl t"
      "conns_tbl t' = conns_tbl t"
  shows "vars_inv t \<Longrightarrow> vars_inv t'" and "access_inv t \<Longrightarrow> access_inv t'" and "conns_inv t \<Longrightarrow> conns_inv t'"
  using assms by (auto simp: vars_inv_def access_inv_def conns_inv_def)

lemma only_services:
  assumes inv: "store_inv t s" and le: "s \<le> s'" and sv: "services_inv (t\<lparr>services_tbl := ss\<rparr>) s'"
    and ids: "s_id ` set (services_tbl t) \<subseteq> s_id ` set ss"
  shows "store_inv (t\<lparr>services_tbl := ss\<rparr>) s'"
proof -
  have parts: "store_inv t s'" using only_nothing [OF inv le] .
  let ?t = "t\<lparr>services_tbl := ss\<rparr>"
  have "service_exists ?t x" if "service_exists t x" for x
    using that ids by (auto simp: service_exists_iff)
  moreover have "user_exists ?t x" if "user_exists t x" for x
    using that by (simp add: user_exists_iff)
  ultimately have "vars_inv ?t" "access_inv ?t" "conns_inv ?t"
    using refs_grow [of t ?t] parts by (simp_all add: store_inv_def)
  with parts sv show ?thesis
    by (simp add: store_inv_def) (simp add: users_inv_def audit_inv_def)
qed

lemma only_users:
  assumes inv: "store_inv t s" and le: "s \<le> s'" and us: "users_inv (t\<lparr>users_tbl := us\<rparr>) s'"
    and ids: "u_id ` set (users_tbl t) \<subseteq> u_id ` set us"
  shows "store_inv (t\<lparr>users_tbl := us\<rparr>) s'"
proof -
  have parts: "store_inv t s'" using only_nothing [OF inv le] .
  let ?t = "t\<lparr>users_tbl := us\<rparr>"
  have "user_exists ?t x" if "user_exists t x" for x
    using that ids by (auto simp: user_exists_iff)
  moreover have "service_exists ?t x" if "service_exists t x" for x
    using that by (simp add: service_exists_iff)
  ultimately have "vars_inv ?t" "access_inv ?t" "conns_inv ?t"
    using refs_grow [of t ?t] parts by (simp_all add: store_inv_def)
  moreover have "log_inv ?t" by (rule log_inv_cong [of t]) (use parts in \<open>simp_all add: store_inv_def\<close>)
  ultimately show ?thesis using parts us
    by (simp add: store_inv_def) (simp add: services_inv_def audit_inv_def)
qed

lemma only_vars:
  assumes inv: "store_inv t s" and le: "s \<le> s'"
    and vs: "log_inv (t\<lparr>variables_tbl := vs, versions_tbl := xs\<rparr>)"
      "vars_inv (t\<lparr>variables_tbl := vs, versions_tbl := xs\<rparr>)"
  shows "store_inv (t\<lparr>variables_tbl := vs, versions_tbl := xs\<rparr>) s'"
proof -
  have "store_inv t s'" using only_nothing [OF inv le] .
  with vs show ?thesis
    by (simp add: store_inv_def) (simp add: services_inv_def users_inv_def audit_inv_def
        access_inv_def conns_inv_def user_exists_iff)
qed

lemma store_inv_cascade:
  assumes "store_inv t s"
  shows "store_inv (cascade_service sid t) s"
proof -
  have "user_exists (cascade_service sid t) x = user_exists t x" for x
    by (simp add: user_exists_iff cascade_service_def)
  moreover have "users_inv (cascade_service sid t) s" "audit_inv (cascade_service sid t) s"
    using assms by (simp_all add: store_inv_def users_inv_def audit_inv_def cascade_service_def)
  moreover have "distinct (map g (filter p rows))" if "distinct (map g rows)" for g p and rows :: "'z list"
    using that by (rule distinct_map_filter)
  ultimately show ?thesis
    using assms services_inv_cascade log_inv_cascade
    unfolding store_inv_def vars_inv_def access_inv_def conns_inv_def
    by (simp add: distinct_map_filter) (simp add: cascade_service_def distinct_map_filter)
qed

section \<open>Every operation keeps the invariant\<close>

lemma distinct_put_row:
  assumes "distinct (map (\<lambda>v. (v_service v, v_key v)) vs)"
  shows "distinct (map (\<lambda>v. (v_service v, v_key v)) (put_row v vs))"
proof (cases "\<exists>x \<in> set vs. is_var (v_service v) (v_key v) x")
  case True
  have "map (\<lambda>v. (v_service v, v_key v)) (update_where (is_var (v_service v) (v_key v)) (\<lambda>_. v) vs) =
      map (\<lambda>v. (v_service v, v_key v)) vs"
    by (rule map_update_where) (simp add: is_var_def)
  with True assms show ?thesis by (simp add: put_row_def)
next
  case False
  with assms show ?thesis by (auto simp: put_row_def is_var_def)
qed

lemma set_put_row: "x \<in> set (put_row v vs) \<Longrightarrow> x = v \<or> x \<in> set vs"
  by (auto simp: put_row_def elim!: in_set_update_whereE split: if_splits)

lemma wrote_vars_inv:
  assumes "vars_inv t" and w: "wrote t s sid key val ct now who v t' s'" and "change_ok ct"
  shows "vars_inv t'"
proof -
  have t': "t' = t\<lparr>variables_tbl := put_row v (variables_tbl t), versions_tbl := versions_tbl t @
      [version_row (s VersionsSeq) sid key val (v_version v) ct now who]\<rparr>"
    and v: "v_service v = sid" "service_exists t sid"
    using w by (simp_all add: wrote_def is_var_def)
  show ?thesis
    using assms(1,3) v
    by (auto simp: t' vars_inv_def distinct_put_row version_row_def dest: set_put_row)
qed

lemma removed_vars_inv:
  assumes "vars_inv t" and "removed t s sid key old now who ver t' s'"
  shows "vars_inv t'"
  using assms by (auto simp: removed_def vars_inv_def version_row_def distinct_map_filter)

lemma wrote_store_inv:
  assumes inv: "store_inv t s" and w: "wrote t s sid key val ct now who v t' s'"
    and step: "key_step (find_variable t sid key \<noteq> None) ct True"
  shows "store_inv t' s'"
proof -
  have t': "t' = t\<lparr>variables_tbl := put_row v (variables_tbl t), versions_tbl := versions_tbl t @
      [version_row (s VersionsSeq) sid key val (v_version v) ct now who]\<rparr>"
    and s': "s' = s(VariablesSeq := s VariablesSeq + 1, VersionsSeq := s VersionsSeq + 1)"
    using w by (simp_all add: wrote_def)
  have le: "s \<le> s'" by (simp add: s' le_fun_def)
  have ct: "change_ok ct" using step by (auto simp: key_step_simps)
  have "log_inv t" "vars_inv t" using inv by (simp_all add: store_inv_def)
  then show ?thesis
    using wrote_log_inv [OF _ w step] wrote_vars_inv [OF _ w ct] only_vars [OF inv le]
    by (simp add: t')
qed

lemma removed_store_inv:
  assumes inv: "store_inv t s" and w: "removed t s sid key old now who ver t' s'"
  shows "store_inv t' s'"
proof -
  have le: "s \<le> s'" using w by (simp add: removed_def le_fun_def)
  have "log_inv t'" "vars_inv t'"
    using inv removed_log_inv [OF _ w] removed_vars_inv [OF _ w] by (simp_all add: store_inv_def)
  with only_vars [OF inv le] w show ?thesis by (simp add: removed_def)
qed

lemma upsert_body_store_inv:
  assumes "store_inv (tbl d) (seqs d)" and run: "upsert_body sid key val who d = (Inr ch, d')"
  shows "store_inv (tbl d') (seqs d')"
  using wrote_store_inv [OF assms(1)] upsert_body_wrote [OF run]
    upsert_step [of "find_variable (tbl d) sid key \<noteq> None"]
  by (cases "find_variable (tbl d) sid key") auto

lemma bulk_loop_store_inv:
  "store_inv (tbl d) (seqs d) \<Longrightarrow> bulk_loop sid kv who out d = (Inr chs, d') \<Longrightarrow>
     store_inv (tbl d') (seqs d')"
  by (induction sid kv who out arbitrary: d rule: bulk_loop.induct)
    (auto elim!: bind_InrE dest: upsert_body_store_inv)

lemma preserves_variables [pres]:
  "preserves store_inv (UpsertVariable sid key val who)"
  "preserves store_inv (BulkUpsertVariables sid kv who)"
  "preserves store_inv (DeleteVariable sid key who)"
  "preserves store_inv (RollbackVariable sid key n who)"
proof -
  show "preserves store_inv (UpsertVariable sid key val who)"
    unfolding UpsertVariable_def
    by (intro preserves_tx_whole store_inv_mono grows_upsert_body) (rule upsert_body_store_inv)
  show "preserves store_inv (BulkUpsertVariables sid kv who)"
    unfolding BulkUpsertVariables_def
    by (intro preserves_tx_whole store_inv_mono grows_bulk_loop) (rule bulk_loop_store_inv)
  show "preserves store_inv (DeleteVariable sid key who)"
    unfolding DeleteVariable_def
    by (intro preserves_tx_whole store_inv_mono grows_delete_body)
      (use delete_body_removed removed_store_inv in blast)
  show "preserves store_inv (RollbackVariable sid key n who)"
    unfolding RollbackVariable_def
    by (intro preserves_tx_whole store_inv_mono grows_rollback_body)
      (use rollback_body_wrote wrote_store_inv key_step.rollback in blast)
qed

lemma preserves_services [pres]:
  "preserves store_inv (CreateService key name desc who)"
  "preserves store_inv (UpdateServiceTags sid tags)"
  "preserves store_inv (DeleteService sid)"
proof -
  show "preserves store_inv (CreateService key name desc who)"
  proof (rule preservesI)
    fix d r d'
    assume inv: "store_inv (tbl d) (seqs d)" and run: "CreateService key name desc who d = (r, d')"
    from preservesD [OF preserves_CreateService_services run] inv
    have sv: "services_inv (tbl d') (seqs d')" and le: "seqs d \<le> seqs d'" by (simp_all add: store_inv_def)
    show "store_inv (tbl d') (seqs d') \<and> seqs d \<le> seqs d'"
    proof (cases r)
      case (Inl e)
      with run have "tbl d' = tbl d" by (simp add: CreateService_error)
      with only_nothing [OF inv le] le show ?thesis by simp
    next
      case (Inr svc)
      with run have t': "tbl d' = (tbl d)\<lparr>services_tbl := services_tbl (tbl d) @ [svc]\<rparr>"
        by (simp add: CreateService_result)
      have "store_inv (tbl d') (seqs d')"
        unfolding t' by (rule only_services [OF inv le]) (use sv t' in auto)
      with le show ?thesis by simp
    qed
  qed
  show "preserves store_inv (UpdateServiceTags sid tags)"
  proof (rule preservesI)
    fix d r d'
    assume inv: "store_inv (tbl d) (seqs d)" and run: "UpdateServiceTags sid tags d = (r, d')"
    from preservesD [OF preserves_UpdateServiceTags_services run] inv
    have sv: "services_inv (tbl d') (seqs d')" by (simp add: store_inv_def)
    from run show "store_inv (tbl d') (seqs d') \<and> seqs d \<le> seqs d'"
    proof (cases rule: UpdateServiceTags_cases)
      case updated
      have "s_id ` set (services_tbl (tbl d)) \<subseteq>
          s_id ` set (update_where (\<lambda>s. s_id s = sid) (\<lambda>s. s\<lparr>s_tags := tags\<rparr>) (services_tbl (tbl d)))"
        by (subst image_update_where) simp_all
      from only_services [OF inv order_refl _ this] sv updated show ?thesis by simp
    qed (use inv in simp_all)
  qed
  show "preserves store_inv (DeleteService sid)"
    by (rule preservesI, erule DeleteService_cases) (simp_all add: store_inv_cascade)
qed

lemma preserves_users [pres]:
  "preserves store_inv (UpsertUserOnLogin subject email name b)"
  "preserves store_inv (SetUserRole uid role)"
proof -
  show "preserves store_inv (UpsertUserOnLogin subject email name b)"
  proof (rule preservesI)
    fix d r d'
    assume inv: "store_inv (tbl d) (seqs d)" and run: "UpsertUserOnLogin subject email name b d = (r, d')"
    from preservesD [OF preserves_UpsertUserOnLogin_users run] inv
    have us: "users_inv (tbl d') (seqs d')" and le: "seqs d \<le> seqs d'" by (simp_all add: store_inv_def)
    from run show "store_inv (tbl d') (seqs d') \<and> seqs d \<le> seqs d'"
    proof (cases rule: UpsertUserOnLogin_cases)
      case (failed e)
      with only_nothing [OF inv le] le show ?thesis by simp
    next
      case (updated old new)
      have old: "old \<in> set (users_tbl (tbl d))" "u_subject old = subject"
        using find_SomeD [OF updated(2)] by auto
      have "u = old" if "u \<in> set (users_tbl (tbl d))" "u_subject u = subject" for u
        using inv old that by (auto simp: store_inv_def users_inv_def distinct_map inj_on_def)
      then have "u_id ` set (users_tbl (tbl d)) \<subseteq>
          u_id ` set (update_where (\<lambda>u. u_subject u = subject) (\<lambda>_. new) (users_tbl (tbl d)))"
        using updated(3) by (subst image_update_where) simp_all
      from only_users [OF inv le _ this] us le updated(5) show ?thesis by simp
    next
      case (created new)
      have "u_id ` set (users_tbl (tbl d)) \<subseteq> u_id ` set (users_tbl (tbl d) @ [new])" by auto
      from only_users [OF inv le _ this] us le created(8) show ?thesis by simp
    qed
  qed
  show "preserves store_inv (SetUserRole uid role)"
  proof (rule preservesI)
    fix d r d'
    assume inv: "store_inv (tbl d) (seqs d)" and run: "SetUserRole uid role d = (r, d')"
    from preservesD [OF preserves_SetUserRole_users run] inv
    have us: "users_inv (tbl d') (seqs d')" by (simp add: store_inv_def)
    from run show "store_inv (tbl d') (seqs d') \<and> seqs d \<le> seqs d'"
    proof (cases rule: SetUserRole_cases)
      case updated
      have "u_id ` set (users_tbl (tbl d)) \<subseteq>
          u_id ` set (update_where (\<lambda>u. u_id u = uid) (\<lambda>u. u\<lparr>u_role := role\<rparr>) (users_tbl (tbl d)))"
        by (subst image_update_where) simp_all
      from only_users [OF inv order_refl _ this] us updated show ?thesis by simp
    qed (use inv in simp_all)
  qed
qed

text \<open>Permissions, favorites and tokens.\<close>

lemma exists_access [simp]:
  "service_exists (t\<lparr>perms_tbl := ps\<rparr>) x = service_exists t x" "user_exists (t\<lparr>perms_tbl := ps\<rparr>) x = user_exists t x"
  "service_exists (t\<lparr>favs_tbl := fs\<rparr>) x = service_exists t x" "user_exists (t\<lparr>favs_tbl := fs\<rparr>) x = user_exists t x"
  "service_exists (t\<lparr>tokens_tbl := ts\<rparr>) x = service_exists t x" "user_exists (t\<lparr>tokens_tbl := ts\<rparr>) x = user_exists t x"
  by (simp_all add: service_exists_iff user_exists_iff)

lemma access_inv_perms_update:
  assumes "access_inv t" and "level_ok level"
  shows "access_inv (t\<lparr>perms_tbl := update_where p (\<lambda>p. p\<lparr>p_level := level\<rparr>) (perms_tbl t)\<rparr>)"
  using assms by (auto simp: access_inv_def elim!: in_set_update_whereE)

lemma access_inv_perms_add:
  assumes "access_inv t" and "level_ok (p_level row)" and "level_of t (p_user row) (p_service row) = None"
    and "user_exists t (p_user row)" and "service_exists t (p_service row)"
  shows "access_inv (t\<lparr>perms_tbl := perms_tbl t @ [row]\<rparr>)"
  using assms by (auto simp: access_inv_def level_of_def find_eq_None)

lemma access_inv_filters:
  assumes "access_inv t"
  shows "access_inv (t\<lparr>perms_tbl := filter p (perms_tbl t)\<rparr>)"
    and "access_inv (t\<lparr>favs_tbl := filter q (favs_tbl t)\<rparr>)"
    and "access_inv (t\<lparr>tokens_tbl := filter r (tokens_tbl t)\<rparr>)"
  using assms by (simp_all add: access_inv_def distinct_map_filter)

lemma access_inv_token_touch:
  assumes "access_inv t"
  shows "access_inv (t\<lparr>tokens_tbl := update_where p (\<lambda>x. x\<lparr>t_last_used := y\<rparr>) (tokens_tbl t)\<rparr>)"
  using assms by (auto simp: access_inv_def elim!: in_set_update_whereE)

lemma store_inv_access: "store_inv t s \<Longrightarrow> access_inv t"
  by (simp add: store_inv_def)

lemma preserves_access [pres]:
  "preserves store_inv (SetPermission uid sid level)"
  "preserves store_inv (RevokePermission uid sid)"
  "preserves store_inv (AddFavorite uid sid)"
  "preserves store_inv (RemoveFavorite uid sid)"
  "preserves store_inv (CreateAPIToken uid name h)"
  "preserves store_inv (DeleteAPIToken uid tid)"
  "preserves store_inv (UserByAPIToken h)"
  "preserves store_inv (SaveTelegramSettings st)"
proof -
  show "preserves store_inv (SetPermission uid sid level)"
  proof (rule preservesI)
    fix d r d'
    assume inv: "store_inv (tbl d) (seqs d)" and "SetPermission uid sid level d = (r, d')"
    note acc = store_inv_access [OF inv]
    from \<open>SetPermission uid sid level d = (r, d')\<close>
    show "store_inv (tbl d') (seqs d') \<and> seqs d \<le> seqs d'"
    proof (cases rule: SetPermission_cases)
      case (failed e)
      with only_nothing [OF inv] show ?thesis by simp
    next
      case updated
      have le: "seqs d \<le> seqs d'" unfolding updated(5) by (rule seq_grow)
      have "store_inv (tbl d') (seqs d')"
        unfolding updated(4) by (rule only_perms [OF inv le access_inv_perms_update [OF acc updated(2)]])
      with le show ?thesis by simp
    next
      case (granted row)
      have le: "seqs d \<le> seqs d'" unfolding granted(8) by (rule seq_grow)
      have "access_inv ((tbl d)\<lparr>perms_tbl := perms_tbl (tbl d) @ [row]\<rparr>)"
        by (rule access_inv_perms_add [OF acc]) (use granted in simp_all)
      then have "store_inv (tbl d') (seqs d')"
        unfolding granted(7) by (rule only_perms [OF inv le])
      with le show ?thesis by simp
    qed
  qed
  show "preserves store_inv (RevokePermission uid sid)"
    by (rule preservesI, erule RevokePermission_cases)
      (simp_all add: only_perms access_inv_filters store_inv_access)
  show "preserves store_inv (AddFavorite uid sid)"
  proof (rule preservesI)
    fix d r d'
    assume inv: "store_inv (tbl d) (seqs d)" and run: "AddFavorite uid sid d = (r, d')"
    from run show "store_inv (tbl d') (seqs d') \<and> seqs d \<le> seqs d'"
    proof (cases rule: AddFavorite_cases)
      case added
      have "access_inv ((tbl d)\<lparr>favs_tbl := favs_tbl (tbl d) @ [(uid, sid)]\<rparr>)"
        using store_inv_access [OF inv] added(2,4,5) by (auto simp: access_inv_def)
      from only_favs [OF inv order_refl this] added show ?thesis by simp
    qed (use inv in simp_all)
  qed
  show "preserves store_inv (RemoveFavorite uid sid)"
    by (rule preservesI, erule RemoveFavorite_cases)
      (simp_all add: only_favs access_inv_filters store_inv_access)
  show "preserves store_inv (CreateAPIToken uid name h)"
  proof (rule preservesI)
    fix d r d'
    assume inv: "store_inv (tbl d) (seqs d)" and run: "CreateAPIToken uid name h d = (r, d')"
    from run show "store_inv (tbl d') (seqs d') \<and> seqs d \<le> seqs d'"
    proof (cases rule: CreateAPIToken_cases)
      case (failed e)
      with only_nothing [OF inv] show ?thesis by simp
    next
      case (created row)
      have le: "seqs d \<le> seqs d'" unfolding created(10) by (rule seq_grow)
      have "access_inv ((tbl d)\<lparr>tokens_tbl := tokens_tbl (tbl d) @ [row]\<rparr>)"
        using store_inv_access [OF inv] created(2,3,7,8) by (auto simp: access_inv_def)
      then have "store_inv (tbl d') (seqs d')"
        unfolding created(9) by (rule only_tokens [OF inv le])
      with le show ?thesis by simp
    qed
  qed
  show "preserves store_inv (DeleteAPIToken uid tid)"
    by (rule preservesI, erule DeleteAPIToken_cases)
      (simp_all add: only_tokens access_inv_filters store_inv_access)
  show "preserves store_inv (UserByAPIToken h)"
    by (rule preservesI, erule UserByAPIToken_cases)
      (simp_all add: only_tokens access_inv_token_touch store_inv_access)
  show "preserves store_inv (SaveTelegramSettings st)"
    by (rule preservesI, erule SaveTelegramSettings_cases) (simp_all add: only_settings)
qed

text \<open>The audit log and the connections.\<close>

lemma preserves_audit [pres]:
  "preserves store_inv (InsertAudit actor action target details)"
  "preserves store_inv (PruneAudit keep)"
proof -
  have step: "store_inv (tbl d') (seqs d') \<and> seqs d \<le> seqs d'"
    if inv: "store_inv (tbl d) (seqs d)" and m: "preserves audit_inv m" and run: "m d = (r, d')"
      and t': "tbl d' = tbl d \<or> (\<exists>as. tbl d' = (tbl d)\<lparr>audit_tbl := as\<rparr>)"
    for m :: "'x dbm" and d r d'
  proof -
    from preservesD [OF m run] inv
    have a: "audit_inv (tbl d') (seqs d')" and le: "seqs d \<le> seqs d'" by (simp_all add: store_inv_def)
    from t' have "store_inv (tbl d') (seqs d')"
    proof
      assume "tbl d' = tbl d"
      with only_nothing [OF inv le] show ?thesis by simp
    next
      assume "\<exists>as. tbl d' = (tbl d)\<lparr>audit_tbl := as\<rparr>"
      with only_audit [OF inv le] a show ?thesis by auto
    qed
    with le show ?thesis by simp
  qed
  show "preserves store_inv (InsertAudit actor action target details)"
    by (intro preservesI, rule step [OF _ preserves_InsertAudit_audit], assumption+,
        erule InsertAudit_cases) blast+
  show "preserves store_inv (PruneAudit keep)"
    by (intro preservesI, rule step [OF _ preserves_PruneAudit_audit], assumption+,
        erule PruneAudit_cases) blast+
qed

lemma preserves_connections [pres]:
  "preserves store_inv (RegisterConnection sid rid cid peer)"
  "preserves store_inv (UnregisterConnection rid cid)"
  "preserves store_inv (TouchReplicaConnections rid)"
  "preserves store_inv (PurgeStaleConnections ttl)"
  "preserves store_inv (ClearReplicaConnections rid)"
proof -
  have lift: "preserves store_inv (conn_stmt g)"
    if "preserves (\<lambda>t _. conns_inv t) (conn_stmt g)" for g
  proof (rule preservesI)
    fix d r d'
    assume inv: "store_inv (tbl d) (seqs d)" and run: "conn_stmt g d = (r, d')"
    from preservesD [OF that run] inv have c: "conns_inv (tbl d')" by (simp add: store_inv_def)
    from run show "store_inv (tbl d') (seqs d') \<and> seqs d \<le> seqs d'"
    proof (cases rule: conn_stmt_cases)
      case fault
      with inv show ?thesis by simp
    next
      case ran
      from only_conns [OF inv order_refl] c ran show ?thesis by simp
    qed
  qed
  show "preserves store_inv (RegisterConnection sid rid cid peer)"
  proof (rule preservesI)
    fix d r d'
    assume inv: "store_inv (tbl d) (seqs d)" and run: "RegisterConnection sid rid cid peer d = (r, d')"
    from preservesD [OF preserves_conns(1) run] inv
    have c: "conns_inv (tbl d')" and le: "seqs d \<le> seqs d'" by (simp_all add: store_inv_def)
    from run show "store_inv (tbl d') (seqs d') \<and> seqs d \<le> seqs d'"
    proof (cases rule: RegisterConnection_cases)
      case (failed e)
      with only_nothing [OF inv le] le show ?thesis by simp
    next
      case updated
      with only_conns [OF inv le] c le show ?thesis by simp
    next
      case (added row)
      with only_conns [OF inv le] c le show ?thesis by simp
    qed
  qed
  show "preserves store_inv (UnregisterConnection rid cid)"
    using preserves_conns(2) unfolding conn_ops by (rule lift)
  show "preserves store_inv (TouchReplicaConnections rid)"
    using preserves_conns(3) unfolding conn_ops by (rule lift)
  show "preserves store_inv (PurgeStaleConnections ttl)"
    using preserves_conns(4) unfolding conn_ops by (rule lift)
  show "preserves store_inv (ClearReplicaConnections rid)"
    using preserves_conns(5) unfolding conn_ops by (rule lift)
qed

section \<open>Reachable states\<close>

datatype store_op =
    OpCreateService string string string string
  | OpUpdateServiceTags int "string list"
  | OpDeleteService int
  | OpUpsertVariable int string string string
  | OpBulkUpsertVariables int "(string \<times> string) list" string
  | OpDeleteVariable int string string
  | OpRollbackVariable int string int string
  | OpUpsertUserOnLogin string string string string
  | OpSetUserRole int string
  | OpSetPermission int int string
  | OpRevokePermission int int
  | OpAddFavorite int int
  | OpRemoveFavorite int int
  | OpCreateAPIToken int string string
  | OpDeleteAPIToken int int
  | OpUserByAPIToken string
  | OpSaveTelegramSettings telegram_settings
  | OpInsertAudit string string string "(string \<times> detail) list"
  | OpPruneAudit int
  | OpRegisterConnection int string string string
  | OpUnregisterConnection string string
  | OpTouchReplicaConnections string
  | OpPurgeStaleConnections int
  | OpClearReplicaConnections string

definition ignore_result :: "'a dbm \<Rightarrow> unit dbm" where
  "ignore_result m = bind m (\<lambda>_. ret ())"

fun run_op :: "store_op \<Rightarrow> unit dbm" where
  "run_op (OpCreateService k n ds who) = ignore_result (CreateService k n ds who)"
| "run_op (OpUpdateServiceTags sid tags) = UpdateServiceTags sid tags"
| "run_op (OpDeleteService sid) = DeleteService sid"
| "run_op (OpUpsertVariable sid k v who) = ignore_result (UpsertVariable sid k v who)"
| "run_op (OpBulkUpsertVariables sid kv who) = ignore_result (BulkUpsertVariables sid kv who)"
| "run_op (OpDeleteVariable sid k who) = ignore_result (DeleteVariable sid k who)"
| "run_op (OpRollbackVariable sid k n who) = ignore_result (RollbackVariable sid k n who)"
| "run_op (OpUpsertUserOnLogin sub email name b) = ignore_result (UpsertUserOnLogin sub email name b)"
| "run_op (OpSetUserRole uid role) = SetUserRole uid role"
| "run_op (OpSetPermission uid sid level) = SetPermission uid sid level"
| "run_op (OpRevokePermission uid sid) = RevokePermission uid sid"
| "run_op (OpAddFavorite uid sid) = AddFavorite uid sid"
| "run_op (OpRemoveFavorite uid sid) = RemoveFavorite uid sid"
| "run_op (OpCreateAPIToken uid name h) = ignore_result (CreateAPIToken uid name h)"
| "run_op (OpDeleteAPIToken uid tid) = DeleteAPIToken uid tid"
| "run_op (OpUserByAPIToken h) = ignore_result (UserByAPIToken h)"
| "run_op (OpSaveTelegramSettings s) = SaveTelegramSettings s"
| "run_op (OpInsertAudit actor action target details) = InsertAudit actor action target details"
| "run_op (OpPruneAudit keep) = ignore_result (PruneAudit keep)"
| "run_op (OpRegisterConnection sid rid cid peer) = RegisterConnection sid rid cid peer"
| "run_op (OpUnregisterConnection rid cid) = UnregisterConnection rid cid"
| "run_op (OpTouchReplicaConnections rid) = TouchReplicaConnections rid"
| "run_op (OpPurgeStaleConnections ttl) = PurgeStaleConnections ttl"
| "run_op (OpClearReplicaConnections rid) = ClearReplicaConnections rid"

lemma preserves_ignore_result [pres]: "preserves P m \<Longrightarrow> preserves P (ignore_result m)"
  unfolding ignore_result_def by (intro pres)

lemma preserves_run_op: "preserves store_inv (run_op c)"
  by (cases c) (simp_all add: pres)

text \<open>
  One step of the database: an operation of the store, time passing, a delivery or a sending
  on the NOTIFY channel, or a change of what will fail next.
\<close>

inductive db_step :: "db \<Rightarrow> db \<Rightarrow> bool" where
  op: "run_op c d = (r, d') \<Longrightarrow> db_step d d'"
| tick: "0 \<le> k \<Longrightarrow> db_step d (d\<lparr>clock := clock d + k\<rparr>)"
| notify: "db_step d (d\<lparr>notifs := ns\<rparr>)"
| schedule: "db_step d (d\<lparr>faults := fs\<rparr>)"

inductive reachable :: "db \<Rightarrow> bool" where
  init: "reachable (init_db le like)"
| step: "reachable d \<Longrightarrow> db_step d d' \<Longrightarrow> reachable d'"

lemma db_step_inv: "db_step d d' \<Longrightarrow> store_inv (tbl d) (seqs d) \<Longrightarrow> store_inv (tbl d') (seqs d')"
  by (induction rule: db_step.induct) (auto dest: preservesD [OF preserves_run_op])

lemma reachable_inv: "reachable d \<Longrightarrow> store_inv (tbl d) (seqs d)"
  by (induction rule: reachable.induct) (auto simp: store_inv_init intro: db_step_inv)

end
