(* ===== verification/Store_Properties.thy ===== *)
theory Store_Properties
  imports Store
begin

text \<open>
  The properties of \<open>internal/store\<close> over reachable states, each with a witness on a small
  database that was built by the operations themselves.
\<close>

section \<open>A small database\<close>

text \<open>
  One service, one user, and a key that was created, updated, deleted and created again;
  nothing fails, the clock stands still.
\<close>

definition run_ops :: "store_op list \<Rightarrow> db \<Rightarrow> db" where
  "run_ops cs d = fold (\<lambda>c d. snd (run_op c d)) cs d"

definition demo_ops :: "store_op list" where
  "demo_ops = [OpCreateService ''svc'' ''Service'' '''' ''ann'',
     OpUpsertUserOnLogin ''sub'' ''ann@x'' ''Ann'' '''',
     OpUpsertVariable 1 ''a'' ''x'' ''ann'', OpUpsertVariable 1 ''a'' ''y'' ''ann'',
     OpDeleteVariable 1 ''a'' ''ann'', OpUpsertVariable 1 ''a'' ''z'' ''ann'']"

definition demo_db :: db where
  "demo_db = run_ops demo_ops (init_db (\<lambda>_ _. True) (\<lambda>_ _. True))"

lemma reachable_run_ops: "reachable d \<Longrightarrow> reachable (run_ops cs d)"
proof (induction cs arbitrary: d)
  case Nil
  then show ?case by (simp add: run_ops_def)
next
  case (Cons c cs)
  have "db_step d (snd (run_op c d))" by (rule db_step.op [of c d "fst (run_op c d)"]) simp
  with Cons show ?case by (simp add: run_ops_def reachable.step)
qed

lemma reachable_demo: "reachable demo_db"
  unfolding demo_db_def by (rule reachable_run_ops) (rule reachable.init)

lemma demo_room: "log_room (service_log (tbl demo_db) 1)"
  by code_simp

section \<open>Helper facts\<close>

lemma exec_cmd_others:
  assumes "exec_cmd sid c d = (Inr ch, d')" and "a \<noteq> sid"
  shows "service_log (tbl d') a = service_log (tbl d) a"
proof (cases c)
  case (Put k v who)
  with assms UpsertVariable_wrote wrote_service_log show ?thesis by fastforce
next
  case (Remove k who)
  with assms DeleteVariable_removed [of sid k who d ch d'] removed_service_log show ?thesis by fastforce
next
  case (Rollback k n who)
  with assms RollbackVariable_wrote [of sid k n who d ch d'] wrote_service_log show ?thesis by fastforce
qed

lemma exec_cmd_atomic: "exec_cmd sid c d = (Inl e, d') \<Longrightarrow> tbl d' = tbl d"
  by (cases c) (auto simp: UpsertVariable_def DeleteVariable_def RollbackVariable_def dest: tx_atomic)

lemma reachable_log: "reachable d \<Longrightarrow> log_inv (tbl d)"
  using reachable_inv by (auto simp: store_inv_def)

lemma change_number:
  assumes inv: "log_inv (tbl d)" and room: "log_room (service_log (tbl d) sid)"
    and run: "exec_cmd sid c d = (Inr ch, d')"
  shows "v_version (ch_variable ch) = next_number (service_log (tbl d) sid) (v_key (ch_variable ch))"
  using run
  by (cases c) (auto simp: next_number_service [OF inv room, symmetric] wrote_def removed_def is_var_def
      dest!: UpsertVariable_wrote DeleteVariable_removed RollbackVariable_wrote)

section \<open>Variables\<close>

text \<open>C1. A create-or-update, delete or rollback of a variable that succeeds appends to the log of
  its service exactly what the specification of the log says, and leaves every other
  service alone; one that fails leaves all tables as they were, and it fails because the
  database failed, because the service is gone, or with the error of the specification.\<close>

theorem variable_commands_refine_log:
  assumes "reachable d" and "log_room (service_log (tbl d) sid)"
  shows "case exec_cmd sid c d of
      (Inr ch, d') \<Rightarrow>
        log_step c (service_log (tbl d) sid) = Inr (service_log (tbl d') sid) \<and>
        v_version (ch_variable ch) = next_number (service_log (tbl d) sid) (v_key (ch_variable ch)) \<and>
        (\<forall>a. a \<noteq> sid \<longrightarrow> service_log (tbl d') a = service_log (tbl d) a)
    | (Inl e, d') \<Rightarrow> tbl d' = tbl d \<and>
        (e = ErrFault \<or> e = ErrForeignKey \<and> \<not> service_exists (tbl d) sid \<or>
         log_step c (service_log (tbl d) sid) = Inl e)"
  using exec_cmd_refines [OF reachable_log assms(2)] exec_cmd_error [OF reachable_log assms(2)]
    change_number [OF reachable_log assms(2)] assms(1)
  by (auto dest: exec_cmd_others exec_cmd_atomic split: prod.splits sum.splits)

theorem variable_commands_refine_log_witness:
  "case exec_cmd 1 (Rollback ''a'' 2 ''bob'') demo_db of
      (Inr ch, d') \<Rightarrow> log_step (Rollback ''a'' 2 ''bob'') (service_log (tbl demo_db) 1) =
        Inr (service_log (tbl d') 1)
    | (Inl e, d') \<Rightarrow> False"
proof -
  have "fst (exec_cmd 1 (Rollback ''a'' 2 ''bob'') demo_db) =
      Inr \<lparr>ch_variable = \<lparr>v_id = 3, v_service = 1, v_key = ''a'', v_value = ''y'', v_version = 5,
         v_updated_at = 0, v_updated_by = ''bob''\<rparr>, ch_type = ''rollback''\<rparr>"
    by code_simp
  with variable_commands_refine_log [OF reachable_demo demo_room, of "Rollback ''a'' 2 ''bob''"]
  show ?thesis by (simp split: prod.splits)
qed

text \<open>C2. In every reachable state, whatever statements failed on the way: ids, keys, subjects,
  emails, token hashes and the pairs of the access tables are unique, no foreign key dangles,
  roles, levels and change types are legal, and histories, current variables and version
  numbers agree.\<close>

theorem reachable_store_invariant:
  assumes "reachable d"
  shows "store_inv (tbl d) (seqs d)"
  by (rule reachable_inv [OF assms])

theorem reachable_store_invariant_witness: "store_inv (tbl demo_db) (seqs demo_db)"
  by (rule reachable_store_invariant [OF reachable_demo])

text \<open>C3. The current variables of a service are the replay of its version history.\<close>

theorem config_is_replay:
  assumes "reachable d"
  shows "config_of (tbl d) sid = replay (service_log (tbl d) sid)"
  using assms by (intro config_replay reachable_log)

theorem config_is_replay_witness:
  "replay (service_log (tbl demo_db) 1) ''a'' = Some ''z'' \<and> length (service_log (tbl demo_db) 1) = 4"
proof -
  have "config_of (tbl demo_db) 1 ''a'' = Some ''z''" "length (service_log (tbl demo_db) 1) = 4"
    by code_simp+
  with config_is_replay [OF reachable_demo, of 1] show ?thesis by simp
qed

text \<open>C4. A value once written can be brought back: after any further commands on the service, a
  successful rollback to the version that the write got makes the written value current.\<close>

theorem rollback_restores_value:
  assumes "reachable d" and "int (length (service_log (tbl d) sid) + length cs) + 2 < 2 ^ 63"
    and "exec_state sid (Put k v who) d = Inr d1" and "execs (exec_state sid) cs d1 = Inr d2"
    and "exec_state sid (Rollback k (next_number (service_log (tbl d) sid) k) who') d2 = Inr d3"
  shows "config_of (tbl d3) sid k = Some v"
  by (rule vs.rollback_restores [OF reachable_log [OF assms(1)] assms(2-5)])

definition small_db :: db where
  "small_db = run_ops [OpCreateService ''svc'' ''Service'' '''' ''ann''] (init_db (\<lambda>_ _. True) (\<lambda>_ _. True))"

definition small_put :: "store_error + db" where
  "small_put = exec_state 1 (Put ''b'' ''1'' ''ann'') small_db"

definition small_more :: "store_error + db" where
  "small_more = execs (exec_state 1) [Remove ''b'' ''ann''] (projr small_put)"

definition small_rollback :: "store_error + db" where
  "small_rollback = exec_state 1 (Rollback ''b'' 1 ''bob'') (projr small_more)"

theorem rollback_restores_value_witness:
  "config_of (tbl (projr small_rollback)) 1 ''b'' = Some ''1''"
proof -
  have r: "reachable small_db" unfolding small_db_def by (intro reachable_run_ops reachable.init)
  have room: "int (length (service_log (tbl small_db) 1) + length [Remove ''b'' ''ann'']) + 2 < 2 ^ 63"
    by code_simp
  have "\<not> isl small_put" by code_simp
  then have put: "exec_state 1 (Put ''b'' ''1'' ''ann'') small_db = Inr (projr small_put)"
    unfolding small_put_def [symmetric] by (rule sum.collapse(2) [symmetric])
  have "\<not> isl small_more" by code_simp
  then have more: "execs (exec_state 1) [Remove ''b'' ''ann''] (projr small_put) = Inr (projr small_more)"
    unfolding small_more_def [symmetric] by (rule sum.collapse(2) [symmetric])
  have "\<not> isl small_rollback" by code_simp
  then have "exec_state 1 (Rollback ''b'' 1 ''bob'') (projr small_more) = Inr (projr small_rollback)"
    unfolding small_rollback_def [symmetric] by (rule sum.collapse(2) [symmetric])
  moreover have "next_number (service_log (tbl small_db) 1) ''b'' = 1" by code_simp
  ultimately have "exec_state 1 (Rollback ''b'' (next_number (service_log (tbl small_db) 1) ''b'') ''bob'')
      (projr small_more) = Inr (projr small_rollback)"
    by (simp only:)
  from rollback_restores_value [OF r room put more this] show ?thesis .
qed

text \<open>C5. The bulk write is all or nothing: a failure leaves every table as it was, and a success
  reports one change per pair and overrides exactly the given keys of the one service.\<close>

theorem bulk_upsert_all_or_nothing:
  assumes "reachable d" and "distinct (map fst kv)"
    and "int (length (service_log (tbl d) sid) + length kv) < 2 ^ 63"
  shows "case BulkUpsertVariables sid kv who d of
      (Inr chs, d') \<Rightarrow> length chs = length kv \<and>
        config_of (tbl d') sid = config_of (tbl d) sid ++ map_of kv \<and>
        (\<forall>a. a \<noteq> sid \<longrightarrow> config_of (tbl d') a = config_of (tbl d) a)
    | (Inl e, d') \<Rightarrow> tbl d' = tbl d"
proof -
  note inv = reachable_log [OF assms(1)]
  have "length chs = length kv \<and> config_of (tbl d') sid = config_of (tbl d) sid ++ map_of kv \<and>
      (\<forall>a. a \<noteq> sid \<longrightarrow> config_of (tbl d') a = config_of (tbl d) a)"
    if run: "BulkUpsertVariables sid kv who d = (Inr chs, d')" for chs d'
  proof -
    have inv': "log_inv (tbl d')" using preservesD [OF preserves_BulkUpsert_log run] inv by simp
    have "service_log (tbl d') a = service_log (tbl d) a" if "a \<noteq> sid" for a
      using run that unfolding BulkUpsertVariables_def by (elim tx_InrE) (auto dest: bulk_loop_others)
    then show ?thesis
      using BulkUpsertVariables_refines [OF inv assms(3) run] replay_put_all [OF assms(2)]
      by (simp add: config_replay [OF inv] config_replay [OF inv'])
  qed
  then show ?thesis
    by (auto simp: BulkUpsertVariables_def dest: tx_atomic split: prod.splits sum.splits)
qed

theorem bulk_upsert_all_or_nothing_witness:
  "case BulkUpsertVariables 1 [(''p'', ''1''), (''a'', ''2'')] ''ann'' demo_db of
      (Inr chs, d') \<Rightarrow> config_of (tbl d') 1 ''a'' = Some ''2'' | (Inl e, d') \<Rightarrow> False"
proof -
  have "isl (fst (BulkUpsertVariables 1 [(''p'', ''1''), (''a'', ''2'')] ''ann'' demo_db)) = False"
    and "int (length (service_log (tbl demo_db) 1) + length [(''p'', ''1''), (''a'', ''2'')]) < 2 ^ 63"
    by code_simp+
  with bulk_upsert_all_or_nothing [OF reachable_demo, of "[(''p'', ''1''), (''a'', ''2'')]" 1 "''ann''"]
  show ?thesis by (auto split: prod.splits sum.splits)
qed

text \<open>When no statement fails, a write to an existing service always succeeds, and the value is
  current afterwards while every other key keeps its value.\<close>

theorem upsert_available:
  assumes "reachable d" and "faults d = []" and "service_exists (tbl d) sid"
    and "log_room (service_log (tbl d) sid)"
  shows "\<exists>ch d'. UpsertVariable sid key val who d = (Inr ch, d') \<and>
     v_value (ch_variable ch) = val \<and>
     config_of (tbl d') sid = (config_of (tbl d) sid)(key \<mapsto> val)"
proof -
  obtain r d' where run: "UpsertVariable sid key val who d = (r, d')" by fastforce
  show ?thesis
  proof (cases r)
    case (Inl e)
    have "\<exists>ch. fst (UpsertVariable sid key val who d) = Inr ch"
      using assms(2,3)
      by (simp add: UpsertVariable_def upsert_body_def variable_existed_def nextVersion_def
          write_variable_def insertVersion_def run_simps Let_def nextval_def with_tbl_def
          split: option.splits)
    with run Inl show ?thesis by simp
  next
    case (Inr ch)
    with run have ok: "UpsertVariable sid key val who d = (Inr ch, d')" by simp
    then have "exec_state sid (Put key val who) d = Inr d'" by (simp add: exec_state_def)
    from vs.current_put [OF reachable_log [OF assms(1)] assms(4) this]
    have "config_of (tbl d') sid = (config_of (tbl d) sid)(key \<mapsto> val)" .
    with ok UpsertVariable_wrote [OF ok] show ?thesis by (auto simp: wrote_def)
  qed
qed

theorem upsert_available_witness:
  "\<exists>ch d'. UpsertVariable 1 ''new'' ''v'' ''ann'' demo_db = (Inr ch, d') \<and>
     v_value (ch_variable ch) = ''v'' \<and>
     config_of (tbl d') 1 = (config_of (tbl demo_db) 1)(''new'' \<mapsto> ''v'')"
proof -
  have "faults demo_db = []" "service_exists (tbl demo_db) 1" by code_simp+
  from upsert_available [OF reachable_demo this demo_room] show ?thesis .
qed

section \<open>Services, users, audit log and connections\<close>

text \<open>All rows that belong to a service, in every table that refers to services.\<close>

definition rows_of :: "int \<Rightarrow> tables \<Rightarrow> service list \<times> variable list \<times> variable_version list \<times>
    service_permission list \<times> (int \<times> int) list \<times> connection_client list" where
  "rows_of a t = (filter (\<lambda>s. s_id s = a) (services_tbl t), filter (\<lambda>v. v_service v = a) (variables_tbl t),
     filter (\<lambda>x. vv_service x = a) (versions_tbl t), filter (\<lambda>p. p_service p = a) (perms_tbl t),
     filter (\<lambda>f. snd f = a) (favs_tbl t), filter (\<lambda>c. c_service c = a) (conns_tbl t))"

lemma rows_of_cascade:
  "rows_of a (cascade_service sid t) = (if a = sid then ([], [], [], [], [], []) else rows_of a t)"
  by (auto simp: rows_of_def cascade_service_def filter_empty_conv intro!: filter_cong)

text \<open>C6. Deleting a service removes every row that refers to it, in all tables, and changes
  nothing else: every other service keeps its rows in every table, in their order (its variables, its history,
  the levels of its users, the marks of those who favor it, its connections), and the users, the tokens, the
  audit log and the settings stay.\<close>

theorem delete_service_cascades:
  assumes "DeleteService sid d = (Inr (), d')"
  shows "\<not> service_exists (tbl d') sid \<and> service_log (tbl d') sid = [] \<and>
     config_of (tbl d') sid = Map.empty \<and> (\<forall>uid. level_of (tbl d') uid sid = None) \<and>
     rows_of sid (tbl d') = ([], [], [], [], [], []) \<and>
     (\<forall>a. a \<noteq> sid \<longrightarrow> rows_of a (tbl d') = rows_of a (tbl d) \<and>
        find_service (tbl d') a = find_service (tbl d) a \<and>
        service_log (tbl d') a = service_log (tbl d) a \<and>
        config_of (tbl d') a = config_of (tbl d) a \<and>
        (\<forall>uid. level_of (tbl d') uid a = level_of (tbl d) uid a)) \<and>
     users_tbl (tbl d') = users_tbl (tbl d) \<and> tokens_tbl (tbl d') = tokens_tbl (tbl d) \<and>
     audit_tbl (tbl d') = audit_tbl (tbl d) \<and> settings_row (tbl d') = settings_row (tbl d)"
  using assms
proof (cases rule: DeleteService_cases)
  case deleted
  have lev: "level_of (cascade_service sid t) uid a = (if a = sid then None else level_of t uid a)"
    for t uid a
    by (auto simp: level_of_def cascade_service_def find_filter find_eq_None
        intro!: arg_cong [where f = "map_option p_level"] find_cong_pred)
  have srv: "find_service (cascade_service sid t) a = find_service t a" if "a \<noteq> sid" for t a
    using that unfolding find_service_def cascade_service_def
    by (simp add: find_filter) (rule find_cong_pred, auto)
  have log: "service_log (cascade_service sid t) a = (if a = sid then [] else service_log t a)" for t a
    by (auto simp: service_log_def cascade_service_def intro!: arg_cong [where f = "map to_entry"] filter_cong)
  show ?thesis using deleted(2)
    by (auto simp: lev srv log rows_of_cascade config_of_def fun_eq_iff) (auto simp: cascade_service_def)
qed simp_all

theorem delete_service_cascades_witness:
  "service_log (tbl (snd (DeleteService 1 demo_db))) 1 = [] \<and> service_log (tbl demo_db) 1 \<noteq> []"
proof -
  have "fst (DeleteService 1 demo_db) = Inr ()" and ne: "service_log (tbl demo_db) 1 \<noteq> []"
    by code_simp+
  then have "DeleteService 1 demo_db = (Inr (), snd (DeleteService 1 demo_db))"
    by (metis prod.collapse)
  from delete_service_cascades [OF this] ne show ?thesis by simp
qed

text \<open>C7. A login never takes the admin role away and gives it only to the configured address; a
  user keeps its id, and no other user changes.\<close>

theorem login_roles:
  assumes "users_inv (tbl d) (seqs d)" and "UpsertUserOnLogin subject email name boot d = (Inr u, d')"
  shows "u \<in> set (users_tbl (tbl d')) \<and> u_subject u = subject \<and> u_email u = email \<and>
     (u_role u = RoleAdmin \<longleftrightarrow> boot \<noteq> '''' \<and> email = boot \<or>
        (\<exists>old \<in> set (users_tbl (tbl d)). u_subject old = subject \<and> u_role old = RoleAdmin)) \<and>
     (\<forall>x. u_subject x \<noteq> subject \<longrightarrow> (x \<in> set (users_tbl (tbl d')) \<longleftrightarrow> x \<in> set (users_tbl (tbl d)))) \<and>
     (\<forall>old \<in> set (users_tbl (tbl d)). u_subject old = subject \<longrightarrow> u_id u = u_id old)"
  using assms(2)
proof (cases rule: UpsertUserOnLogin_cases)
  case (updated old new)
  have old: "old \<in> set (users_tbl (tbl d))" "u_subject old = subject"
    using find_SomeD [OF updated(2)] by auto
  have only: "x = old" if "x \<in> set (users_tbl (tbl d))" "u_subject x = subject" for x
    using assms(1) old that by (auto simp: users_inv_def distinct_map inj_on_def)
  have u: "u = new" using updated(1) by simp
  have new: "u_subject new = subject" "u_id new = u_id old" "u_email new = email"
    "u_role new = merge_role (u_role old) (login_role email boot)"
    using updated(3) old by simp_all
  have rows: "x \<in> set (users_tbl (tbl d')) \<longleftrightarrow> x = new \<or> x \<in> set (users_tbl (tbl d)) \<and> u_subject x \<noteq> subject" for x
    using old unfolding updated(5) by (auto simp: in_set_update_where)
  have role: "u_role new = RoleAdmin \<longleftrightarrow> u_role old = RoleAdmin \<or> boot \<noteq> '''' \<and> email = boot"
    using assms(1) old by (auto simp: new merge_role_def login_role_def users_inv_def)
  have ex: "(\<exists>x \<in> set (users_tbl (tbl d)). u_subject x = subject \<and> u_role x = RoleAdmin) \<longleftrightarrow>
      u_role old = RoleAdmin" using old only by blast
  have ids: "\<forall>x \<in> set (users_tbl (tbl d)). u_subject x = subject \<longrightarrow> u_id new = u_id x"
    using only new(2) by blast
  show ?thesis unfolding u ex rows role using new(1,3) ids by blast
next
  case (created new)
  have none: "\<forall>x \<in> set (users_tbl (tbl d)). u_subject x \<noteq> subject"
    using created(2) by (simp add: find_eq_None)
  have "u_role new = RoleAdmin \<longleftrightarrow> boot \<noteq> '''' \<and> email = boot"
    using created(6) by (simp add: login_role_def)
  with created none show ?thesis by auto
qed simp

theorem login_roles_witness:
  "u_role (projr (fst (UpsertUserOnLogin ''sub'' ''ann@x'' ''Ann'' ''ann@x'' demo_db))) = RoleAdmin"
proof -
  have ok: "isl (fst (UpsertUserOnLogin ''sub'' ''ann@x'' ''Ann'' ''ann@x'' demo_db)) = False"
    by code_simp
  then obtain u d' where run: "UpsertUserOnLogin ''sub'' ''ann@x'' ''Ann'' ''ann@x'' demo_db = (Inr u, d')"
    by (metis isl_def prod.collapse sum.exhaust_sel)
  have "users_inv (tbl demo_db) (seqs demo_db)"
    using reachable_inv [OF reachable_demo] by (simp add: store_inv_def)
  from login_roles [OF this run] show ?thesis by (simp add: run)
qed

text \<open>Pruning the audit log keeps exactly the newest entries: a row stays if and only if fewer
  than the given number of rows are newer, so min keep n rows stay, in their order, and
  the number of removed rows is returned. A number that is not positive removes nothing.\<close>

theorem prune_keeps_newest:
  assumes "reachable d" and "PruneAudit keep d = (Inr n, d')"
  shows "audit_tbl (tbl d') = (if keep \<le> 0 then audit_tbl (tbl d) else
       filter (\<lambda>a. length (filter (\<lambda>b. a_id b > a_id a) (audit_tbl (tbl d))) < nat keep)
         (audit_tbl (tbl d))) \<and>
     length (audit_tbl (tbl d')) + n = length (audit_tbl (tbl d)) \<and>
     (0 < keep \<longrightarrow> length (audit_tbl (tbl d')) = min (nat keep) (length (audit_tbl (tbl d))))"
proof -
  have asc: "sorted_wrt (<) (map a_id (audit_tbl (tbl d)))"
    using reachable_inv [OF assms(1)] by (simp add: store_inv_def audit_inv_def)
  then have dist: "distinct (map a_id (audit_tbl (tbl d)))" by (metis strict_sorted_iff)
  from assms(2) show ?thesis
  proof (cases rule: PruneAudit_cases)
    case pruned
    with pruned_newest [OF dist, of "nat keep"] length_pruned [OF asc, of "nat keep"]
    show ?thesis by simp
  qed simp_all
qed

definition demo_audit :: db where
  "demo_audit = run_ops [OpInsertAudit ''ann'' ''x'' ''t'' [], OpInsertAudit ''bob'' ''y'' ''t'' []] demo_db"

theorem prune_keeps_newest_witness:
  "length (audit_tbl (tbl (snd (PruneAudit 1 demo_audit)))) + 1 = length (audit_tbl (tbl demo_audit))"
proof -
  have "fst (PruneAudit 1 demo_audit) = Inr 1" by code_simp
  then have run: "PruneAudit 1 demo_audit = (Inr 1, snd (PruneAudit 1 demo_audit))" by (metis prod.collapse)
  have "reachable demo_audit" unfolding demo_audit_def by (rule reachable_run_ops [OF reachable_demo])
  from prune_keeps_newest [OF this run] show ?thesis by blast
qed

end
