(* ===== verification/Row_Scan.thy ===== *)
theory Row_Scan
  imports Store_Variables
begin

text \<open>
  The loops that read the rows of a query (\<open>scanServices\<close> in \<open>services.go\<close>, \<open>scanVersions\<close> in
  \<open>variables.go\<close>). The store theories take a query as one statement that gives all its rows or fails;
  here is why: the loop gives all rows or an error, never a part of them.
\<close>

section \<open>Cells and rows\<close>

text \<open>The types of the columns that these queries select.\<close>

datatype cell = BigintCell int | TextCell string | TextsCell "string list" | TimeCell int

text \<open>A row goes into the fields in the order of the columns; a cell of another type is an error of Scan.\<close>

definition scanService :: "cell list \<Rightarrow> store_error + service" where
  "scanService row = (case row of [BigintCell i, TextCell k, TextCell n, TextCell d, TextsCell ts, TimeCell at, TextCell by'] \<Rightarrow>
     Inr \<lparr>s_id = i, s_key = k, s_name = n, s_desc = d, s_tags = ts, s_created = at, s_by = by'\<rparr>
   | _ \<Rightarrow> Inl ErrFault)"

definition scanVersion :: "cell list \<Rightarrow> store_error + variable_version" where
  "scanVersion row = (case row of [BigintCell i, BigintCell sid, TextCell k, TextCell v, BigintCell n, TextCell c, TimeCell at, TextCell by'] \<Rightarrow>
     Inr \<lparr>vv_id = i, vv_service = sid, vv_key = k, vv_value = v, vv_version = n, vv_change = c, vv_at = at, vv_by = by'\<rparr>
   | _ \<Rightarrow> Inl ErrFault)"

text \<open>\<open>Next\<close> gives the rows one by one; \<open>err\<close> is what \<open>Err\<close> says after the last of them.\<close>

fun scan_rows :: "(cell list \<Rightarrow> store_error + 'a) \<Rightarrow> 'a list \<Rightarrow> cell list list \<Rightarrow> store_error option \<Rightarrow>
    store_error + 'a list" where
  "scan_rows scan out [] err = (case err of Some e \<Rightarrow> Inl e | None \<Rightarrow> Inr out)"
| "scan_rows scan out (row # rows) err =
     (case scan row of Inl e \<Rightarrow> Inl e | Inr x \<Rightarrow> scan_rows scan (out @ [x]) rows err)"

definition scanServices :: "cell list list \<Rightarrow> store_error option \<Rightarrow> store_error + service list" where
  "scanServices = scan_rows scanService []"

definition scanVersions :: "cell list list \<Rightarrow> store_error option \<Rightarrow> store_error + variable_version list" where
  "scanVersions = scan_rows scanVersion []"

section \<open>All or nothing\<close>

lemma scan_rows_Inr:
  "scan_rows scan out rows err = Inr xs \<longleftrightarrow> err = None \<and> (\<exists>ys. map scan rows = map Inr ys \<and> xs = out @ ys)"
proof (induction rows arbitrary: out)
  case (Cons row rows)
  show ?case
  proof (cases "scan row")
    case (Inr x)
    then show ?thesis by (auto simp: Cons map_eq_Cons_conv Cons_eq_map_conv)
  qed (auto simp: Cons_eq_map_conv)
qed (auto split: option.splits)

lemma scan_rows_map:
  "(\<And>x. scan (cells x) = Inr x) \<Longrightarrow> scan_rows scan out (map cells xs) err =
     (case err of Some e \<Rightarrow> Inl e | None \<Rightarrow> Inr (out @ xs))"
  by (induction xs arbitrary: out) (simp_all split: option.split)

definition service_cells :: "service \<Rightarrow> cell list" where
  "service_cells s = [BigintCell (s_id s), TextCell (s_key s), TextCell (s_name s), TextCell (s_desc s),
     TextsCell (s_tags s), TimeCell (s_created s), TextCell (s_by s)]"

definition version_cells :: "variable_version \<Rightarrow> cell list" where
  "version_cells x = [BigintCell (vv_id x), BigintCell (vv_service x), TextCell (vv_key x), TextCell (vv_value x),
     BigintCell (vv_version x), TextCell (vv_change x), TimeCell (vv_at x), TextCell (vv_by x)]"

text \<open>A connection that breaks within the rows is an error of the whole listing, as the statement has it.\<close>

lemma listing_is_scanned:
  "scanServices (map service_cells xs) err = (case err of Some e \<Rightarrow> Inl e | None \<Rightarrow> Inr xs)"
  "scanVersions (map version_cells ys) err = (case err of Some e \<Rightarrow> Inl e | None \<Rightarrow> Inr ys)"
  by (simp_all add: scanServices_def scanVersions_def scan_rows_map service_cells_def version_cells_def
      scanService_def scanVersion_def       split: option.split)

lemma broken_listing: "ListServices d = (case faults d of
    True # bs \<Rightarrow> (scanServices (take n (map service_cells (sort_by (\<lambda>a b. collate d (s_name a) (s_name b))
        (services_tbl (tbl d))))) (Some ErrFault), d\<lparr>faults := bs\<rparr>)
  | False # bs \<Rightarrow> (scanServices (map service_cells (sort_by (\<lambda>a b. collate d (s_name a) (s_name b))
        (services_tbl (tbl d)))) None, d\<lparr>faults := bs\<rparr>)
  | [] \<Rightarrow> (scanServices (map service_cells (sort_by (\<lambda>a b. collate d (s_name a) (s_name b))
        (services_tbl (tbl d)))) None, d))"
  unfolding take_map listing_is_scanned
  by (simp add: ListServices_def select_def stmt_def Let_def split: list.split bool.split)

end
