(* ===== verification/Go_Strings.thy ===== *)
theory Go_Strings
  imports Prelude "HOL-Library.Char_ord"
begin

text \<open>
  What the program uses of Go's \<open>strings\<close>, \<open>strconv\<close>, \<open>unicode/utf8\<close> and \<open>regexp\<close>. A Go string
  is a sequence of bytes; a \<open>char\<close> is one byte.
\<close>

section \<open>Bytes\<close>

abbreviation byte :: "char \<Rightarrow> nat" where
  "byte c \<equiv> of_char c"

lemma byte_less [simp]: "byte c < 256"
  by (rule nat_of_char_less_256)

lemma byte_eq_iff [simp]: "byte c = byte d \<longleftrightarrow> c = d"
  by simp

lemma byte_char_of [simp]: "n < 256 \<Longrightarrow> byte (char_of n) = n"
  by simp

definition is_digit :: "char \<Rightarrow> bool" where
  "is_digit c \<longleftrightarrow> 48 \<le> byte c \<and> byte c \<le> 57"

definition is_upper :: "char \<Rightarrow> bool" where
  "is_upper c \<longleftrightarrow> 65 \<le> byte c \<and> byte c \<le> 90"

definition is_lower :: "char \<Rightarrow> bool" where
  "is_lower c \<longleftrightarrow> 97 \<le> byte c \<and> byte c \<le> 122"

section \<open>Decimal numbers\<close>

definition digit_char :: "nat \<Rightarrow> char" where
  "digit_char n = char_of (48 + n)"

definition digit_val :: "char \<Rightarrow> nat" where
  "digit_val c = byte c - 48"

lemma digit_char [simp]:
  assumes "n < 10"
  shows "is_digit (digit_char n)" and "digit_val (digit_char n) = n"
  using assms by (simp_all add: is_digit_def digit_val_def digit_char_def)

fun digits :: "nat \<Rightarrow> string" where
  "digits n = (if n < 10 then [digit_char n] else digits (n div 10) @ [digit_char (n mod 10)])"

declare digits.simps [simp del]

fun digits_val :: "nat \<Rightarrow> string \<Rightarrow> nat option" where
  "digits_val acc [] = Some acc"
| "digits_val acc (c # cs) =
     (if is_digit c then digits_val (acc * 10 + digit_val c) cs else None)"

lemma digits_not_Nil [simp]: "digits n \<noteq> []"
  by (subst digits.simps) simp

lemma digits_all: "c \<in> set (digits n) \<Longrightarrow> is_digit c"
proof (induction n rule: digits.induct)
  case (1 n)
  then show ?case by (cases "n < 10") (auto simp: digits.simps [of n])
qed

lemma digits_val_append:
  "digits_val acc (xs @ ys) = (case digits_val acc xs of None \<Rightarrow> None | Some n \<Rightarrow> digits_val n ys)"
  by (induction acc xs rule: digits_val.induct) auto

lemma digits_val_digits: "digits_val acc (digits n) = Some (acc * 10 ^ length (digits n) + n)"
proof (induction n arbitrary: acc rule: digits.induct)
  case (1 n)
  show ?case
  proof (cases "n < 10")
    case True
    then show ?thesis by (simp add: digits.simps [of n])
  next
    case False
    with 1 have "digits_val acc (digits (n div 10)) = Some (acc * 10 ^ length (digits (n div 10)) + n div 10)"
      by blast
    with False show ?thesis
      by (subst (1 2) digits.simps) (simp add: digits_val_append algebra_simps)
  qed
qed

text \<open>\<open>strconv.FormatInt(n, 10)\<close>, and the \<open>%d\<close> of the log and reply texts.\<close>

definition FormatInt :: "int \<Rightarrow> string" where
  "FormatInt n = (if n < 0 then CHR ''-'' # digits (nat (- n)) else digits (nat n))"

text \<open>
  \<open>strconv.ParseInt(s, 10, 64)\<close>: an optional sign, at least one digit, the range of \<open>int64\<close>.
\<close>

definition ParseInt :: "string \<Rightarrow> int option" where
  "ParseInt s =
     (let neg = (case s of c # _ \<Rightarrow> c = CHR ''-'' | [] \<Rightarrow> False);
          ds = (case s of c # cs \<Rightarrow> if c = CHR ''-'' \<or> c = CHR ''+'' then cs else s | [] \<Rightarrow> [])
      in if ds = [] then None
         else case digits_val 0 ds of
                None \<Rightarrow> None
              | Some n \<Rightarrow>
                  (let v = (if neg then - int n else int n)
                   in if int64_min \<le> v \<and> v \<le> int64_max then Some v else None))"

lemma digits_head: "\<exists>c cs. digits n = c # cs \<and> is_digit c"
  using digits_all [of _ n] by (cases "digits n") auto

text \<open>\<open>strconv.Atoi\<close> is the same function on 64-bit platforms.\<close>

abbreviation Atoi :: "string \<Rightarrow> int option" where
  "Atoi \<equiv> ParseInt"

lemma ParseInt_FormatInt:
  assumes "int64_min \<le> n" and "n \<le> int64_max"
  shows "ParseInt (FormatInt n) = Some n"
proof (cases "n < 0")
  case True
  with assms show ?thesis
    by (simp add: FormatInt_def ParseInt_def digits_val_digits)
next
  case False
  obtain c cs where c: "digits (nat n) = c # cs" "is_digit c" using digits_head by blast
  then have "c \<noteq> CHR ''-''" "c \<noteq> CHR ''+''" by (auto simp: is_digit_def)
  with False assms c(1) digits_val_digits [of 0 "nat n"] show ?thesis
    by (simp add: FormatInt_def ParseInt_def)
qed

lemma ParseInt_range: "ParseInt s = Some n \<Longrightarrow> int64_min \<le> n \<and> n \<le> int64_max"
  by (auto simp: ParseInt_def Let_def split: if_splits option.splits list.splits)

section \<open>UTF-8\<close>

definition is_cont :: "char \<Rightarrow> bool" where
  "is_cont c \<longleftrightarrow> 128 \<le> byte c \<and> byte c < 192"

text \<open>
  The number of bytes of the first rune, as \<open>utf8.DecodeRune\<close> accepts it; 0 where it returns
  RuneError of width 1 (or the string is empty).
\<close>

definition in_range :: "nat \<Rightarrow> nat \<Rightarrow> char \<Rightarrow> bool" where
  "in_range lo hi c \<longleftrightarrow> lo \<le> byte c \<and> byte c \<le> hi"

fun rune_len :: "string \<Rightarrow> nat" where
  "rune_len [] = 0"
| "rune_len (a # rest) =
     (if byte a < 128 then 1
      else case rest of
        [] \<Rightarrow> 0
      | b # rest' \<Rightarrow>
          if in_range 0xC2 0xDF a then (if is_cont b then 2 else 0)
          else if in_range 0xE0 0xEF a
          then (let ok = (if byte a = 0xE0 then in_range 0xA0 0xBF b
                          else if byte a = 0xED then in_range 0x80 0x9F b else is_cont b)
                in case rest' of [] \<Rightarrow> 0 | c # _ \<Rightarrow> if ok \<and> is_cont c then 3 else 0)
          else if in_range 0xF0 0xF4 a
          then (let ok = (if byte a = 0xF0 then in_range 0x90 0xBF b
                          else if byte a = 0xF4 then in_range 0x80 0x8F b else is_cont b)
                in case rest' of
                     c # e # _ \<Rightarrow> if ok \<and> is_cont c \<and> is_cont e then 4 else 0
                   | _ \<Rightarrow> 0)
          else 0)"

lemma rune_len_le: "rune_len s \<le> length s"
  by (cases s rule: rune_len.cases) (auto simp: Let_def split: list.splits)

lemma rune_len_take: "rune_len s = n \<Longrightarrow> n \<noteq> 0 \<Longrightarrow> rune_len (take n s @ t) = n"
  by (cases s rule: rune_len.cases) (auto simp: Let_def split: list.splits if_splits)

lemma rune_len_le4: "rune_len s \<le> 4"
  by (cases s rule: rune_len.cases) (auto simp: Let_def split: list.splits)

lemma rune_len_append: "rune_len s \<noteq> 0 \<Longrightarrow> rune_len (s @ t) = rune_len s"
  using rune_len_take [of s "rune_len s" "drop (rune_len s) s @ t"]
  by (simp flip: append_assoc)

lemma rune_len_ascii [simp]: "byte c < 128 \<Longrightarrow> rune_len (c # cs) = 1"
  by simp

declare rune_len.simps(2) [simp del]

text \<open>\<open>utf8.ValidString\<close>. Postgres accepts nothing else as text.\<close>

function utf8_valid :: "string \<Rightarrow> bool" where
  "utf8_valid s = (if s = [] then True else if rune_len s = 0 then False
     else utf8_valid (drop (rune_len s) s))"
  by auto
termination by (relation "measure length") auto

declare utf8_valid.simps [simp del]

lemma utf8_valid_Nil [simp]: "utf8_valid []"
  by (simp add: utf8_valid.simps)

lemma utf8_valid_Cons [simp]: "byte c < 128 \<Longrightarrow> utf8_valid (c # s) = utf8_valid s"
  by (subst utf8_valid.simps) simp

lemma utf8_validD: "utf8_valid s \<Longrightarrow> s \<noteq> [] \<Longrightarrow> rune_len s \<noteq> 0 \<and> utf8_valid (drop (rune_len s) s)"
  by (subst (asm) utf8_valid.simps) (simp split: if_splits)

lemma utf8_valid_ascii: "(\<And>c. c \<in> set s \<Longrightarrow> byte c < 128) \<Longrightarrow> utf8_valid s"
  by (induction s) auto

lemma utf8_valid_append: "utf8_valid s \<Longrightarrow> utf8_valid t \<Longrightarrow> utf8_valid (s @ t)"
proof (induction s rule: utf8_valid.induct)
  case (1 s)
  show ?case
  proof (cases "s = []")
    case True
    with 1 show ?thesis by simp
  next
    case False
    with 1(2) have r: "rune_len s \<noteq> 0" "utf8_valid (drop (rune_len s) s)"
      by (simp_all add: utf8_valid.simps [of s] split: if_splits)
    with 1 False have "utf8_valid (drop (rune_len s) s @ t)" by blast
    with r rune_len_le [of s] rune_len_append [of s t] show ?thesis
      by (subst utf8_valid.simps) simp
  qed
qed

section \<open>Spaces, words and case\<close>

text \<open>
  The white space of \<open>unicode.IsSpace\<close> as byte sequences: the ASCII ones, U+0085, U+00A0,
  U+1680, U+2000 to U+200A, U+2028, U+2029, U+202F, U+205F and U+3000.
\<close>

definition chars :: "nat list \<Rightarrow> string" where
  "chars ns = map char_of ns"

definition newline :: char where "newline = CHR 0x0A"

definition space_seqs :: "string list" where
  "space_seqs = map chars ([[9], [10], [11], [12], [13], [32], [0xC2, 0x85], [0xC2, 0xA0],
     [0xE1, 0x9A, 0x80]] @ map (\<lambda>n. [0xE2, 0x80, n]) [0x80..<0x8B] @
     [[0xE2, 0x80, 0xA8], [0xE2, 0x80, 0xA9], [0xE2, 0x80, 0xAF], [0xE2, 0x81, 0x9F],
      [0xE3, 0x80, 0x80]])"

text \<open>The same list written out, which is what evaluation uses.\<close>

lemma space_seqs_code [code]:
  "space_seqs =
    [
     [CHR 0x09], [CHR 0x0A], [CHR 0x0B],
     [CHR 0x0C], [CHR 0x0D], [CHR 0x20],
     [CHR 0xC2, CHR 0x85], [CHR 0xC2, CHR 0xA0], [CHR 0xE1, CHR 0x9A, CHR 0x80],
     [CHR 0xE2, CHR 0x80, CHR 0x80], [CHR 0xE2, CHR 0x80, CHR 0x81], [CHR 0xE2, CHR 0x80, CHR 0x82],
     [CHR 0xE2, CHR 0x80, CHR 0x83], [CHR 0xE2, CHR 0x80, CHR 0x84], [CHR 0xE2, CHR 0x80, CHR 0x85],
     [CHR 0xE2, CHR 0x80, CHR 0x86], [CHR 0xE2, CHR 0x80, CHR 0x87], [CHR 0xE2, CHR 0x80, CHR 0x88],
     [CHR 0xE2, CHR 0x80, CHR 0x89], [CHR 0xE2, CHR 0x80, CHR 0x8A], [CHR 0xE2, CHR 0x80, CHR 0xA8],
     [CHR 0xE2, CHR 0x80, CHR 0xA9], [CHR 0xE2, CHR 0x80, CHR 0xAF], [CHR 0xE2, CHR 0x81, CHR 0x9F],
     [CHR 0xE3, CHR 0x80, CHR 0x80]]"
  by code_simp

fun has_prefix :: "string \<Rightarrow> string \<Rightarrow> bool" where
  "has_prefix [] s = True"
| "has_prefix (p # ps) [] = False"
| "has_prefix (p # ps) (c # cs) = (p = c \<and> has_prefix ps cs)"

lemma has_prefix_iff: "has_prefix p s \<longleftrightarrow> (\<exists>t. s = p @ t)"
  by (induction p s rule: has_prefix.induct) auto

lemma has_prefix_append [simp]: "has_prefix p (p @ s)"
  by (simp add: has_prefix_iff)

text \<open>The length of a leading white space, 0 without one.\<close>

definition space_len :: "string \<Rightarrow> nat" where
  "space_len s = (case find (\<lambda>p. has_prefix p s) space_seqs of None \<Rightarrow> 0 | Some p \<Rightarrow> length p)"

definition space_len_rev :: "string \<Rightarrow> nat" where
  "space_len_rev s =
     (case find (\<lambda>p. has_prefix (rev p) s) space_seqs of None \<Rightarrow> 0 | Some p \<Rightarrow> length p)"

function trim_with :: "(string \<Rightarrow> nat) \<Rightarrow> string \<Rightarrow> string" where
  "trim_with len s = (if s = [] \<or> len s = 0 then s else trim_with len (drop (len s) s))"
  by auto
termination by (relation "measure (\<lambda>(_, s). length s)") auto

declare trim_with.simps [simp del]

definition TrimSpace :: "string \<Rightarrow> string" where
  "TrimSpace s = rev (trim_with space_len_rev (rev (trim_with space_len s)))"

text \<open>\<open>strings.Fields\<close>: the words between white space.\<close>

function fields_from :: "string \<Rightarrow> string \<Rightarrow> string list" where
  "fields_from word s =
     (case s of
        [] \<Rightarrow> (if word = [] then [] else [word])
      | c # cs \<Rightarrow>
          if space_len s = 0 then fields_from (word @ [c]) cs
          else (if word = [] then [] else [word]) @ fields_from [] (drop (space_len s) s))"
  by auto
termination by (relation "measure (\<lambda>(_, s). length s)") auto

declare fields_from.simps [simp del]

definition Fields :: "string \<Rightarrow> string list" where
  "Fields s = fields_from [] s"

text \<open>\<open>strings.Join\<close> and \<open>strings.IndexByte\<close>.\<close>

fun Join :: "string list \<Rightarrow> string \<Rightarrow> string" where
  "Join [] sep = []"
| "Join [x] sep = x"
| "Join (x # y # ys) sep = x @ sep @ Join (y # ys) sep"

fun IndexByte :: "string \<Rightarrow> char \<Rightarrow> nat option" where
  "IndexByte [] c = None"
| "IndexByte (x # xs) c = (if x = c then Some 0 else map_option Suc (IndexByte xs c))"

lemma IndexByte_None: "IndexByte s c = None \<longleftrightarrow> c \<notin> set s"
  by (induction s c rule: IndexByte.induct) auto

lemma IndexByte_Some:
  "IndexByte s c = Some i \<Longrightarrow> i < length s \<and> s = take i s @ c # drop (Suc i) s \<and> c \<notin> set (take i s)"
  by (induction s c arbitrary: i rule: IndexByte.induct) (auto split: if_splits)

definition TrimPrefix :: "string \<Rightarrow> string \<Rightarrow> string" where
  "TrimPrefix s p = (if has_prefix p s then drop (length p) s else s)"

text \<open>
  \<open>strings.ToLower\<close> on an ASCII string; \<open>uni\<close> is what Go's Unicode tables make of a string that
  has other bytes.
\<close>

definition lower_char :: "char \<Rightarrow> char" where
  "lower_char c = (if is_upper c then char_of (byte c + 32) else c)"

definition ToLower :: "(string \<Rightarrow> string) \<Rightarrow> string \<Rightarrow> string" where
  "ToLower uni s = (if \<forall>c \<in> set s. byte c < 128 then map lower_char s else uni s)"

lemma lower_char_idem [simp]: "lower_char (lower_char c) = lower_char c"
  by (auto simp: lower_char_def is_upper_def)

section \<open>Facts about trimming and words\<close>

lemma space_seqs_nonempty: "p \<in> set space_seqs \<Longrightarrow> p \<noteq> []"
  by (auto simp: space_seqs_def chars_def)

lemma space_len_zero: "space_len s = 0 \<longleftrightarrow> (\<forall>p \<in> set space_seqs. \<not> has_prefix p s)"
  using space_seqs_nonempty
  by (auto simp: space_len_def find_eq_None dest!: find_SomeD split: option.splits)

lemma space_len_le: "space_len s \<le> length s"
proof (cases "find (\<lambda>p. has_prefix p s) space_seqs")
  case None
  then show ?thesis by (simp add: space_len_def)
next
  case (Some p)
  then have "has_prefix p s" by (auto dest: find_SomeD)
  then have "length p \<le> length s" by (auto simp: has_prefix_iff)
  with Some show ?thesis by (simp add: space_len_def)
qed

lemma trim_with_done: "s = [] \<or> len s = 0 \<Longrightarrow> trim_with len s = s"
  by (subst trim_with.simps) simp

lemma trim_with_clean: "trim_with len s = [] \<or> len (trim_with len s) = 0"
  by (induction len s rule: trim_with.induct) (subst (1 2) trim_with.simps, auto)

lemma trim_with_idem [simp]: "trim_with len (trim_with len s) = trim_with len s"
  using trim_with_clean trim_with_done by blast

lemma trim_with_suffix: "\<exists>p. s = p @ trim_with len s"
proof (induction len s rule: trim_with.induct)
  case (1 len s)
  show ?case
  proof (cases "s = [] \<or> len s = 0")
    case True
    then show ?thesis by (simp add: trim_with_done)
  next
    case False
    with 1 obtain p where "drop (len s) s = p @ trim_with len (drop (len s) s)" by blast
    then have "s = (take (len s) s @ p) @ trim_with len (drop (len s) s)"
      by (metis append.assoc append_take_drop_id)
    moreover have "trim_with len s = trim_with len (drop (len s) s)"
      using False by (subst trim_with.simps) simp
    ultimately show ?thesis by metis
  qed
qed

lemma fields_nonempty: "w \<in> set (fields_from word s) \<Longrightarrow> w \<noteq> []"
proof (induction word s rule: fields_from.induct)
  case (1 word s)
  show ?case
  proof (cases s)
    case Nil
    with 1(3) show ?thesis by (simp add: fields_from.simps split: if_splits)
  next
    case (Cons c cs)
    with 1 show ?thesis
      by (subst (asm) (3) fields_from.simps) (auto split: if_splits)
  qed
qed

lemma Fields_nonempty: "w \<in> set (Fields s) \<Longrightarrow> w \<noteq> []"
  unfolding Fields_def by (rule fields_nonempty)

text \<open>The bytes of a word are bytes of the text.\<close>

lemma fields_from_subset: "w \<in> set (fields_from word s) \<Longrightarrow> set w \<subseteq> set word \<union> set s"
proof (induction word s rule: fields_from.induct)
  case (1 word s)
  show ?case
  proof (cases s)
    case Nil
    with 1(3) show ?thesis by (simp add: fields_from.simps split: if_splits)
  next
    case (Cons c cs)
    show ?thesis
    proof (cases "space_len s = 0")
      case True
      with 1(3) Cons have "w \<in> set (fields_from (word @ [c]) cs)"
        by (subst (asm) fields_from.simps) simp
      from 1(1) [OF Cons True this] Cons show ?thesis by auto
    next
      case False
      with 1(3) Cons have "w = word \<or> w \<in> set (fields_from [] (drop (space_len s) s))"
        by (subst (asm) fields_from.simps) (auto split: if_splits)
      then show ?thesis
      proof
        assume "w \<in> set (fields_from [] (drop (space_len s) s))"
        from 1(2) [OF Cons False this] show ?thesis using set_drop_subset by fastforce
      qed auto
    qed
  qed
qed

text \<open>A text of visible ASCII characters has nothing to trim.\<close>

lemma space_seqs_bytes: "p \<in> set space_seqs \<Longrightarrow> c \<in> set p \<Longrightarrow> byte c \<le> 32 \<or> 127 < byte c"
  by (auto simp: space_seqs_def chars_def)

lemma visible_no_space:
  assumes "list_all (\<lambda>c. 33 \<le> byte c \<and> byte c < 127) s"
  shows "space_len s = 0" and "space_len_rev s = 0"
proof -
  have clash: "\<not> has_prefix q s" if "q \<noteq> []" "\<forall>c \<in> set q. byte c \<le> 32 \<or> 127 < byte c" for q
  proof
    assume "has_prefix q s"
    then obtain t where "s = q @ t" by (auto simp: has_prefix_iff)
    with that assms show False by (cases q) auto
  qed
  then show "space_len s = 0"
    using space_seqs_nonempty space_seqs_bytes unfolding space_len_zero by blast
  have "\<not> has_prefix (rev p) s" if "p \<in> set space_seqs" for p
    using clash [of "rev p"] space_seqs_nonempty [OF that] space_seqs_bytes [OF that] by simp
  then show "space_len_rev s = 0"
    by (auto simp: space_len_rev_def dest!: find_SomeD split: option.splits)
qed

lemma TrimSpace_visible:
  assumes "list_all (\<lambda>c. 33 \<le> byte c \<and> byte c < 127) s"
  shows "TrimSpace s = s"
  using visible_no_space(1) [OF assms] visible_no_space(2) [of "rev s"] assms
  by (simp add: TrimSpace_def trim_with_done)

section \<open>The key pattern\<close>

text \<open>\<open>keyRe\<close>: \<open>^[a-zA-Z0-9_.-]+$\<close> (\<open>internal/httpserver/handlers_services.go\<close>).\<close>

definition key_char :: "char \<Rightarrow> bool" where
  "key_char c \<longleftrightarrow> is_lower c \<or> is_upper c \<or> is_digit c \<or> c \<in> set ''_.-''"

definition keyRe :: "string \<Rightarrow> bool" where
  "keyRe s \<longleftrightarrow> s \<noteq> [] \<and> list_all key_char s"

end
