(* ===== verification/Json.thy ===== *)
theory Json
  imports Go_Strings
begin

text \<open>
  JSON as Go's \<open>encoding/json\<close> writes and reads it: the escaping of strings (HTML characters,
  control characters, U+2028 and U+2029, invalid bytes), the syntax of values, and the round
  trip. \<open>internal/events/broker.go\<close> sends its events in this form.
\<close>

section \<open>Strings\<close>

definition hex_digit :: "nat \<Rightarrow> char" where
  "hex_digit n = (if n < 10 then char_of (48 + n) else char_of (87 + n))"

definition hex_val :: "char \<Rightarrow> nat option" where
  "hex_val c = (if is_digit c then Some (byte c - 48)
     else if 97 \<le> byte c \<and> byte c \<le> 102 then Some (byte c - 87)
     else if 65 \<le> byte c \<and> byte c \<le> 70 then Some (byte c - 55) else None)"

lemma hex_val_digit [simp]: "n < 16 \<Longrightarrow> hex_val (hex_digit n) = Some n"
  by (auto simp: hex_val_def hex_digit_def is_digit_def)

definition quote :: char where "quote = CHR 0x22"
definition backslash :: char where "backslash = CHR 0x5C"

lemma quote_simps [simp]: "byte quote = 34" "byte backslash = 92" "quote \<noteq> backslash" "backslash \<noteq> quote"
  by (simp_all add: quote_def backslash_def)

definition u_escape :: "nat \<Rightarrow> string" where
  "u_escape n = [backslash, CHR ''u'', hex_digit (n div 4096), hex_digit (n div 256 mod 16),
     hex_digit (n div 16 mod 16), hex_digit (n mod 16)]"

definition esc_ascii :: "char \<Rightarrow> string" where
  "esc_ascii c = (if c = quote \<or> c = backslash then [backslash, c]
     else if byte c = 8 then [backslash, CHR ''b'']
     else if byte c = 12 then [backslash, CHR ''f'']
     else if byte c = 10 then [backslash, CHR ''n'']
     else if byte c = 13 then [backslash, CHR ''r'']
     else if byte c = 9 then [backslash, CHR ''t'']
     else if byte c < 32 \<or> c \<in> set ''<>&'' then u_escape (byte c)
     else [c])"

definition line_sep :: string where "line_sep = chars [0xE2, 0x80, 0xA8]"
definition para_sep :: string where "para_sep = chars [0xE2, 0x80, 0xA9]"

function esc :: "string \<Rightarrow> string" where
  "esc s = (case s of
      [] \<Rightarrow> []
    | c # cs \<Rightarrow>
        if byte c < 128 then esc_ascii c @ esc cs
        else if rune_len s = 0 then u_escape 0xFFFD @ esc cs
        else if take 3 s = line_sep then u_escape 0x2028 @ esc (drop 3 s)
        else if take 3 s = para_sep then u_escape 0x2029 @ esc (drop 3 s)
        else take (rune_len s) s @ esc (drop (rune_len s) s))"
  by auto
termination by (relation "measure length") auto

declare esc.simps [simp del]

definition json_quote :: "string \<Rightarrow> string" where
  "json_quote s = quote # esc s @ [quote]"

text \<open>The bytes of a code point; surrogates and values out of range become U+FFFD.\<close>

definition encode_rune :: "nat \<Rightarrow> string" where
  "encode_rune r =
     (if r < 0x80 then chars [r]
      else if r < 0x800 then chars [0xC0 + r div 64, 0x80 + r mod 64]
      else if 0xD800 \<le> r \<and> r < 0xE000 \<or> 0x110000 \<le> r then chars [0xEF, 0xBF, 0xBD]
      else if r < 0x10000 then chars [0xE0 + r div 4096, 0x80 + r div 64 mod 64, 0x80 + r mod 64]
      else chars [0xF0 + r div 262144, 0x80 + r div 4096 mod 64, 0x80 + r div 64 mod 64,
                  0x80 + r mod 64])"

text \<open>The four hex digits after \<open>\u\<close>.\<close>

fun hex4 :: "string \<Rightarrow> (nat \<times> string) option" where
  "hex4 (a # b # c # e # rest) = (case (hex_val a, hex_val b, hex_val c, hex_val e) of
      (Some a, Some b, Some c, Some e) \<Rightarrow> Some (((a * 16 + b) * 16 + c) * 16 + e, rest)
    | _ \<Rightarrow> None)"
| "hex4 _ = None"

lemma hex4_length: "hex4 s = Some (n, rest) \<Longrightarrow> length s = length rest + 4"
  by (cases s rule: hex4.cases) (auto split: option.splits)

lemma hex4_escape [simp]:
  "n < 65536 \<Longrightarrow> hex4 (hex_digit (n div 4096) # hex_digit (n div 256 mod 16) #
      hex_digit (n div 16 mod 16) # hex_digit (n mod 16) # rest) = Some (n, rest)"
proof -
  assume n: "n < 65536"
  have 1: "n div 4096 < 16" using n by simp
  have 2: "n div 4096 * 16 + n div 256 mod 16 = n div 256"
    using div_mult_mod_eq [of "n div 256" 16] by (simp flip: div_mult2_eq)
  have 3: "n div 256 * 16 + n div 16 mod 16 = n div 16"
    using div_mult_mod_eq [of "n div 16" 16] by (simp flip: div_mult2_eq)
  have 4: "n div 16 * 16 + n mod 16 = n" by (rule div_mult_mod_eq)
  show ?thesis unfolding hex4.simps by (simp add: 1 2 3 4)
qed

declare hex4.simps [simp del]

text \<open>A low surrogate that follows, as another escape.\<close>

definition low_surrogate :: "string \<Rightarrow> (nat \<times> string) option" where
  "low_surrogate s = (case s of
      a # b # rest \<Rightarrow>
        if a = backslash \<and> b = CHR ''u''
        then (case hex4 rest of
                Some (n, rest') \<Rightarrow> if 0xDC00 \<le> n \<and> n < 0xE000 then Some (n, rest') else None
              | None \<Rightarrow> None)
        else None
    | _ \<Rightarrow> None)"

definition simple_escape :: "char \<Rightarrow> char option" where
  "simple_escape c = (if c = quote \<or> c = backslash \<or> c = CHR ''/'' then Some c
     else if c = CHR ''b'' then Some (char_of (8::nat)) else if c = CHR ''f'' then Some (char_of (12::nat))
     else if c = CHR ''n'' then Some (char_of (10::nat)) else if c = CHR ''r'' then Some (char_of (13::nat))
     else if c = CHR ''t'' then Some (char_of (9::nat)) else None)"

text \<open>The rest of a string literal after the opening quote: its value and what follows it.\<close>

definition prepend :: "string \<Rightarrow> (string \<times> string) option \<Rightarrow> (string \<times> string) option" where
  "prepend p r = map_option (\<lambda>(v, rest). (p @ v, rest)) r"

lemma low_surrogate_length: "low_surrogate s = Some (n, rest) \<Longrightarrow> length rest < length s"
  by (auto simp: low_surrogate_def dest: hex4_length split: list.splits if_splits option.splits)

function unquote :: "string \<Rightarrow> (string \<times> string) option" where
  "unquote s = (case s of
      [] \<Rightarrow> None
    | c # cs \<Rightarrow>
        if c = quote then Some ([], cs)
        else if c = backslash then
          (case cs of
             [] \<Rightarrow> None
           | e # es \<Rightarrow>
               if e = CHR ''u'' then
                 (case hex4 es of
                    None \<Rightarrow> None
                  | Some (n, rest) \<Rightarrow>
                      if 0xD800 \<le> n \<and> n < 0xDC00 then
                        (case low_surrogate rest of
                           Some (m, rest') \<Rightarrow>
                             prepend (encode_rune (0x10000 + (n - 0xD800) * 1024 + (m - 0xDC00)))
                               (unquote rest')
                         | None \<Rightarrow> prepend (encode_rune n) (unquote rest))
                      else prepend (encode_rune n) (unquote rest))
               else (case simple_escape e of
                       None \<Rightarrow> None
                     | Some x \<Rightarrow> prepend [x] (unquote es)))
        else if byte c < 32 then None
        else if byte c < 128 then prepend [c] (unquote cs)
        else if rune_len s = 0 then prepend (encode_rune 0xFFFD) (unquote cs)
        else prepend (take (rune_len s) s) (unquote (drop (rune_len s) s)))"
  by pat_completeness auto
termination
  by (relation "measure length") (auto dest!: hex4_length low_surrogate_length)

declare unquote.simps [simp del]

subsection \<open>The round trip of strings\<close>

lemma prepend_Some [simp]: "prepend p (Some (v, rest)) = Some (p @ v, rest)"
  by (simp add: prepend_def)

lemma unquote_quote [simp]: "unquote (quote # rest) = Some ([], rest)"
  by (subst unquote.simps) simp

lemma encode_rune_ascii: "byte c < 128 \<Longrightarrow> encode_rune (byte c) = [c]"
  by (simp add: encode_rune_def chars_def)

lemma unquote_u_escape:
  assumes "n < 65536" and "\<not> (0xD800 \<le> n \<and> n < 0xE000)"
  shows "unquote (u_escape n @ rest) = prepend (encode_rune n) (unquote rest)"
  using assms unfolding u_escape_def
  by (subst unquote.simps) auto

lemma unquote_simple:
  assumes "simple_escape e = Some x"
  shows "unquote (backslash # e # rest) = prepend [x] (unquote rest)"
proof -
  have "e \<noteq> CHR ''u''" using assms by (auto simp: simple_escape_def quote_def backslash_def)
  with assms show ?thesis by (subst unquote.simps) simp
qed

lemma unquote_plain:
  assumes "byte c < 128" and "32 \<le> byte c" and "c \<noteq> quote" and "c \<noteq> backslash"
  shows "unquote (c # rest) = prepend [c] (unquote rest)"
  using assms by (subst unquote.simps) simp

lemma char_of_byte_eq: "byte c = n \<Longrightarrow> char_of n = c"
  by (metis char_of_char)

lemma unquote_esc_ascii:
  assumes "byte c < 128"
  shows "unquote (esc_ascii c @ rest) = prepend [c] (unquote rest)"
proof -
  consider "c = quote \<or> c = backslash" | "byte c \<in> {8, 12, 10, 13, 9}"
    | "byte c < 32 \<or> c \<in> set ''<>&''" "\<not> (c = quote \<or> c = backslash)" "byte c \<notin> {8, 12, 10, 13, 9}"
    | "\<not> (byte c < 32 \<or> c \<in> set ''<>&'')" "\<not> (c = quote \<or> c = backslash)"
    by blast
  then show ?thesis
  proof cases
    case 1
    then have "esc_ascii c = [backslash, c]" "simple_escape c = Some c"
      by (auto simp: esc_ascii_def simple_escape_def)
    with unquote_simple show ?thesis by simp
  next
    case 2
    then have "c \<noteq> quote" "c \<noteq> backslash" by (auto simp: quote_def backslash_def)
    with 2 show ?thesis
      by (auto simp: esc_ascii_def simple_escape_def quote_def [symmetric] char_of_byte_eq
          unquote_simple [where x = c])
         (subst unquote_simple [where x = c];
          auto simp: simple_escape_def quote_def backslash_def char_of_byte_eq)+
  next
    case 3
    then have "esc_ascii c = u_escape (byte c)" by (auto simp: esc_ascii_def)
    with assms unquote_u_escape [of "byte c" rest] show ?thesis by (simp add: encode_rune_ascii)
  next
    case 4
    then have "esc_ascii c = [c]" by (auto simp: esc_ascii_def)
    with 4 assms unquote_plain [of c rest] show ?thesis by simp
  qed
qed

lemma unquote_rune:
  assumes "rune_len s \<noteq> 0" and "\<not> byte (hd s) < 128"
  shows "unquote (take (rune_len s) s @ rest) = prepend (take (rune_len s) s) (unquote rest)"
proof -
  obtain c cs where s: "s = c # cs" using assms(1) by (cases s) auto
  have len: "rune_len (take (rune_len s) s @ rest) = rune_len s"
    using assms(1) by (intro rune_len_take) simp_all
  have le: "length (take (rune_len s) s) = rune_len s" using rune_len_le [of s] by simp
  obtain ds where hd: "take (rune_len s) s @ rest = c # ds"
    using assms(1) s by (cases "rune_len s") auto
  from assms(2) s have c: "c \<noteq> quote" "c \<noteq> backslash" "\<not> byte c < 32" "\<not> byte c < 128" by auto
  have "unquote (c # ds) = prepend (take (rune_len (c # ds)) (c # ds)) (unquote (drop (rune_len (c # ds)) (c # ds)))"
    using c assms(1) len hd by (subst unquote.simps) (auto simp del: rune_len.simps)
  also have "rune_len (c # ds) = rune_len s" using len hd by simp
  finally show ?thesis using le by (simp flip: hd)
qed

text \<open>Reading back what was written gives the string, if it is valid UTF-8.\<close>

theorem unquote_esc:
  "utf8_valid s \<Longrightarrow> unquote (esc s @ quote # rest) = Some (s, rest)"
proof (induction s rule: esc.induct)
  case (1 s)
  show ?case
  proof (cases s)
    case Nil
    then show ?thesis by (simp add: esc.simps)
  next
    case (Cons c cs)
    show ?thesis
    proof (cases "byte c < 128")
      case True
      with 1 Cons have "unquote (esc cs @ quote # rest) = Some (cs, rest)" by simp
      with True Cons unquote_esc_ascii [OF True, of "esc cs @ quote # rest"]
      show ?thesis by (simp add: esc.simps [of "c # cs"])
    next
      case False
      have r: "rune_len s \<noteq> 0" "utf8_valid (drop (rune_len s) s)"
        using utf8_validD [OF 1(6)] Cons by simp_all
      consider "take 3 s = line_sep" | "take 3 s = para_sep" | "take 3 s \<noteq> line_sep" "take 3 s \<noteq> para_sep"
        by blast
      then show ?thesis
      proof cases
        case 1
        then obtain t where s: "s = line_sep @ t" by (metis append_take_drop_id)
        have "rune_len s = 3" by (simp add: s line_sep_def chars_def in_range_def is_cont_def rune_len.simps)
        with r s have t: "utf8_valid t" "drop 3 s = t" by (simp_all add: line_sep_def chars_def)
        have e: "esc s = u_escape 0x2028 @ esc t"
          using 1 t False Cons r by (subst esc.simps) simp
        have "unquote (esc t @ quote # rest) = Some (t, rest)"
          using "1.IH"(3) [OF Cons False r(1) 1] t by simp
        moreover have "encode_rune 0x2028 = line_sep" by (simp add: encode_rune_def line_sep_def)
        ultimately show ?thesis using e s by (simp add: unquote_u_escape)
      next
        case 2
        then obtain t where s: "s = para_sep @ t" by (metis append_take_drop_id)
        have "rune_len s = 3" by (simp add: s para_sep_def chars_def in_range_def is_cont_def rune_len.simps)
        with r s have t: "utf8_valid t" "drop 3 s = t" by (simp_all add: para_sep_def chars_def)
        have ne: "take 3 s \<noteq> line_sep" using 2 by (simp add: line_sep_def para_sep_def chars_def)
        have e: "esc s = u_escape 0x2029 @ esc t"
          using 2 ne t False Cons r by (subst esc.simps) simp
        have "unquote (esc t @ quote # rest) = Some (t, rest)"
          using "1.IH"(4) [OF Cons False r(1) ne 2] t by simp
        moreover have "encode_rune 0x2029 = para_sep" by (simp add: encode_rune_def para_sep_def)
        ultimately show ?thesis using e s by (simp add: unquote_u_escape)
      next
        case 3
        have e: "esc s = take (rune_len s) s @ esc (drop (rune_len s) s)"
          using 3 False Cons r by (subst esc.simps) simp
        have "unquote (esc (drop (rune_len s) s) @ quote # rest) = Some (drop (rune_len s) s, rest)"
          using "1.IH"(5) [OF Cons False r(1) 3] r(2) by simp
        with e r(1) False Cons unquote_rune [of s "esc (drop (rune_len s) s) @ quote # rest"]
        show ?thesis by simp
      qed
    qed
  qed
qed

section \<open>Values\<close>

text \<open>A number is kept as its literal.\<close>

datatype json =
    JNull
  | JBool bool
  | JNum string
  | JStr string
  | JArr "json list"
  | JObj "(string \<times> json) list"

definition num_char :: "char \<Rightarrow> bool" where
  "num_char c \<longleftrightarrow> is_digit c \<or> c \<in> set ''+-.eE''"

text \<open>The grammar of number literals: sign, integer part, fraction, exponent.\<close>

definition int_part :: "string \<Rightarrow> string option" where
  "int_part s = (case s of
      [] \<Rightarrow> None
    | c # cs \<Rightarrow> if c = CHR ''0'' then Some cs
                else if is_digit c then Some (dropWhile is_digit cs) else None)"

definition frac_part :: "string \<Rightarrow> string option" where
  "frac_part s = (case s of
      c # d # cs \<Rightarrow> if c = CHR ''.'' then (if is_digit d then Some (dropWhile is_digit cs) else None)
                    else Some s
    | [c] \<Rightarrow> if c = CHR ''.'' then None else Some s
    | [] \<Rightarrow> Some [])"

definition exp_part :: "string \<Rightarrow> string option" where
  "exp_part s = (case s of
      [] \<Rightarrow> Some []
    | c # cs \<Rightarrow>
        if c = CHR ''e'' \<or> c = CHR ''E'' then
          (let ds = (case cs of x # xs \<Rightarrow> if x = CHR ''+'' \<or> x = CHR ''-'' then xs else cs | [] \<Rightarrow> [])
           in if ds \<noteq> [] \<and> is_digit (hd ds) then Some (dropWhile is_digit ds) else None)
        else Some s)"

definition num_ok :: "string \<Rightarrow> bool" where
  "num_ok s = (let s1 = (case s of c # cs \<Rightarrow> if c = CHR ''-'' then cs else s | [] \<Rightarrow> [])
     in case int_part s1 of None \<Rightarrow> False
        | Some s2 \<Rightarrow> (case frac_part s2 of None \<Rightarrow> False
           | Some s3 \<Rightarrow> exp_part s3 = Some []))"

lemma dropWhile_digits: "(\<And>c. c \<in> set s \<Longrightarrow> is_digit c) \<Longrightarrow> dropWhile is_digit s = []"
  by (simp add: dropWhile_eq_Nil_conv)

lemma digits_lead: "digits n = c # cs \<Longrightarrow> c = CHR ''0'' \<Longrightarrow> cs = []"
proof (induction n arbitrary: c cs rule: digits.induct)
  case (1 n)
  show ?case
  proof (cases "n < 10")
    case True
    with 1 show ?thesis by (simp add: digits.simps [of n])
  next
    case False
    then have d: "digits n = digits (n div 10) @ [digit_char (n mod 10)]" by (simp add: digits.simps [of n])
    obtain b bs where b: "digits (n div 10) = b # bs" by (cases "digits (n div 10)") auto
    with d "1.prems" have "b = CHR ''0''" by simp
    from "1.IH" [OF False b this] have "bs = []" .
    with b have e: "digits (n div 10) = [CHR ''0'']" using \<open>b = CHR ''0''\<close> by simp
    have "digits_val 0 (digits (n div 10)) = Some 0" unfolding e by (simp add: is_digit_def digit_val_def)
    then have "n div 10 = 0" by (simp add: digits_val_digits)
    with False show ?thesis by simp
  qed
qed

lemma num_ok_digits: "num_ok (digits n)"
proof -
  obtain c cs where c: "digits n = c # cs" "is_digit c" using digits_head by blast
  have "c \<noteq> CHR ''-''" using c(2) by (auto simp: is_digit_def)
  moreover have "\<And>x. x \<in> set cs \<Longrightarrow> is_digit x" using digits_all [of _ n] c by auto
  ultimately show ?thesis
    using c digits_lead [OF c(1)]
    by (auto simp: num_ok_def int_part_def frac_part_def exp_part_def dropWhile_digits)
qed

lemma num_ok_FormatInt: "num_ok (FormatInt n)"
proof (cases "n < 0")
  case True
  have "num_ok (CHR ''-'' # digits m) = num_ok (digits m)" for m
  proof -
    obtain c cs where c: "digits m = c # cs" "is_digit c" using digits_head by blast
    then have "c \<noteq> CHR ''-''" by (auto simp: is_digit_def)
    with c show ?thesis by (simp add: num_ok_def)
  qed
  with True num_ok_digits show ?thesis by (simp add: FormatInt_def)
qed (simp add: FormatInt_def num_ok_digits)

lemma num_char_FormatInt: "c \<in> set (FormatInt n) \<Longrightarrow> num_char c"
  by (auto simp: FormatInt_def num_char_def dest: digits_all split: if_splits)

subsection \<open>Writing\<close>

text \<open>The compact form of \<open>json.Marshal\<close>.\<close>

fun commas :: "string list \<Rightarrow> string" where
  "commas [] = []"
| "commas [x] = x"
| "commas (x # y # ys) = x @ '','' @ commas (y # ys)"

fun render :: "json \<Rightarrow> string" where
  "render JNull = ''null''"
| "render (JBool b) = (if b then ''true'' else ''false'')"
| "render (JNum n) = n"
| "render (JStr s) = json_quote s"
| "render (JArr xs) = ''['' @ commas (map render xs) @ '']''"
| "render (JObj ms) = ''{'' @ commas (map (\<lambda>(k, v). json_quote k @ '':'' @ render v) ms) @ ''}''"

subsection \<open>Reading\<close>

definition skip_ws :: "string \<Rightarrow> string" where
  "skip_ws s = dropWhile (\<lambda>c. byte c \<in> {9, 10, 13, 32}) s"

text \<open>
  A reader of values. The fuel bounds the nesting and the members; the length of the text is
  always enough.
\<close>

fun parse_value :: "nat \<Rightarrow> string \<Rightarrow> (json \<times> string) option"
  and parse_elems :: "nat \<Rightarrow> string \<Rightarrow> (json list \<times> string) option"
  and parse_members :: "nat \<Rightarrow> string \<Rightarrow> ((string \<times> json) list \<times> string) option" where
  "parse_value 0 s = None"
| "parse_value (Suc n) s = (case skip_ws s of
      [] \<Rightarrow> None
    | c # cs \<Rightarrow>
        if c = quote then map_option (\<lambda>(v, r). (JStr v, r)) (unquote cs)
        else if c = CHR ''{'' then
          (case skip_ws cs of
             [] \<Rightarrow> None
           | e # es \<Rightarrow> if e = CHR ''}'' then Some (JObj [], es)
                       else map_option (\<lambda>(ms, r). (JObj ms, r)) (parse_members n cs))
        else if c = CHR ''['' then
          (case skip_ws cs of
             [] \<Rightarrow> None
           | e # es \<Rightarrow> if e = CHR '']'' then Some (JArr [], es)
                       else map_option (\<lambda>(xs, r). (JArr xs, r)) (parse_elems n cs))
        else if has_prefix ''true'' (c # cs) then Some (JBool True, drop 3 cs)
        else if has_prefix ''false'' (c # cs) then Some (JBool False, drop 4 cs)
        else if has_prefix ''null'' (c # cs) then Some (JNull, drop 3 cs)
        else (let lit = takeWhile num_char (c # cs) in
              if num_ok lit then Some (JNum lit, dropWhile num_char (c # cs)) else None))"
| "parse_elems 0 s = None"
| "parse_elems (Suc n) s = (case parse_value n s of
      None \<Rightarrow> None
    | Some (v, r) \<Rightarrow> (case skip_ws r of
         [] \<Rightarrow> None
       | c # cs \<Rightarrow> if c = CHR '']'' then Some ([v], cs)
                   else if c = CHR '','' then map_option (\<lambda>(vs, r'). (v # vs, r')) (parse_elems n cs)
                   else None))"
| "parse_members 0 s = None"
| "parse_members (Suc n) s = (case skip_ws s of
      [] \<Rightarrow> None
    | q # qs \<Rightarrow>
        if q \<noteq> quote then None
        else (case unquote qs of
          None \<Rightarrow> None
        | Some (k, r) \<Rightarrow> (case skip_ws r of
             [] \<Rightarrow> None
           | c # cs \<Rightarrow>
               if c \<noteq> CHR '':'' then None
               else (case parse_value n cs of
                 None \<Rightarrow> None
               | Some (v, r2) \<Rightarrow> (case skip_ws r2 of
                    [] \<Rightarrow> None
                  | e # es \<Rightarrow>
                      if e = CHR ''}'' then Some ([(k, v)], es)
                      else if e = CHR '','' then
                        map_option (\<lambda>(ms, r'). ((k, v) # ms, r')) (parse_members n es)
                      else None)))))"

definition parse_json :: "string \<Rightarrow> json option" where
  "parse_json s = (case parse_value (Suc (length s)) s of
      Some (v, r) \<Rightarrow> if skip_ws r = [] then Some v else None
    | None \<Rightarrow> None)"

subsection \<open>The round trip of values\<close>

text \<open>What \<open>json.Marshal\<close> is given: valid UTF-8 in every string and proper literals.\<close>

fun json_ok :: "json \<Rightarrow> bool" where
  "json_ok (JNum n) = (num_ok n \<and> list_all num_char n)"
| "json_ok (JStr s) = utf8_valid s"
| "json_ok (JArr xs) = list_all json_ok xs"
| "json_ok (JObj ms) = list_all (\<lambda>(k, v). utf8_valid k \<and> json_ok v) ms"
| "json_ok _ = True"

text \<open>A number must be followed by something else.\<close>

definition ends :: "string \<Rightarrow> bool" where
  "ends rest \<longleftrightarrow> rest = [] \<or> \<not> num_char (hd rest)"

lemma ends_simps [simp]: "ends []" "ends (CHR '','' # r)" "ends (CHR ''}'' # r)" "ends (CHR '']'' # r)"
  by (simp_all add: ends_def num_char_def is_digit_def)

lemma skip_ws_stop: "byte c \<notin> {9, 10, 13, 32} \<Longrightarrow> skip_ws (c # s) = c # s"
  by (simp add: skip_ws_def)

lemma skip_ws_simps [simp]:
  "skip_ws [] = []" "skip_ws (quote # s) = quote # s" "skip_ws (CHR '','' # s) = CHR '','' # s"
  "skip_ws (CHR '':'' # s) = CHR '':'' # s" "skip_ws (CHR ''}'' # s) = CHR ''}'' # s"
  "skip_ws (CHR '']'' # s) = CHR '']'' # s" "skip_ws (CHR ''{'' # s) = CHR ''{'' # s"
  "skip_ws (CHR ''['' # s) = CHR ''['' # s"
  by (simp_all add: skip_ws_def)

lemma quote_neq [simp]: "CHR ''{'' \<noteq> quote" "CHR ''['' \<noteq> quote" "CHR ''n'' \<noteq> quote" "CHR ''t'' \<noteq> quote"
  "CHR ''f'' \<noteq> quote" "quote \<noteq> CHR ''}''" "quote \<noteq> CHR '']''" "quote \<noteq> CHR ''{''" "quote \<noteq> CHR ''[''"
  by (simp_all add: quote_def)

lemma parse_string:
  "utf8_valid s \<Longrightarrow> parse_value (Suc n) (json_quote s @ rest) = Some (JStr s, rest)"
  by (simp add: json_quote_def unquote_esc)

lemma parse_number:
  assumes "num_ok lit" and "list_all num_char lit" and "ends rest"
  shows "parse_value (Suc n) (lit @ rest) = Some (JNum lit, rest)"
proof -
  obtain c cs where lit: "lit = c # cs" using assms(1) by (cases lit) (auto simp: num_ok_def int_part_def)
  have head: "c = CHR ''-'' \<or> is_digit c"
    using assms(1) unfolding lit num_ok_def int_part_def
    by (auto simp: Let_def is_digit_def split: if_splits option.splits)
  then have c: "c \<noteq> quote" "c \<noteq> CHR ''{''" "c \<noteq> CHR ''[''" "c \<noteq> CHR ''t''" "c \<noteq> CHR ''f''"
    "c \<noteq> CHR ''n''" "byte c \<notin> {9, 10, 13, 32}"
    by (auto simp: is_digit_def quote_def)
  have all: "\<And>x. x \<in> set lit \<Longrightarrow> num_char x" using assms(2) by (simp add: list_all_iff)
  have "takeWhile num_char (lit @ rest) = lit" and "dropWhile num_char (lit @ rest) = rest"
    using assms(3) all by (cases rest; simp add: ends_def takeWhile_append2 dropWhile_append2)+
  then have "takeWhile num_char (c # cs @ rest) = lit" and "dropWhile num_char (c # cs @ rest) = rest"
    by (simp_all only: lit append_Cons)
  with c assms(1) show ?thesis
    by (simp del: takeWhile.simps dropWhile.simps add: lit skip_ws_stop Let_def)
qed

lemma commas_Cons: "xs \<noteq> [] \<Longrightarrow> commas (x # xs) = x @ '','' @ commas xs"
  by (cases xs) auto

lemma render_nonempty: "json_ok j \<Longrightarrow> render j \<noteq> []"
  by (cases j) (auto simp: json_quote_def num_ok_def int_part_def)

text \<open>The first byte of a value is not a bracket that closes, nor white space.\<close>

lemma render_head:
  assumes "json_ok j"
  shows "\<exists>c cs. render j = c # cs \<and> byte c \<notin> {9, 10, 13, 32} \<and> c \<noteq> CHR '']'' \<and> c \<noteq> CHR ''}''"
proof (cases j)
  case (JNum lit)
  with assms obtain c cs where lit: "lit = c # cs" by (cases lit) (auto simp: num_ok_def int_part_def)
  have "c = CHR ''-'' \<or> is_digit c"
    using assms unfolding JNum lit
    by (auto simp: num_ok_def int_part_def Let_def is_digit_def split: if_splits option.splits)
  with JNum lit show ?thesis by (auto simp: is_digit_def)
qed (auto simp: json_quote_def quote_def)

theorem parse_render:
  shows "json_ok j \<Longrightarrow> length (render j) < n \<Longrightarrow> ends rest \<Longrightarrow>
      parse_value n (render j @ rest) = Some (j, rest)"
proof (induction j arbitrary: n rest)
  case JNull
  then obtain m where "n = Suc m" by (cases n) auto
  then show ?case by (simp add: skip_ws_stop)
next
  case (JBool b)
  then obtain m where "n = Suc m" by (cases n) auto
  then show ?case by (simp add: skip_ws_stop)
next
  case (JNum lit)
  then obtain m where "n = Suc m" by (cases n) auto
  with JNum show ?case using parse_number [of lit rest m] by simp
next
  case (JStr s)
  then obtain m where "n = Suc m" by (cases n) auto
  with JStr show ?case using parse_string [of s m rest] by simp
next
  case (JArr xs)
  have elems: "parse_elems n (commas (map render ys) @ CHR '']'' # rest) = Some (ys, rest)"
    if "set ys \<subseteq> set xs" "ys \<noteq> []" "list_all json_ok ys" "length (commas (map render ys)) + 1 < n"
    for ys n rest
    using that
  proof (induction ys arbitrary: n)
    case Nil
    then show ?case by simp
  next
    case (Cons y ys)
    obtain m where n: "n = Suc m" using Cons.prems by (cases n) auto
    have y: "y \<in> set xs" "json_ok y" using Cons.prems by auto
    show ?case
    proof (cases "ys = []")
      case True
      have "length (render y) < m" using Cons.prems n True by simp
      with JArr.IH [OF y] show ?thesis by (simp add: n True)
    next
      case False
      have len: "length (render y) < m" "length (commas (map render ys)) + 1 < m"
        using Cons.prems(4) n False by (simp_all add: commas_Cons)
      have "parse_elems m (commas (map render ys) @ CHR '']'' # rest) = Some (ys, rest)"
        using Cons.prems False len by (intro Cons.IH) auto
      with JArr.IH [OF y len(1)] False show ?thesis by (simp add: n commas_Cons)
    qed
  qed
  obtain m where n: "n = Suc m" using JArr.prems by (cases n) auto
  show ?case
  proof (cases "xs = []")
    case True
    then show ?thesis by (simp add: n)
  next
    case False
    then obtain y ys where xs: "xs = y # ys" by (cases xs) auto
    with JArr.prems have "json_ok y" by simp
    from render_head [OF this] obtain c cs where c: "render y = c # cs"
      "byte c \<notin> {9, 10, 13, 32}" "c \<noteq> CHR '']''" by blast
    have "\<exists>ds. commas (map render xs) = c # ds"
      using c(1) xs by (cases ys) (simp_all add: commas_Cons)
    then obtain ds where ds: "commas (map render xs) = c # ds" ..
    have "parse_elems m (commas (map render xs) @ CHR '']'' # rest) = Some (xs, rest)"
      using JArr.prems False n by (intro elems) auto
    then show ?thesis using c ds by (simp add: n skip_ws_stop)
  qed
next
  case (JObj ms)
  let ?r = "\<lambda>(k, v). json_quote k @ '':'' @ render v"
  have members: "parse_members n (commas (map ?r ys) @ CHR ''}'' # rest) = Some (ys, rest)"
    if "set ys \<subseteq> set ms" "ys \<noteq> []" "list_all (\<lambda>(k, v). utf8_valid k \<and> json_ok v) ys"
      "length (commas (map ?r ys)) + 1 < n" for ys n rest
    using that
  proof (induction ys arbitrary: n)
    case Nil
    then show ?case by simp
  next
    case (Cons y ys)
    obtain k v where y: "y = (k, v)" by fastforce
    obtain m where n: "n = Suc m" using Cons.prems by (cases n) auto
    have kv: "(k, v) \<in> set ms" "utf8_valid k" "json_ok v" using Cons.prems y by auto
    have IHv: "length (render v) < m \<Longrightarrow> ends rest' \<Longrightarrow>
        parse_value m (render v @ rest') = Some (v, rest')" for rest'
      using JObj.IH [OF kv(1), of v] kv(3) by simp
    show ?case
    proof (cases "ys = []")
      case True
      have "length (render v) < m" using Cons.prems n True y by (simp add: json_quote_def)
      with IHv kv(2) show ?thesis by (simp add: n y True json_quote_def unquote_esc)
    next
      case False
      have len: "length (render v) < m" "length (commas (map ?r ys)) + 1 < m"
        using Cons.prems(4) n False y by (simp_all add: commas_Cons json_quote_def)
      have "parse_members m (commas (map ?r ys) @ CHR ''}'' # rest) = Some (ys, rest)"
        using Cons.prems False len by (intro Cons.IH) auto
      with IHv len(1) kv(2) False show ?thesis by (simp add: n y commas_Cons json_quote_def unquote_esc)
    qed
  qed
  obtain m where n: "n = Suc m" using JObj.prems by (cases n) auto
  show ?case
  proof (cases "ms = []")
    case True
    then show ?thesis by (simp add: n)
  next
    case False
    then obtain y ys where ms: "ms = y # ys" by (cases ms) auto
    obtain k v where y: "y = (k, v)" by fastforce
    have "\<exists>ds. commas (map ?r ms) = quote # ds"
      using ms y by (cases ys) (simp_all add: commas_Cons json_quote_def)
    then obtain ds where ds: "commas (map ?r ms) = quote # ds" ..
    have "parse_members m (commas (map ?r ms) @ CHR ''}'' # rest) = Some (ms, rest)"
      using JObj.prems False n by (intro members) auto
    then show ?thesis using ds by (simp add: n)
  qed
qed

theorem parse_json_render: "json_ok j \<Longrightarrow> parse_json (render j) = Some j"
  using parse_render [of j "Suc (length (render j))" "[]"] by (simp add: parse_json_def)

end
