(* ===== verification/Broker.thy ===== *)
theory Broker
  imports Database Json
begin

text \<open>
  \<open>internal/events/broker.go\<close>: the events, their JSON form on the NOTIFY channel, and the
  fan-out to subscribers with bounded buffers.
\<close>

section \<open>Events\<close>

definition KindVar :: string where "KindVar = ''var''"
definition KindConns :: string where "KindConns = ''conns''"
definition EvUpsert :: string where "EvUpsert = ''upsert''"
definition EvDelete :: string where "EvDelete = ''delete''"

lemma event_consts [simp]: "KindVar \<noteq> KindConns" "KindConns \<noteq> KindVar" "EvUpsert \<noteq> EvDelete" "EvDelete \<noteq> EvUpsert"
  by (simp_all add: KindVar_def KindConns_def EvUpsert_def EvDelete_def)

record event =
  ev_kind :: string
  ev_service_id :: int
  ev_service_key :: string
  ev_change_type :: string
  ev_key :: string
  ev_value :: string
  ev_version :: int

definition zero_event :: event where
  "zero_event = \<lparr>ev_kind = '''', ev_service_id = 0, ev_service_key = '''', ev_change_type = '''',
     ev_key = '''', ev_value = '''', ev_version = 0\<rparr>"

subsection \<open>JSON\<close>

text \<open>The struct tags: the name of each field, and \<open>omitempty\<close> on all but the first two.\<close>

definition omit_str :: "string \<Rightarrow> string \<Rightarrow> (string \<times> json) list" where
  "omit_str name s = (if s = [] then [] else [(name, JStr s)])"

definition event_members :: "event \<Rightarrow> (string \<times> json) list" where
  "event_members ev =
     [(''kind'', JStr (ev_kind ev)), (''service_id'', JNum (FormatInt (ev_service_id ev)))] @
     omit_str ''service_key'' (ev_service_key ev) @ omit_str ''change_type'' (ev_change_type ev) @
     omit_str ''key'' (ev_key ev) @ omit_str ''value'' (ev_value ev) @
     (if ev_version ev = 0 then [] else [(''version'', JNum (FormatInt (ev_version ev)))])"

definition marshal_event :: "event \<Rightarrow> string" where
  "marshal_event ev = render (JObj (event_members ev))"

text \<open>
  \<open>json.Unmarshal\<close> into the struct: names match exactly or up to case folding (U+212A folds to
  k, U+017F to s), null changes nothing, unknown names are skipped, a value of the wrong type
  makes the call fail. The text \<open>null\<close> leaves the zero event.
\<close>

fun fold_name :: "string \<Rightarrow> string" where
  "fold_name [] = []"
| "fold_name (c # cs) =
     (if take 3 (c # cs) = chars [0xE2, 0x84, 0xAA] then CHR ''k'' # fold_name (drop 2 cs)
      else if take 2 (c # cs) = chars [0xC5, 0xBF] then CHR ''s'' # fold_name (drop 1 cs)
      else lower_char c # fold_name cs)"

definition set_str :: "(string \<Rightarrow> event \<Rightarrow> event) \<Rightarrow> json \<Rightarrow> event \<Rightarrow> event option" where
  "set_str upd v ev = (case v of JStr s \<Rightarrow> Some (upd s ev) | JNull \<Rightarrow> Some ev | _ \<Rightarrow> None)"

definition set_int :: "(int \<Rightarrow> event \<Rightarrow> event) \<Rightarrow> json \<Rightarrow> event \<Rightarrow> event option" where
  "set_int upd v ev = (case v of
      JNum lit \<Rightarrow> map_option (\<lambda>n. upd n ev) (ParseInt lit) | JNull \<Rightarrow> Some ev | _ \<Rightarrow> None)"

definition set_member :: "string \<times> json \<Rightarrow> event \<Rightarrow> event option" where
  "set_member m ev = (case m of (name, v) \<Rightarrow>
     let n = fold_name name in
     if n = ''kind'' then set_str (\<lambda>s e. e\<lparr>ev_kind := s\<rparr>) v ev
     else if n = ''service_id'' then set_int (\<lambda>i e. e\<lparr>ev_service_id := i\<rparr>) v ev
     else if n = ''service_key'' then set_str (\<lambda>s e. e\<lparr>ev_service_key := s\<rparr>) v ev
     else if n = ''change_type'' then set_str (\<lambda>s e. e\<lparr>ev_change_type := s\<rparr>) v ev
     else if n = ''key'' then set_str (\<lambda>s e. e\<lparr>ev_key := s\<rparr>) v ev
     else if n = ''value'' then set_str (\<lambda>s e. e\<lparr>ev_value := s\<rparr>) v ev
     else if n = ''version'' then set_int (\<lambda>i e. e\<lparr>ev_version := i\<rparr>) v ev
     else Some ev)"

fun set_members :: "(string \<times> json) list \<Rightarrow> event \<Rightarrow> event option" where
  "set_members [] ev = Some ev"
| "set_members (m # ms) ev = (case set_member m ev of None \<Rightarrow> None | Some ev' \<Rightarrow> set_members ms ev')"

definition unmarshal_event :: "string \<Rightarrow> event option" where
  "unmarshal_event s = (case parse_json s of
      Some (JObj ms) \<Rightarrow> set_members ms zero_event
    | Some JNull \<Rightarrow> Some zero_event
    | _ \<Rightarrow> None)"

text \<open>What the database can hold: texts in UTF-8 and 64-bit integers.\<close>

definition event_ok :: "event \<Rightarrow> bool" where
  "event_ok ev \<longleftrightarrow> utf8_valid (ev_kind ev) \<and> utf8_valid (ev_service_key ev) \<and>
     utf8_valid (ev_change_type ev) \<and> utf8_valid (ev_key ev) \<and> utf8_valid (ev_value ev) \<and>
     int64_min \<le> ev_service_id ev \<and> ev_service_id ev \<le> int64_max \<and>
     int64_min \<le> ev_version ev \<and> ev_version ev \<le> int64_max"

lemma field_names_utf8 [simp]:
  "utf8_valid ''kind''" "utf8_valid ''service_id''" "utf8_valid ''service_key''"
  "utf8_valid ''change_type''" "utf8_valid ''key''" "utf8_valid ''value''" "utf8_valid ''version''"
  by simp_all

lemma num_lit: "list_all num_char (FormatInt n)"
  by (auto simp: list_all_iff intro: num_char_FormatInt)

lemma json_ok_members: "event_ok ev \<Longrightarrow> json_ok (JObj (event_members ev))"
  by (simp add: event_ok_def event_members_def omit_str_def num_ok_FormatInt num_lit)

lemma set_members_append:
  "set_members (xs @ ys) ev = (case set_members xs ev of None \<Rightarrow> None | Some ev' \<Rightarrow> set_members ys ev')"
  by (induction xs arbitrary: ev) (auto split: option.splits)

lemma fold_name_ascii: "list_all (\<lambda>c. byte c < 128) s \<Longrightarrow> fold_name s = map lower_char s"
proof (induction s)
  case Nil
  then show ?case by simp
next
  case (Cons c cs)
  then have "c \<noteq> char_of (0xE2 :: nat)" "c \<noteq> char_of (0xC5 :: nat)" by auto
  with Cons show ?case by (simp add: chars_def)
qed

declare fold_name.simps [simp del]

lemma fold_names [simp]:
  "fold_name ''kind'' = ''kind''" "fold_name ''service_id'' = ''service_id''"
  "fold_name ''service_key'' = ''service_key''" "fold_name ''change_type'' = ''change_type''"
  "fold_name ''key'' = ''key''" "fold_name ''value'' = ''value''" "fold_name ''version'' = ''version''"
  by (simp_all add: fold_name_ascii lower_char_def is_upper_def)

lemma set_member_fields [simp]:
  "set_member (''kind'', v) ev = set_str (\<lambda>s e. e\<lparr>ev_kind := s\<rparr>) v ev"
  "set_member (''service_id'', v) ev = set_int (\<lambda>i e. e\<lparr>ev_service_id := i\<rparr>) v ev"
  "set_member (''service_key'', v) ev = set_str (\<lambda>s e. e\<lparr>ev_service_key := s\<rparr>) v ev"
  "set_member (''change_type'', v) ev = set_str (\<lambda>s e. e\<lparr>ev_change_type := s\<rparr>) v ev"
  "set_member (''key'', v) ev = set_str (\<lambda>s e. e\<lparr>ev_key := s\<rparr>) v ev"
  "set_member (''value'', v) ev = set_str (\<lambda>s e. e\<lparr>ev_value := s\<rparr>) v ev"
  "set_member (''version'', v) ev = set_int (\<lambda>i e. e\<lparr>ev_version := i\<rparr>) v ev"
  by (simp_all add: set_member_def)

lemma set_omit_str:
  assumes "\<And>v e. set_member (name, v) e = set_str upd v e" and "s = [] \<Longrightarrow> upd s ev = ev"
  shows "set_members (omit_str name s) ev = Some (upd s ev)"
  using assms by (simp add: omit_str_def set_str_def)

lemma set_event_members:
  assumes "event_ok ev"
  shows "set_members (event_members ev) zero_event = Some ev"
proof -
  have ints: "ParseInt (FormatInt (ev_service_id ev)) = Some (ev_service_id ev)"
    "ParseInt (FormatInt (ev_version ev)) = Some (ev_version ev)"
    using assms by (simp_all add: event_ok_def ParseInt_FormatInt)
  show ?thesis
    by (cases ev) (use ints in \<open>simp add: event_members_def set_members_append set_str_def set_int_def
        zero_event_def omit_str_def\<close>)
qed

text \<open>Every replica reads from the channel the event that was published.\<close>

lemma unmarshal_marshal:
  assumes "event_ok ev"
  shows "unmarshal_event (marshal_event ev) = Some ev"
  using parse_json_render [OF json_ok_members [OF assms]] set_event_members [OF assms]
  by (simp add: unmarshal_event_def marshal_event_def)

section \<open>Publish\<close>

definition Publish :: "event \<Rightarrow> unit dbm" where
  "Publish ev = pg_notify (marshal_event ev)"

lemma Publish_cases:
  assumes "Publish ev d = (r, d')"
  obtains (fault) "r = Inl ErrFault" and "tbl d' = tbl d" and "notifs d' = notifs d" and "seqs d' = seqs d"
  | (long) "r = Inl ErrPayload" and "8000 \<le> length (marshal_event ev)" and "tbl d' = tbl d"
      and "notifs d' = notifs d" and "seqs d' = seqs d"
  | (sent) "r = Inr ()" and "length (marshal_event ev) < 8000" and "tbl d' = tbl d"
      and "notifs d' = notifs d @ [marshal_event ev]" and "seqs d' = seqs d"
  using assms unfolding Publish_def pg_notify_def
  by (elim stmt_cases) (auto split: if_splits)

section \<open>Subscribers\<close>

text \<open>
  The set of subscribers is a list of entries with fresh ids (the pointers of the source).
  A channel is its buffer; \<open>Subscribe\<close> makes it with room for 64 events.
\<close>

definition chan_cap :: nat where "chan_cap = 64"

record subscriber =
  sub_id :: nat
  sub_service :: int
  sub_buf :: "event list"

record broker =
  subs :: "subscriber list"
  next_sub :: nat

definition NewBroker :: broker where
  "NewBroker = \<lparr>subs = [], next_sub = 0\<rparr>"

definition Subscribe :: "int \<Rightarrow> broker \<Rightarrow> nat \<times> broker" where
  "Subscribe serviceID b = (next_sub b,
     b\<lparr>subs := subs b @ [\<lparr>sub_id = next_sub b, sub_service = serviceID, sub_buf = []\<rparr>],
       next_sub := next_sub b + 1\<rparr>)"

text \<open>The cancel function: the entry goes away and its channel is closed; twice is harmless.\<close>

definition unsubscribe :: "nat \<Rightarrow> broker \<Rightarrow> broker" where
  "unsubscribe i b = b\<lparr>subs := filter (\<lambda>s. sub_id s \<noteq> i) (subs b)\<rparr>"

definition wants :: "event \<Rightarrow> int \<Rightarrow> bool" where
  "wants ev serviceID \<longleftrightarrow> \<not> (serviceID \<noteq> 0 \<and> serviceID \<noteq> ev_service_id ev)"

text \<open>The send with a default branch: a full buffer drops the event.\<close>

definition offer :: "event \<Rightarrow> subscriber \<Rightarrow> subscriber" where
  "offer ev s =
     (if \<not> wants ev (sub_service s) then s
      else if length (sub_buf s) < chan_cap then s\<lparr>sub_buf := sub_buf s @ [ev]\<rparr>
      else s)"

definition dispatch :: "event \<Rightarrow> broker \<Rightarrow> broker" where
  "dispatch ev b = b\<lparr>subs := map (offer ev) (subs b)\<rparr>"

text \<open>A subscriber takes the first event of its buffer.\<close>

definition receive :: "nat \<Rightarrow> broker \<Rightarrow> (event \<times> broker) option" where
  "receive i b = (case find (\<lambda>s. sub_id s = i) (subs b) of
      None \<Rightarrow> None
    | Some s \<Rightarrow> (case sub_buf s of
         [] \<Rightarrow> None
       | ev # evs \<Rightarrow> Some (ev, b\<lparr>subs := update_where (\<lambda>x. sub_id x = i)
             (\<lambda>x. x\<lparr>sub_buf := evs\<rparr>) (subs b)\<rparr>)))"

text \<open>One notification in the loop of \<open>listenLoop\<close>: a payload that does not parse is skipped.\<close>

definition on_notification :: "string \<Rightarrow> broker \<Rightarrow> broker" where
  "on_notification payload b = (case unmarshal_event payload of
      None \<Rightarrow> b
    | Some ev \<Rightarrow> dispatch ev b)"

definition broker_inv :: "broker \<Rightarrow> bool" where
  "broker_inv b \<longleftrightarrow> distinct (map sub_id (subs b)) \<and>
     (\<forall>s \<in> set (subs b). sub_id s < next_sub b \<and> length (sub_buf s) \<le> chan_cap)"

definition find_sub :: "nat \<Rightarrow> broker \<Rightarrow> subscriber option" where
  "find_sub i b = find (\<lambda>s. sub_id s = i) (subs b)"

text \<open>The events that wait for a subscriber.\<close>

definition pending :: "broker \<Rightarrow> nat \<Rightarrow> event list" where
  "pending b i = (case find_sub i b of None \<Rightarrow> [] | Some s \<Rightarrow> sub_buf s)"

definition topic :: "broker \<Rightarrow> nat \<Rightarrow> int option" where
  "topic b i = map_option sub_service (find_sub i b)"

lemma offer_sel [simp]: "sub_id (offer ev s) = sub_id s" "sub_service (offer ev s) = sub_service s"
  by (simp_all add: offer_def)

lemma offer_cap: "length (sub_buf s) \<le> chan_cap \<Longrightarrow> length (sub_buf (offer ev s)) \<le> chan_cap"
  by (simp add: offer_def)

lemma broker_inv_new: "broker_inv NewBroker"
  by (simp add: broker_inv_def NewBroker_def)

lemma broker_inv_subscribe: "broker_inv b \<Longrightarrow> broker_inv (snd (Subscribe sid b))"
  by (auto simp: broker_inv_def Subscribe_def)

lemma broker_inv_unsubscribe: "broker_inv b \<Longrightarrow> broker_inv (unsubscribe i b)"
  by (auto simp: broker_inv_def unsubscribe_def distinct_map_filter)

lemma broker_inv_dispatch: "broker_inv b \<Longrightarrow> broker_inv (dispatch ev b)"
  by (auto simp: broker_inv_def dispatch_def comp_def offer_cap)

lemma broker_inv_notification: "broker_inv b \<Longrightarrow> broker_inv (on_notification p b)"
  by (simp add: on_notification_def broker_inv_dispatch split: option.split)

lemma broker_inv_receive: "broker_inv b \<Longrightarrow> receive i b = Some (ev, b') \<Longrightarrow> broker_inv b'"
proof -
  assume inv: "broker_inv b" and "receive i b = Some (ev, b')"
  then obtain s evs where s: "find (\<lambda>s. sub_id s = i) (subs b) = Some s" "sub_buf s = ev # evs"
    and b': "b' = b\<lparr>subs := update_where (\<lambda>x. sub_id x = i) (\<lambda>x. x\<lparr>sub_buf := evs\<rparr>) (subs b)\<rparr>"
    by (auto simp: receive_def split: option.splits list.splits)
  from s(1) have "s \<in> set (subs b)" by (auto dest: find_SomeD)
  with inv s(2) have "Suc (length evs) \<le> chan_cap" by (auto simp: broker_inv_def)
  with inv show ?thesis
    by (auto simp: b' broker_inv_def elim!: in_set_update_whereE)
qed

lemma find_sub_dispatch [simp]: "find_sub i (dispatch ev b) = map_option (offer ev) (find_sub i b)"
  by (simp add: find_sub_def dispatch_def find_map comp_def)

lemma find_sub_subscribe:
  "broker_inv b \<Longrightarrow> Subscribe sid b = (j, b') \<Longrightarrow> find_sub i b' =
     (if i = j then Some \<lparr>sub_id = j, sub_service = sid, sub_buf = []\<rparr> else find_sub i b)"
proof -
  assume inv: "broker_inv b" and "Subscribe sid b = (j, b')"
  then have j: "j = next_sub b" and
    b': "subs b' = subs b @ [\<lparr>sub_id = j, sub_service = sid, sub_buf = []\<rparr>]"
    by (auto simp: Subscribe_def)
  have fresh: "find_sub j b = None"
    using inv by (auto simp: broker_inv_def find_sub_def find_eq_None j)
  show ?thesis
  proof (cases "find_sub i b")
    case None
    then show ?thesis by (auto simp: find_sub_def b' find_append)
  next
    case (Some s)
    with fresh have "i \<noteq> j" by auto
    with Some show ?thesis by (simp add: find_sub_def b' find_append)
  qed
qed

lemma find_sub_unsubscribe:
  "find_sub i (unsubscribe j b) = (if i = j then None else find_sub i b)"
  by (auto simp: find_sub_def unsubscribe_def find_filter find_eq_None intro!: find_cong_pred)

lemma find_sub_receive:
  assumes "receive j b = Some (ev, b')"
  shows "find_sub i b' = (if i = j then map_option (\<lambda>s. s\<lparr>sub_buf := tl (sub_buf s)\<rparr>) (find_sub i b)
     else find_sub i b)"
    and "\<exists>s. find_sub j b = Some s \<and> sub_buf s = ev # tl (sub_buf s)"
proof -
  from assms obtain s evs where s: "find_sub j b = Some s" "sub_buf s = ev # evs"
    and b': "b' = b\<lparr>subs := update_where (\<lambda>x. sub_id x = j) (\<lambda>x. x\<lparr>sub_buf := evs\<rparr>) (subs b)\<rparr>"
    by (auto simp: receive_def find_sub_def split: option.splits list.splits)
  then show "\<exists>s. find_sub j b = Some s \<and> sub_buf s = ev # tl (sub_buf s)" by auto
  have up: "find_sub i b' = map_option (\<lambda>x. if sub_id x = j then x\<lparr>sub_buf := evs\<rparr> else x) (find_sub i b)"
    unfolding find_sub_def b' by (simp add: find_update_where)
  show "find_sub i b' = (if i = j then map_option (\<lambda>s. s\<lparr>sub_buf := tl (sub_buf s)\<rparr>) (find_sub i b)
     else find_sub i b)"
  proof (cases "i = j")
    case True
    have "sub_id s = j" using s(1) by (auto simp: find_sub_def dest: find_SomeD)
    with True up s show ?thesis by simp
  next
    case False
    have "sub_id x = i" if "find_sub i b = Some x" for x
      using that by (auto simp: find_sub_def dest: find_SomeD)
    with False up show ?thesis by (cases "find_sub i b") auto
  qed
qed

section \<open>The contract of a subscription\<close>

text \<open>
  What a stream relies on: a fresh subscription waits empty; a dispatched event that the
  topic wants arrives at the end of the buffer as long as there is room; other events and
  other subscribers do not touch it; and receiving takes the first.
\<close>

locale subscription =
  fixes inv :: "'b \<Rightarrow> bool"
    and waiting :: "'b \<Rightarrow> nat \<Rightarrow> event list"
    and topic_of :: "'b \<Rightarrow> nat \<Rightarrow> int option"
    and sub :: "int \<Rightarrow> 'b \<Rightarrow> nat \<times> 'b"
    and send :: "event \<Rightarrow> 'b \<Rightarrow> 'b"
    and recv :: "nat \<Rightarrow> 'b \<Rightarrow> (event \<times> 'b) option"
    and cap :: nat
  assumes sub_new: "inv b \<Longrightarrow> sub sid b = (i, b') \<Longrightarrow> inv b' \<and> waiting b' i = [] \<and> topic_of b' i = Some sid"
    and send_inv: "inv b \<Longrightarrow> inv (send ev b) \<and> topic_of (send ev b) i = topic_of b i"
    and send_waiting: "inv b \<Longrightarrow> topic_of b i = Some sid \<Longrightarrow> waiting (send ev b) i =
      (if wants ev sid \<and> length (waiting b i) < cap then waiting b i @ [ev] else waiting b i)"
    and recv_some: "inv b \<Longrightarrow> recv i b = Some (ev, b') \<Longrightarrow>
      inv b' \<and> waiting b i = ev # waiting b' i \<and> topic_of b' i = topic_of b i"
    and recv_none: "inv b \<Longrightarrow> topic_of b i \<noteq> None \<Longrightarrow> recv i b = None \<Longrightarrow> waiting b i = []"
begin

fun send_all :: "event list \<Rightarrow> 'b \<Rightarrow> 'b" where
  "send_all [] b = b"
| "send_all (ev # evs) b = send_all evs (send ev b)"

lemma send_all_waiting:
  "inv b \<Longrightarrow> topic_of b i = Some sid \<Longrightarrow>
     length (waiting b i) + length (filter (\<lambda>ev. wants ev sid) evs) \<le> cap \<Longrightarrow>
     inv (send_all evs b) \<and> topic_of (send_all evs b) i = Some sid \<and>
     waiting (send_all evs b) i = waiting b i @ filter (\<lambda>ev. wants ev sid) evs"
proof (induction evs arbitrary: b)
  case Nil
  then show ?case by simp
next
  case (Cons ev evs)
  have "inv (send ev b)" and "topic_of (send ev b) i = Some sid"
    using send_inv [OF Cons.prems(1)] Cons.prems(2) by simp_all
  moreover have "waiting (send ev b) i = waiting b i @ (if wants ev sid then [ev] else [])"
    using send_waiting [OF Cons.prems(1,2)] Cons.prems(3) by (auto split: if_splits)
  ultimately show ?case using Cons.IH [of "send ev b"] Cons.prems(3) by (auto split: if_splits)
qed

text \<open>Taking out everything that waits, in order.\<close>

fun drain :: "nat \<Rightarrow> nat \<Rightarrow> 'b \<Rightarrow> event list \<times> 'b" where
  "drain 0 i b = ([], b)"
| "drain (Suc n) i b = (case recv i b of
      None \<Rightarrow> ([], b)
    | Some (ev, b') \<Rightarrow> (let (evs, b2) = drain n i b' in (ev # evs, b2)))"

lemma drain_all:
  "inv b \<Longrightarrow> topic_of b i \<noteq> None \<Longrightarrow> length (waiting b i) \<le> n \<Longrightarrow>
     fst (drain n i b) = waiting b i"
proof (induction n arbitrary: b)
  case 0
  then show ?case by simp
next
  case (Suc n)
  show ?case
  proof (cases "recv i b")
    case None
    with recv_none [OF Suc.prems(1,2)] show ?thesis by simp
  next
    case (Some r)
    obtain ev b' where r: "r = (ev, b')" by fastforce
    from recv_some [OF Suc.prems(1)] Some r
    have b': "inv b'" "waiting b i = ev # waiting b' i" "topic_of b' i = topic_of b i" by auto
    with Suc have "fst (drain n i b') = waiting b' i" by (intro Suc.IH) auto
    with Some r b' show ?thesis by (simp add: split_beta Let_def)
  qed
qed

text \<open>A subscriber that starts before the events and has room gets all of them, in order.\<close>

lemma subscriber_gets_all:
  assumes "inv b" and "sub sid b = (i, b')" and "length (filter (\<lambda>ev. wants ev sid) evs) \<le> cap"
  shows "fst (drain (length evs) i (send_all evs b')) = filter (\<lambda>ev. wants ev sid) evs"
proof -
  note new = sub_new [OF assms(1,2)]
  from send_all_waiting [of b' i sid evs] new assms(3)
  have w: "inv (send_all evs b')" "topic_of (send_all evs b') i = Some sid"
    "waiting (send_all evs b') i = filter (\<lambda>ev. wants ev sid) evs" by simp_all
  then show ?thesis using drain_all [of "send_all evs b'" i "length evs"] by simp
qed

end

interpretation br: subscription broker_inv pending topic Subscribe dispatch receive chan_cap
proof (unfold_locales, goal_cases)
  case (1 b sid i b')
  then show ?case
    using broker_inv_subscribe [of b sid] find_sub_subscribe [of b sid i b' i]
    by (simp add: pending_def topic_def)
next
  case (2 b ev i)
  then show ?case
    by (simp add: broker_inv_dispatch topic_def option.map_comp comp_def)
next
  case (3 b i sid ev)
  then obtain s where "find_sub i b = Some s" "sub_service s = sid" by (auto simp: topic_def)
  then show ?case by (auto simp: pending_def offer_def)
next
  case (4 b i ev b')
  from find_sub_receive [OF 4(2)] obtain s where s: "find_sub i b = Some s" "sub_buf s = ev # tl (sub_buf s)"
    by blast
  with find_sub_receive(1) [OF 4(2), of i] show ?case
    using broker_inv_receive [OF 4] by (auto simp: pending_def topic_def)
next
  case (5 b i)
  then show ?case by (auto simp: receive_def pending_def topic_def find_sub_def split: option.splits list.splits)
qed

end
