(* ===== verification/Config_Client.thy ===== *)
theory Config_Client
  imports Broker
begin

text \<open>
  \<open>examples/go-client/configclient/client.go\<close>: the reference client that applications and the
  agent embed. It keeps the values of the server in \<open>overrides\<close>, lays them over the defaults
  and swaps the result in on every message.
\<close>

section \<open>Messages of the stream\<close>

text \<open>The oneof of \<open>proto/config.proto\<close>, as far as server and client use it.\<close>

datatype change_kind = UPSERT | DELETE

record pb_variable =
  pb_key :: string
  pb_value :: string
  pb_version :: int

datatype config_event =
    Snapshot "pb_variable list"
  | Change change_kind pb_variable
  | Heartbeat int

section \<open>The client\<close>

type_synonym config = "string \<rightharpoonup> string"

text \<open>\<open>cl_current\<close> is the atomic pointer that readers load.\<close>

record client =
  cl_defaults :: config
  cl_overrides :: config
  cl_current :: config

definition Get :: "config \<Rightarrow> string \<Rightarrow> string" where
  "Get c key = (case c key of None \<Rightarrow> '''' | Some v \<Rightarrow> v)"

definition GetOr :: "config \<Rightarrow> string \<Rightarrow> string \<Rightarrow> string" where
  "GetOr c key def = (case c key of None \<Rightarrow> def | Some v \<Rightarrow> v)"

definition rebuild :: "client \<Rightarrow> client" where
  "rebuild c = c\<lparr>cl_current := cl_defaults c ++ cl_overrides c\<rparr>"

definition NewClient :: "config \<Rightarrow> client" where
  "NewClient defaults =
     rebuild \<lparr>cl_defaults = defaults, cl_overrides = Map.empty, cl_current = Map.empty\<rparr>"

text \<open>The calls of the two hooks, with what they are given.\<close>

datatype hook = OnSnapshot config | OnChange string string bool

definition put_variables :: "pb_variable list \<Rightarrow> config" where
  "put_variables vs = fold (\<lambda>v m. m(pb_key v \<mapsto> pb_value v)) vs Map.empty"

text \<open>The switch in the loop of \<open>stream\<close>. The version of a change is only logged.\<close>

definition on_event :: "config_event \<Rightarrow> client \<Rightarrow> client \<times> hook list" where
  "on_event ev c = (case ev of
      Snapshot vs \<Rightarrow>
        (let c' = rebuild (c\<lparr>cl_overrides := put_variables vs\<rparr>)
         in (c', [OnSnapshot (cl_current c')]))
    | Change k v \<Rightarrow>
        (let deleted = (k = DELETE);
             c' = rebuild (c\<lparr>cl_overrides := (if deleted then (cl_overrides c)(pb_key v := None)
                                           else (cl_overrides c)(pb_key v \<mapsto> pb_value v))\<rparr>)
         in (c', [OnChange (pb_key v) (Get (cl_current c') (pb_key v)) deleted]))
    | Heartbeat ts \<Rightarrow> (c, []))"

text \<open>
  The loop of \<open>stream\<close> over what \<open>Recv\<close> returns. It ends with the error of \<open>Recv\<close>, an EOF
  included; None means that it still waits.
\<close>

fun stream :: "('err + config_event) list \<Rightarrow> client \<Rightarrow> 'err option \<times> client \<times> hook list" where
  "stream [] c = (None, c, [])"
| "stream (Inl e # rs) c = (Some e, c, [])"
| "stream (Inr ev # rs) c =
     (let (c1, h1) = on_event ev c; (e, c2, h2) = stream rs c1 in (e, c2, h1 @ h2))"

text \<open>
  The loop of \<open>Run\<close>: one entry per call of \<open>stream\<close> says how it returned (None for a nil
  error); the result lists the waits, in seconds.
\<close>

definition maxBackoff :: nat where "maxBackoff = 30"

fun run_waits :: "nat \<Rightarrow> 'err option list \<Rightarrow> nat list" where
  "run_waits backoff [] = []"
| "run_waits backoff (None # os) = run_waits 1 os"
| "run_waits backoff (Some e # os) = backoff # run_waits (min (2 * backoff) maxBackoff) os"

section \<open>Facts\<close>

text \<open>At any time the current configuration is the defaults overlaid with the overrides.\<close>

definition client_inv :: "client \<Rightarrow> bool" where
  "client_inv c \<longleftrightarrow> cl_current c = cl_defaults c ++ cl_overrides c"

lemma client_inv_new: "client_inv (NewClient d)"
  by (simp add: client_inv_def NewClient_def rebuild_def)

lemma client_inv_rebuild [simp]: "client_inv (rebuild c)"
  by (simp add: client_inv_def rebuild_def)

lemma rebuild_sel [simp]:
  "cl_defaults (rebuild c) = cl_defaults c" "cl_overrides (rebuild c) = cl_overrides c"
  "cl_current (rebuild c) = cl_defaults c ++ cl_overrides c"
  by (simp_all add: rebuild_def)

lemma client_inv_event: "client_inv c \<Longrightarrow> client_inv (fst (on_event ev c))"
  by (cases ev) (simp_all add: on_event_def Let_def)

lemma defaults_event [simp]: "cl_defaults (fst (on_event ev c)) = cl_defaults c"
  by (cases ev) (simp_all add: on_event_def Let_def)

text \<open>What a message does to the overrides.\<close>

fun apply_msg :: "config_event \<Rightarrow> config \<Rightarrow> config" where
  "apply_msg (Snapshot vs) m = put_variables vs"
| "apply_msg (Change UPSERT v) m = m(pb_key v \<mapsto> pb_value v)"
| "apply_msg (Change DELETE v) m = m(pb_key v := None)"
| "apply_msg (Heartbeat ts) m = m"

lemma overrides_event [simp]: "cl_overrides (fst (on_event ev c)) = apply_msg ev (cl_overrides c)"
proof (cases ev)
  case (Change k v)
  then show ?thesis by (cases k) (simp_all add: on_event_def Let_def)
qed (simp_all add: on_event_def Let_def)

definition receive_all :: "config_event list \<Rightarrow> client \<Rightarrow> client" where
  "receive_all evs c = fold (\<lambda>ev c. fst (on_event ev c)) evs c"

lemma receive_all_overrides: "cl_overrides (receive_all evs c) = fold apply_msg evs (cl_overrides c)"
  by (induction evs arbitrary: c) (simp_all add: receive_all_def)

lemma receive_all_inv:
  "client_inv c \<Longrightarrow> client_inv (receive_all evs c) \<and> cl_defaults (receive_all evs c) = cl_defaults c"
  by (induction evs arbitrary: c) (simp_all add: receive_all_def client_inv_event)

text \<open>\<open>stream\<close> never returns a nil error: it returns only from a failing \<open>Recv\<close>.\<close>

lemma stream_result:
  "stream rs c = (e, c', h) \<Longrightarrow>
     (case e of None \<Rightarrow> \<forall>r \<in> set rs. \<exists>ev. r = Inr ev | Some x \<Rightarrow> Inl x \<in> set rs)"
  by (induction rs c arbitrary: e c' h rule: stream.induct) (auto split: prod.splits option.splits)

lemma stream_events:
  "stream (map Inr evs @ Inl x # rest) c = (e, c', h) \<Longrightarrow> e = Some x \<and> c' = receive_all evs c"
  by (induction evs arbitrary: c e c' h) (auto simp: receive_all_def split: prod.splits)

text \<open>
  With no nil result there is no way back to one second: the n-th reconnect waits
  \<open>min (2 ^ n) 30\<close> seconds however long the streams lived.
\<close>

lemma min_backoff: "min (2 ^ i * min (2 * b) m) m = min (2 ^ Suc i * b) (m :: nat)"
proof (cases "2 * b \<le> m")
  case False
  then have "min (2 ^ i * min (2 * b) m) m = m" by (simp add: min_absorb2)
  moreover have "2 * b \<le> 2 ^ i * (2 * b)" by simp
  then have "2 * b \<le> 2 ^ Suc i * b" by (simp only: power_Suc mult.assoc mult.left_commute)
  with False have "m \<le> 2 ^ Suc i * b" by linarith
  then have "min (2 ^ Suc i * b) m = m" by (rule min_absorb2)
  ultimately show ?thesis by simp
qed (simp add: mult.assoc mult.left_commute)

lemma run_waits_errors:
  "run_waits b (map Some es) = map (\<lambda>i. if i = 0 then b else min (2 ^ i * b) maxBackoff) [0..<length es]"
proof (induction es arbitrary: b)
  case (Cons e es)
  have "[0..<length (e # es)] = 0 # map Suc [0..<length es]"
    by (subst upt_conv_Cons) (simp_all add: map_Suc_upt del: upt_Suc)
  moreover have "run_waits (min (2 * b) maxBackoff) (map Some es)
      = map (\<lambda>i. min (2 ^ Suc i * b) maxBackoff) [0..<length es]"
    unfolding Cons.IH by (rule map_cong) (auto simp: min_backoff simp del: power_Suc)
  ultimately show ?case by (simp add: comp_def)
qed simp

end
