(* ===== verification/Grpc_Server.thy ===== *)
theory Grpc_Server
  imports Config_Client Store_Variables Store_Connections
begin

text \<open>
  \<open>internal/grpcserver\<close>: the handler of the ConfigStream service and the tracker of its
  connections. The handler is a state machine: one step per call that reads or changes state
  shared with other goroutines (the database, the broker), so that anything may happen between
  two steps; the loop takes one turn of its \<open>select\<close> per step. The deferred calls run in the
  steps that leave the stream, whatever the reason.
\<close>

section \<open>Connection tracker\<close>

definition ConnTTLSeconds :: int where "ConnTTLSeconds = 30"

definition conns_event :: "int \<Rightarrow> event" where
  "conns_event serviceID = zero_event\<lparr>ev_kind := KindConns, ev_service_id := serviceID\<rparr>"

text \<open>Errors of the store are logged and end the call; the error of Publish is dropped.\<close>

definition Register :: "string \<Rightarrow> int \<Rightarrow> string \<Rightarrow> string \<Rightarrow> db \<Rightarrow> db" where
  "Register replicaID serviceID connID peer d =
     (case RegisterConnection serviceID replicaID connID peer d of
        (Inl e, d1) \<Rightarrow> d1
      | (Inr _, d1) \<Rightarrow> snd (Publish (conns_event serviceID) d1))"

definition Unregister :: "string \<Rightarrow> int \<Rightarrow> string \<Rightarrow> db \<Rightarrow> db" where
  "Unregister replicaID serviceID connID d =
     (case UnregisterConnection replicaID connID d of
        (Inl e, d1) \<Rightarrow> d1
      | (Inr _, d1) \<Rightarrow> snd (Publish (conns_event serviceID) d1))"

text \<open>One turn of the loop of \<open>Run\<close>; the result says whether the loop goes on.\<close>

datatype tracker_event = TrackerDone | HeartbeatTick | PurgeTick

definition tracker_clear :: "string \<Rightarrow> db \<Rightarrow> db" where
  "tracker_clear replicaID d = snd (ClearReplicaConnections replicaID d)"

definition tracker_turn :: "string \<Rightarrow> tracker_event \<Rightarrow> db \<Rightarrow> bool \<times> db" where
  "tracker_turn replicaID ev d = (case ev of
      TrackerDone \<Rightarrow> (False, tracker_clear replicaID d)
    | HeartbeatTick \<Rightarrow> (True, snd (TouchReplicaConnections replicaID d))
    | PurgeTick \<Rightarrow> (True, snd (PurgeStaleConnections ConnTTLSeconds d)))"

section \<open>The stream handler\<close>

datatype grpc_code = InvalidArgument | NotFound | Internal | Unavailable

text \<open>How \<open>Subscribe\<close> returns: a status of its own, the error of the context, or that of Send.\<close>

datatype stream_end = Status grpc_code | CtxErr | SendErr

record request =
  rq_key :: string
  rq_snapshot :: bool

text \<open>The replica id, the fresh connection id and the address of the peer.\<close>

record stream_id =
  ep_replica :: string
  ep_conn :: string
  ep_peer :: string

datatype phase =
    Start
  | Found service
  | Attached service nat
  | Tracked service nat
  | Looping service nat
  | Leave service nat stream_end
  | Detach nat stream_end
  | Ended stream_end

text \<open>
  What the environment decides in a step: whether the next Send succeeds, and in the loop
  which ready case \<open>select\<close> takes.
\<close>

datatype choice = Proceed bool | CtxDone | TakeEvent bool | Tick int bool

definition pb_of_variable :: "variable \<Rightarrow> pb_variable" where
  "pb_of_variable v = \<lparr>pb_key = v_key v, pb_value = v_value v, pb_version = v_version v\<rparr>"

definition sendSnapshot :: "int \<Rightarrow> bool \<Rightarrow> db \<Rightarrow> (stream_end + config_event) \<times> db" where
  "sendSnapshot serviceID ok d = (case ListVariables serviceID d of
      (Inl e, d1) \<Rightarrow> (Inl (Status Internal), d1)
    | (Inr vs, d1) \<Rightarrow> (if ok then Inr (Snapshot (map pb_of_variable vs)) else Inl SendErr, d1))"

definition change_of :: "event \<Rightarrow> config_event" where
  "change_of ev = Change (if ev_change_type ev = EvDelete then DELETE else UPSERT)
     \<lparr>pb_key = ev_key ev, pb_value = ev_value ev, pb_version = ev_version ev\<rparr>"

definition sendChange :: "event \<Rightarrow> bool \<Rightarrow> stream_end + config_event" where
  "sendChange ev ok = (if ok then Inr (change_of ev) else Inl SendErr)"

text \<open>One turn of the loop; None when the case that was chosen is not ready.\<close>

definition loop_turn :: "service \<Rightarrow> nat \<Rightarrow> choice \<Rightarrow> broker \<Rightarrow> (config_event list \<times> phase \<times> broker) option" where
  "loop_turn svc i ch b = (case ch of
      Proceed _ \<Rightarrow> None
    | CtxDone \<Rightarrow> Some ([], Leave svc i CtxErr, b)
    | TakeEvent ok \<Rightarrow>
        (case receive i b of
           Some (ev, b') \<Rightarrow>
             (if ev_kind ev \<noteq> KindVar then Some ([], Looping svc i, b')
              else (case sendChange ev ok of
                      Inl e \<Rightarrow> Some ([], Leave svc i e, b')
                    | Inr m \<Rightarrow> Some ([m], Looping svc i, b')))
         | None \<Rightarrow>
             (if find_sub i b = None then Some ([], Leave svc i (Status Unavailable), b) else None))
    | Tick ts ok \<Rightarrow>
        Some (if ok then ([Heartbeat ts], Looping svc i, b) else ([], Leave svc i SendErr, b)))"

text \<open>One step of the handler: the messages it sends, the next phase and the shared state.\<close>

definition serve_step ::
  "stream_id \<Rightarrow> request \<Rightarrow> choice \<Rightarrow> phase \<Rightarrow> db \<Rightarrow> broker \<Rightarrow>
     (config_event list \<times> phase \<times> db \<times> broker) option" where
  "serve_step ep rq ch ph d b = (case ph of
      Start \<Rightarrow>
        (if rq_key rq = [] then Some ([], Ended (Status InvalidArgument), d, b)
         else (case GetServiceByKey (rq_key rq) d of
                 (Inl e, d1) \<Rightarrow>
                   Some ([], Ended (Status (if e = ErrNotFound then NotFound else Internal)), d1, b)
               | (Inr svc, d1) \<Rightarrow> Some ([], Found svc, d1, b)))
    | Found svc \<Rightarrow> (let (i, b1) = Subscribe (s_id svc) b in Some ([], Attached svc i, d, b1))
    | Attached svc i \<Rightarrow>
        Some ([], Tracked svc i, Register (ep_replica ep) (s_id svc) (ep_conn ep) (ep_peer ep) d, b)
    | Tracked svc i \<Rightarrow>
        (if rq_snapshot rq
         then (case sendSnapshot (s_id svc) (ch = Proceed True) d of
                 (Inl e, d1) \<Rightarrow> Some ([], Leave svc i e, d1, b)
               | (Inr m, d1) \<Rightarrow> Some ([m], Looping svc i, d1, b))
         else Some ([], Looping svc i, d, b))
    | Looping svc i \<Rightarrow>
        (case loop_turn svc i ch b of
           None \<Rightarrow> None
         | Some (ms, ph', b') \<Rightarrow> Some (ms, ph', d, b'))
    | Leave svc i e \<Rightarrow>
        Some ([], Detach i e, Unregister (ep_replica ep) (s_id svc) (ep_conn ep) d, b)
    | Detach i e \<Rightarrow> Some ([], Ended e, d, unsubscribe i b)
    | Ended e \<Rightarrow> None)"

text \<open>The subscription that a phase holds, and the phases in which its row may exist.\<close>

fun held :: "phase \<Rightarrow> nat option" where
  "held (Attached svc i) = Some i"
| "held (Tracked svc i) = Some i"
| "held (Looping svc i) = Some i"
| "held (Leave svc i e) = Some i"
| "held (Detach i e) = Some i"
| "held ph = None"

fun phase_service :: "phase \<Rightarrow> service option" where
  "phase_service (Found svc) = Some svc"
| "phase_service (Attached svc i) = Some svc"
| "phase_service (Tracked svc i) = Some svc"
| "phase_service (Looping svc i) = Some svc"
| "phase_service (Leave svc i e) = Some svc"
| "phase_service ph = None"

fun tracked :: "phase \<Rightarrow> bool" where
  "tracked (Tracked svc i) = True"
| "tracked (Looping svc i) = True"
| "tracked (Leave svc i e) = True"
| "tracked ph = False"

end
