(* ===== verification/Actions.thy ===== *)
theory Actions
  imports Broker Store
begin

text \<open>
  What every handler shares: the process state beside the database, the audit logger
  (\<open>internal/audit/audit.go\<close>) and its notifier, the settings part of the Telegram manager
  (\<open>internal/tgbot/bot.go\<close>). The commands of the bot are in \<open>Tgbot\<close>.
\<close>

section \<open>Actions\<close>

definition ServiceCreate :: string where "ServiceCreate = ''service.create''"
definition ServiceDelete :: string where "ServiceDelete = ''service.delete''"
definition VariableUpsert :: string where "VariableUpsert = ''variable.upsert''"
definition VariableDelete :: string where "VariableDelete = ''variable.delete''"
definition VariableRollback :: string where "VariableRollback = ''variable.rollback''"
definition PermissionGrant :: string where "PermissionGrant = ''permission.grant''"
definition PermissionRevoke :: string where "PermissionRevoke = ''permission.revoke''"
definition UserRoleChange :: string where "UserRoleChange = ''user.role_change''"

lemmas action_consts [const_simps] = ServiceCreate_def ServiceDelete_def VariableUpsert_def
  VariableDelete_def VariableRollback_def PermissionGrant_def PermissionRevoke_def UserRoleChange_def

section \<open>The URLs of the Telegram API\<close>

text \<open>
  When \<open>net/url\<close> accepts a URL of the form https://host/path whose scheme and host are fixed and
  well-formed: no control character before the fragment, no bad percent escape in the path or the
  fragment. The query is not looked at.
\<close>

fun escapes_ok :: "string \<Rightarrow> bool" where
  "escapes_ok [] = True"
| "escapes_ok (c # cs) = (if c = CHR ''%''
     then (case cs of a # b # rest \<Rightarrow> hex_val a \<noteq> None \<and> hex_val b \<noteq> None \<and> escapes_ok rest | _ \<Rightarrow> False)
     else escapes_ok cs)"

definition url_parses :: "string \<Rightarrow> bool" where
  "url_parses u = (let before = takeWhile (\<lambda>c. c \<noteq> CHR ''#'') u; fragment = drop (Suc (length before)) u in
     list_all (\<lambda>c. 32 \<le> byte c \<and> byte c \<noteq> 127) before \<and>
     escapes_ok (takeWhile (\<lambda>c. c \<noteq> CHR ''?'') before) \<and> escapes_ok fragment)"

definition bot_url :: "string \<Rightarrow> string \<Rightarrow> string" where
  "bot_url token method = ''https://api.telegram.org/bot'' @ token @ method"

section \<open>The Telegram manager\<close>

text \<open>
  A message for the Telegram API, and its answer: no answer, or a status code and a body. The
  API is a parameter, carried in the state; \<open>outbox\<close> lists the messages that were handed to it.
  A running bot loop is known by its token and the set of senders it allows. \<open>tg_url_error\<close> is the
  text of the error for a URL that does not parse.
\<close>

record tg_message =
  msg_token :: string
  msg_chat :: string
  msg_text :: string

datatype api_answer = NoAnswer string | Answer nat string

record world =
  w_db :: db
  contour :: string
  started :: bool
  tg_cur :: telegram_settings
  tg_bot :: "(string \<times> int list) option"
  outbox :: "tg_message list"
  tg_api :: "tg_message \<Rightarrow> api_answer"
  tg_url_error :: "string \<Rightarrow> string"

text \<open>
  \<open>sendErr\<close>: with a token that makes no URL nothing is sent; otherwise the message goes out, and the
  answer decides about the error.
\<close>

definition sendErr :: "string \<Rightarrow> string \<Rightarrow> string \<Rightarrow> world \<Rightarrow> string option \<times> world" where
  "sendErr token chatID txt w =
     (let m = \<lparr>msg_token = token, msg_chat = chatID, msg_text = txt\<rparr>; url = bot_url token ''/sendMessage''
      in if \<not> url_parses url then (Some (tg_url_error w url), w)
         else (case tg_api w m of
            NoAnswer e \<Rightarrow> Some e
          | Answer code body \<Rightarrow>
              (if code \<ge> 300
               then Some (''telegram API '' @ digits code @ '': '' @ TrimSpace body) else None),
          w\<lparr>outbox := outbox w @ [m]\<rparr>))"

definition send :: "string \<Rightarrow> string \<Rightarrow> string \<Rightarrow> world \<Rightarrow> world" where
  "send token chatID txt w = snd (sendErr token chatID txt w)"

definition reply :: "string \<Rightarrow> int \<Rightarrow> string \<Rightarrow> world \<Rightarrow> world" where
  "reply token chatID txt w = snd (sendErr token (FormatInt chatID) txt w)"

text \<open>\<open>Configure\<close>: the running loop is cancelled, a new one starts only when it can be used.\<close>

definition Configure :: "telegram_settings \<Rightarrow> world \<Rightarrow> world" where
  "Configure s w = w\<lparr>tg_cur := s,
     tg_bot := (if tg_enabled s \<and> tg_token s \<noteq> [] \<and> length (tg_admins s) > 0 \<and> started w
                then Some (tg_token s, tg_admins s) else None)\<rparr>"

definition notifyActions :: "string list" where
  "notifyActions = [''variable.upsert'', ''variable.delete'', ''variable.rollback'',
     ''service.create'', ''service.delete'',
     ''permission.grant'', ''permission.revoke'', ''config.import'']"

definition show_detail :: "detail \<Rightarrow> string" where
  "show_detail v = (case v of DStr s \<Rightarrow> s | DInt n \<Rightarrow> FormatInt n
     | DBool b \<Rightarrow> (if b then ''true'' else ''false''))"

definition TrimRightNewlines :: "string \<Rightarrow> string" where
  "TrimRightNewlines s = rev (dropWhile (\<lambda>c. c = newline) (rev s))"

definition formatDetails :: "(string \<times> detail) list \<Rightarrow> string" where
  "formatDetails details = (if details = [] then []
     else TrimRightNewlines (concat (map (\<lambda>(k, v). k @ '': '' @ show_detail v @ [newline]) details)))"

definition wrench :: string where "wrench = chars [0xF0, 0x9F, 0x94, 0xA7]"
definition check_mark :: string where "check_mark = chars [0xE2, 0x9C, 0x85]"

definition action_text :: "string \<Rightarrow> string \<Rightarrow> string \<Rightarrow> string \<Rightarrow> (string \<times> detail) list \<Rightarrow> string" where
  "action_text con actor action target details =
     (let msg = wrench @ '' dynoconf ['' @ con @ '']'' @ [newline] @ action @ '' by '' @ actor @
                [newline] @ target;
          d = formatDetails details
      in if d \<noteq> [] then msg @ [newline] @ d else msg)"

text \<open>\<open>OnAction\<close>: the message is sent in a goroutine, its error is dropped.\<close>

definition OnAction :: "string \<Rightarrow> string \<Rightarrow> string \<Rightarrow> (string \<times> detail) list \<Rightarrow> world \<Rightarrow> world" where
  "OnAction actor action target details w =
     (let s = tg_cur w in
      if \<not> tg_enabled s \<or> tg_token s = [] \<or> tg_chat s = [] \<or> action \<notin> set notifyActions then w
      else send (tg_token s) (tg_chat s) (action_text (contour w) actor action target details) w)"

definition SendTest :: "string \<Rightarrow> string \<Rightarrow> world \<Rightarrow> string option \<times> world" where
  "SendTest token chatID w =
     (if token = [] \<or> chatID = [] then (Some ''bot token and chat id are required'', w)
      else sendErr token chatID (check_mark @ '' dynoconf ['' @ contour w @ ''] test notification'') w)"

section \<open>The audit logger\<close>

text \<open>A program of the store run in the world; errors stay values.\<close>

definition run_db :: "'a dbm \<Rightarrow> world \<Rightarrow> (store_error + 'a) \<times> world" where
  "run_db m w = (case m (w_db w) of (r, d') \<Rightarrow> (r, w\<lparr>w_db := d'\<rparr>))"

text \<open>\<open>Record\<close>: a failing insert is logged and nothing else, the notifier runs in any case.\<close>

definition Record :: "string \<Rightarrow> string \<Rightarrow> string \<Rightarrow> (string \<times> detail) list \<Rightarrow> world \<Rightarrow> world" where
  "Record actor action target details w =
     OnAction actor action target details (snd (run_db (InsertAudit actor action target details) w))"

section \<open>Facts\<close>

lemma sendErr_sel [simp]:
  "w_db (snd (sendErr a b c w)) = w_db w" "tg_cur (snd (sendErr a b c w)) = tg_cur w"
  "tg_bot (snd (sendErr a b c w)) = tg_bot w" "contour (snd (sendErr a b c w)) = contour w"
  by (simp_all add: sendErr_def Let_def)

lemma send_sel [simp]:
  "w_db (send a b c w) = w_db w" "tg_cur (send a b c w) = tg_cur w"
  "tg_bot (send a b c w) = tg_bot w" "contour (send a b c w) = contour w"
  "w_db (reply a i c w) = w_db w" "tg_cur (reply a i c w) = tg_cur w"
  "tg_bot (reply a i c w) = tg_bot w" "contour (reply a i c w) = contour w"
  by (simp_all add: send_def reply_def)

lemma OnAction_sel [simp]:
  "w_db (OnAction a b c ds w) = w_db w" "tg_cur (OnAction a b c ds w) = tg_cur w"
  "tg_bot (OnAction a b c ds w) = tg_bot w" "contour (OnAction a b c ds w) = contour w"
  by (simp_all add: OnAction_def Let_def)

lemma Configure_sel [simp]:
  "w_db (Configure s w) = w_db w" "tg_cur (Configure s w) = s" "outbox (Configure s w) = outbox w"
  by (simp_all add: Configure_def)

lemma SendTest_sel [simp]: "w_db (snd (SendTest a b w)) = w_db w"
  by (simp add: SendTest_def)

lemma run_db_eq: "run_db m w = (fst (m (w_db w)), w\<lparr>w_db := snd (m (w_db w))\<rparr>)"
  by (simp add: run_db_def split_beta)

lemma run_db_sel [simp]:
  "w_db (snd (run_db m w)) = snd (m (w_db w))" "fst (run_db m w) = fst (m (w_db w))"
  "tg_cur (snd (run_db m w)) = tg_cur w" "tg_bot (snd (run_db m w)) = tg_bot w"
  "outbox (snd (run_db m w)) = outbox w"
  by (simp_all add: run_db_eq)

lemma Record_sel [simp]:
  "w_db (Record a b c ds w) = snd (InsertAudit a b c ds (w_db w))"
  "tg_cur (Record a b c ds w) = tg_cur w" "tg_bot (Record a b c ds w) = tg_bot w"
  by (simp_all add: Record_def)

end
