(* ===== verification/Web.thy ===== *)
theory Web
  imports Actions "HOL-Library.AList"
begin

text \<open>
  The ground of \<open>internal/httpserver\<close>: requests and responses, the decoding of JSON bodies into
  structs, the programs of the handlers, and a small program logic for them. A handler is a
  program that may end early with a response; the calls of the store return their errors as
  values, as in the source.
\<close>

section \<open>Requests and responses\<close>

text \<open>
  \<open>hr_vals\<close> holds the path values that the router found, \<open>hr_user\<close> the user that the
  authentication middleware put into the context, \<open>hr_rand\<close> what \<open>crypto/rand\<close> yields. \<open>hr_content\<close>
  is what \<open>http.ServeContent\<close> makes of the range and the conditions in the headers, if it has a file to
  serve.
\<close>

datatype content = Whole | Part | NotModified | PreconditionFailed | BadRange string

record http_request =
  hr_vals :: "(string \<times> string) list"
  hr_q :: string
  hr_body :: string
  hr_user :: "user option"
  hr_rand :: string
  hr_content :: content

record service_dto =
  sd_service :: service
  sd_active :: nat
  sd_level :: string
  sd_favorite :: bool

record telegram_view =
  tv_enabled :: bool
  tv_chat :: string
  tv_admins :: "int list"
  tv_has_token :: bool

record export_service =
  es_key :: string
  es_name :: string
  es_desc :: string
  es_vars :: "(string \<times> string) list"

record export_doc =
  ed_version :: int
  ed_contour :: string
  ed_at :: int
  ed_services :: "export_service list"

record import_result =
  services_created :: nat
  services_existing :: nat
  variables_imported :: nat

text \<open>What a response carries: nothing, a text, an error message, or the JSON of a value.\<close>

datatype payload =
    NoBody
  | PlainBody string
  | ErrBody string
  | MeBody user string
  | ServicesBody "service_dto list"
  | ServiceBody service_dto
  | ConnInfoBody "(string \<times> string) list"
  | CountBody string nat
  | VariablesBody "variable list"
  | VariableBody variable
  | HistoryBody "variable_version list"
  | AuditBody "audit_entry list"
  | HitsBody "search_hit list"
  | ClientsBody "connection_client list"
  | TokensBody "api_token list"
  | TokenBody int string int string
  | UsersBody "user list"
  | PermsBody "permission_with_user list"
  | ExportBody export_doc
  | ImportBody import_result
  | TelegramBody telegram_view
  | FileBody string
  | MovedBody string

record response =
  rs_status :: nat
  rs_body :: payload

definition writeJSON :: "nat \<Rightarrow> payload \<Rightarrow> response" where
  "writeJSON status v = \<lparr>rs_status = status, rs_body = v\<rparr>"

definition writeErr :: "nat \<Rightarrow> string \<Rightarrow> response" where
  "writeErr status msg = writeJSON status (ErrBody msg)"

definition PathValue :: "http_request \<Rightarrow> string \<Rightarrow> string" where
  "PathValue rq name = (case map_of (hr_vals rq) name of None \<Rightarrow> [] | Some v \<Rightarrow> v)"

definition pathInt :: "http_request \<Rightarrow> string \<Rightarrow> int option" where
  "pathInt rq name = ParseInt (PathValue rq name)"

text \<open>\<open>hex.EncodeToString\<close>.\<close>

definition hex_encode :: "string \<Rightarrow> string" where
  "hex_encode s = concat (map (\<lambda>c. [hex_digit (byte c div 16), hex_digit (byte c mod 16)]) s)"

section \<open>JSON bodies\<close>

text \<open>
  \<open>Decoder.Decode\<close> reads the first value of the body. Members are matched to fields up to case;
  null leaves a field alone; an unknown member is an error only for the strict decoder. Two
  corners are left out: the limit of 10000 nested values, and that a slice member which comes
  twice in one object is decoded over the elements of the first.
\<close>

definition decode_first :: "string \<Rightarrow> json option" where
  "decode_first s = map_option fst (parse_value (Suc (length s)) s)"

type_synonym 'r fields = "(string \<times> (json \<Rightarrow> 'r \<Rightarrow> 'r option)) list"

fun decode_members :: "bool \<Rightarrow> 'r fields \<Rightarrow> (string \<times> json) list \<Rightarrow> 'r \<Rightarrow> 'r option" where
  "decode_members strict fs [] r = Some r"
| "decode_members strict fs ((name, v) # ms) r =
     (case map_of fs (fold_name name) of
        None \<Rightarrow> if strict then None else decode_members strict fs ms r
      | Some f \<Rightarrow> (case f v r of None \<Rightarrow> None | Some r' \<Rightarrow> decode_members strict fs ms r'))"

definition decode_struct :: "bool \<Rightarrow> 'r fields \<Rightarrow> 'r \<Rightarrow> json \<Rightarrow> 'r option" where
  "decode_struct strict fs r j = (case j of
      JObj ms \<Rightarrow> decode_members strict fs ms r | JNull \<Rightarrow> Some r | _ \<Rightarrow> None)"

definition str_field :: "(string \<Rightarrow> 'r \<Rightarrow> 'r) \<Rightarrow> json \<Rightarrow> 'r \<Rightarrow> 'r option" where
  "str_field upd v r = (case v of JStr s \<Rightarrow> Some (upd s r) | JNull \<Rightarrow> Some r | _ \<Rightarrow> None)"

definition int_field :: "(int \<Rightarrow> 'r \<Rightarrow> 'r) \<Rightarrow> json \<Rightarrow> 'r \<Rightarrow> 'r option" where
  "int_field upd v r = (case v of
      JNum lit \<Rightarrow> map_option (\<lambda>n. upd n r) (ParseInt lit) | JNull \<Rightarrow> Some r | _ \<Rightarrow> None)"

definition bool_field :: "(bool \<Rightarrow> 'r \<Rightarrow> 'r) \<Rightarrow> json \<Rightarrow> 'r \<Rightarrow> 'r option" where
  "bool_field upd v r = (case v of JBool b \<Rightarrow> Some (upd b r) | JNull \<Rightarrow> Some r | _ \<Rightarrow> None)"

text \<open>The elements of a slice, each decoded into the zero value; null is the nil slice.\<close>

fun decode_elems :: "(json \<Rightarrow> 'a option) \<Rightarrow> json list \<Rightarrow> 'a list option" where
  "decode_elems f [] = Some []"
| "decode_elems f (v # vs) = (case f v of None \<Rightarrow> None
     | Some x \<Rightarrow> map_option (\<lambda>xs. x # xs) (decode_elems f vs))"

definition list_field :: "(json \<Rightarrow> 'a option) \<Rightarrow> ('a list \<Rightarrow> 'r \<Rightarrow> 'r) \<Rightarrow> json \<Rightarrow> 'r \<Rightarrow> 'r option" where
  "list_field f upd v r = (case v of
      JArr vs \<Rightarrow> map_option (\<lambda>xs. upd xs r) (decode_elems f vs) | JNull \<Rightarrow> Some (upd [] r) | _ \<Rightarrow> None)"

definition json_str :: "json \<Rightarrow> string option" where
  "json_str v = (case v of JStr s \<Rightarrow> Some s | JNull \<Rightarrow> Some [] | _ \<Rightarrow> None)"

definition json_int :: "json \<Rightarrow> int option" where
  "json_int v = (case v of JNum lit \<Rightarrow> ParseInt lit | JNull \<Rightarrow> Some 0 | _ \<Rightarrow> None)"

text \<open>
  A \<open>map[string]string\<close>, as an association list without duplicate keys whose order stands for
  one order of iteration; a key that comes twice keeps its last value.
\<close>

fun decode_map :: "(string \<times> json) list \<Rightarrow> (string \<times> string) list \<Rightarrow> (string \<times> string) list option" where
  "decode_map [] m = Some m"
| "decode_map ((k, v) # ms) m = (case json_str v of None \<Rightarrow> None
     | Some s \<Rightarrow> decode_map ms (AList.update k s m))"

definition map_field ::
  "('r \<Rightarrow> (string \<times> string) list) \<Rightarrow> ((string \<times> string) list \<Rightarrow> 'r \<Rightarrow> 'r) \<Rightarrow> json \<Rightarrow> 'r \<Rightarrow> 'r option" where
  "map_field get upd v r = (case v of
      JObj ms \<Rightarrow> map_option (\<lambda>m. upd m r) (decode_map ms (get r)) | JNull \<Rightarrow> Some (upd [] r) | _ \<Rightarrow> None)"

definition decodeJSON :: "http_request \<Rightarrow> 'r fields \<Rightarrow> 'r \<Rightarrow> 'r option" where
  "decodeJSON rq fs r = Option.bind (decode_first (hr_body rq)) (decode_struct True fs r)"

lemma decode_map_distinct:
  "decode_map ms m = Some m' \<Longrightarrow> distinct (map fst m) \<Longrightarrow> distinct (map fst m')"
  by (induction ms m rule: decode_map.induct) (auto split: option.splits simp: distinct_update)

section \<open>Programs\<close>

type_synonym 'a web = "world \<Rightarrow> (response + 'a) \<times> world"

definition wret :: "'a \<Rightarrow> 'a web" where
  "wret x = (\<lambda>w. (Inr x, w))"

definition respond :: "response \<Rightarrow> 'a web" where
  "respond r = (\<lambda>w. (Inl r, w))"

definition wbind :: "'a web \<Rightarrow> ('a \<Rightarrow> 'b web) \<Rightarrow> 'b web" where
  "wbind m k = (\<lambda>w. case m w of (Inl r, w') \<Rightarrow> (Inl r, w') | (Inr x, w') \<Rightarrow> k x w')"

definition call :: "'a dbm \<Rightarrow> (store_error + 'a) web" where
  "call m = (\<lambda>w. let (r, w') = run_db m w in (Inr r, w'))"

definition act :: "(world \<Rightarrow> world) \<Rightarrow> unit web" where
  "act f = (\<lambda>w. (Inr (), f w))"

definition get_world :: "(world \<Rightarrow> 'a) \<Rightarrow> 'a web" where
  "get_world f = (\<lambda>w. (Inr (f w), w))"

text \<open>A call whose error ends the handler with status 500 and the message "internal error".\<close>

definition internal_error :: response where
  "internal_error = writeErr 500 ''internal error''"

definition call_or :: "response \<Rightarrow> 'a dbm \<Rightarrow> 'a web" where
  "call_or e m = wbind (call m) (\<lambda>r. case r of Inl _ \<Rightarrow> respond e | Inr x \<Rightarrow> wret x)"

text \<open>The same with a special response for ErrNotFound.\<close>

definition call_found :: "response \<Rightarrow> response \<Rightarrow> 'a dbm \<Rightarrow> 'a web" where
  "call_found nf e m = wbind (call m) (\<lambda>r. case r of
      Inl x \<Rightarrow> respond (if x = ErrNotFound then nf else e) | Inr x \<Rightarrow> wret x)"

text \<open>A failing parse ends the handler.\<close>

definition or_respond :: "response \<Rightarrow> 'a option \<Rightarrow> 'a web" where
  "or_respond e x = (case x of None \<Rightarrow> respond e | Some a \<Rightarrow> wret a)"

definition run_web :: "response web \<Rightarrow> world \<Rightarrow> response \<times> world" where
  "run_web m w = (case m w of (Inl r, w') \<Rightarrow> (r, w') | (Inr r, w') \<Rightarrow> (r, w'))"

section \<open>A logic for programs\<close>

text \<open>
  \<open>hoare Q m A R\<close>: from a state whose tables and sequences satisfy \<open>Q\<close>, the program ends in such
  a state, and what it returns satisfies \<open>A\<close>, or the response it ends with satisfies \<open>R\<close>.
\<close>

definition hoare :: "tinv \<Rightarrow> 'a web \<Rightarrow> ('a \<Rightarrow> bool) \<Rightarrow> (response \<Rightarrow> bool) \<Rightarrow> bool" where
  "hoare Q m A R \<longleftrightarrow> (\<forall>w r w'. Q (tbl (w_db w)) (seqs (w_db w)) \<longrightarrow> m w = (r, w') \<longrightarrow>
     Q (tbl (w_db w')) (seqs (w_db w')) \<and> (case r of Inl x \<Rightarrow> R x | Inr x \<Rightarrow> A x))"

named_theorems hoare

lemma hoareI:
  "(\<And>w r w'. Q (tbl (w_db w)) (seqs (w_db w)) \<Longrightarrow> m w = (r, w') \<Longrightarrow>
     Q (tbl (w_db w')) (seqs (w_db w')) \<and> (case r of Inl x \<Rightarrow> R x | Inr x \<Rightarrow> A x)) \<Longrightarrow> hoare Q m A R"
  by (auto simp: hoare_def)

lemma hoareD:
  "hoare Q m A R \<Longrightarrow> m w = (r, w') \<Longrightarrow> Q (tbl (w_db w)) (seqs (w_db w)) \<Longrightarrow>
     Q (tbl (w_db w')) (seqs (w_db w')) \<and> (case r of Inl x \<Rightarrow> R x | Inr x \<Rightarrow> A x)"
  unfolding hoare_def by blast

lemma hoare_ret: "A x \<Longrightarrow> hoare Q (wret x) A R"
  by (rule hoareI) (auto simp: wret_def)

lemma hoare_respond: "R r \<Longrightarrow> hoare Q (respond r) A R"
  by (rule hoareI) (auto simp: respond_def)

lemma hoare_bind:
  assumes m: "hoare Q m B R" and k: "\<And>x. B x \<Longrightarrow> hoare Q (k x) A R"
  shows "hoare Q (wbind m k) A R"
proof (rule hoareI)
  fix w r w'
  assume Q: "Q (tbl (w_db w)) (seqs (w_db w))" and run: "wbind m k w = (r, w')"
  obtain r1 w1 where m1: "m w = (r1, w1)" by fastforce
  note mid = hoareD [OF m m1 Q]
  show "Q (tbl (w_db w')) (seqs (w_db w')) \<and> (case r of Inl x \<Rightarrow> R x | Inr x \<Rightarrow> A x)"
  proof (cases r1)
    case (Inl x)
    with run m1 mid show ?thesis by (auto simp: wbind_def)
  next
    case (Inr x)
    with mid have "B x" and Q1: "Q (tbl (w_db w1)) (seqs (w_db w1))" by simp_all
    from run m1 Inr have "k x w1 = (r, w')" by (simp add: wbind_def)
    from hoareD [OF k [OF \<open>B x\<close>] this Q1] show ?thesis .
  qed
qed

lemma hoare_weaken:
  "hoare Q m B S \<Longrightarrow> (\<And>x. B x \<Longrightarrow> A x) \<Longrightarrow> (\<And>r. S r \<Longrightarrow> R r) \<Longrightarrow> hoare Q m A R"
  unfolding hoare_def by (metis (mono_tags, lifting) sum.case_eq_if)

lemma hoare_call:
  assumes "preserves Q m" and "\<And>d x d'. Q (tbl d) (seqs d) \<Longrightarrow> m d = (Inr x, d') \<Longrightarrow> B x"
  shows "hoare Q (call m) (\<lambda>r. case r of Inl _ \<Rightarrow> True | Inr x \<Rightarrow> B x) R"
proof (rule hoareI)
  fix w r w'
  assume Q: "Q (tbl (w_db w)) (seqs (w_db w))" and run: "call m w = (r, w')"
  obtain r1 d1 where m1: "m (w_db w) = (r1, d1)" by fastforce
  with run have "r = Inr r1" and "w_db w' = d1" by (auto simp: call_def run_db_eq)
  with preservesD [OF assms(1) m1 Q] assms(2) [OF Q] m1
  show "Q (tbl (w_db w')) (seqs (w_db w')) \<and> (case r of Inl x \<Rightarrow> R x | Inr x \<Rightarrow>
      (case x of Inl _ \<Rightarrow> True | Inr x \<Rightarrow> B x))"
    by (auto split: sum.splits)
qed

lemma hoare_call_found:
  assumes "preserves Q m" and "\<And>d x d'. Q (tbl d) (seqs d) \<Longrightarrow> m d = (Inr x, d') \<Longrightarrow> B x"
    and "R nf" and "R e"
  shows "hoare Q (call_found nf e m) B R"
  unfolding call_found_def
  by (rule hoare_bind [OF hoare_call [OF assms(1)], where B1 = B])
    (use assms in \<open>auto split: sum.splits intro: hoare_ret hoare_respond\<close>)

lemma hoare_call_or:
  assumes "preserves Q m" and "\<And>d x d'. Q (tbl d) (seqs d) \<Longrightarrow> m d = (Inr x, d') \<Longrightarrow> B x" and "R e"
  shows "hoare Q (call_or e m) B R"
  unfolding call_or_def
  by (rule hoare_bind [OF hoare_call [OF assms(1)], where B1 = B])
    (use assms in \<open>auto split: sum.splits intro: hoare_ret hoare_respond\<close>)

lemma hoare_act:
  "(\<And>w. Q (tbl (w_db w)) (seqs (w_db w)) \<Longrightarrow> Q (tbl (w_db (f w))) (seqs (w_db (f w)))) \<Longrightarrow> A () \<Longrightarrow>
     hoare Q (act f) A R"
  by (rule hoareI) (auto simp: act_def)

lemma hoare_get: "hoare Q (get_world f) (\<lambda>_. True) R"
  by (rule hoareI) (auto simp: get_world_def)

lemma hoare_or_respond: "R e \<Longrightarrow> hoare Q (or_respond e x) (\<lambda>a. x = Some a) R"
  by (cases x) (auto simp: or_respond_def intro: hoare_ret hoare_respond)

lemma hoare_if:
  "(c \<Longrightarrow> hoare Q m A R) \<Longrightarrow> (\<not> c \<Longrightarrow> hoare Q m' A R) \<Longrightarrow> hoare Q (if c then m else m') A R"
  by simp

lemma hoare_run:
  assumes "hoare Q m R R" and "run_web m w = (r, w')" and "Q (tbl (w_db w)) (seqs (w_db w))"
  shows "Q (tbl (w_db w')) (seqs (w_db w')) \<and> R r"
proof -
  obtain r1 w1 where "m w = (r1, w1)" by fastforce
  with hoareD [OF assms(1) this assms(3)] assms(2) show ?thesis
    by (auto simp: run_web_def split: sum.splits)
qed

section \<open>Runs\<close>

text \<open>Case analysis of how a program ran.\<close>

lemma wbindE:
  assumes "wbind m k w = (r, w')"
  obtains (early) x where "m w = (Inl x, w')" and "r = Inl x"
  | (go) x w1 where "m w = (Inr x, w1)" and "k x w1 = (r, w')"
  using assms by (auto simp: wbind_def split: prod.splits sum.splits)

lemma or_respondE:
  assumes "or_respond e x w = (r, w')"
  obtains (none) "x = None" and "r = Inl e" and "w' = w" | (some) a where "x = Some a" and "r = Inr a" and "w' = w"
  using assms by (cases x) (auto simp: or_respond_def respond_def wret_def)

lemma call_run: "call m w = (Inr (fst (m (w_db w))), w\<lparr>w_db := snd (m (w_db w))\<rparr>)"
  by (simp add: call_def run_db_eq)

lemma callE:
  assumes "call m w = (r, w')"
  obtains (failed) x d' where "m (w_db w) = (Inl x, d')" and "r = Inr (Inl x)" and "w' = w\<lparr>w_db := d'\<rparr>"
  | (ok) x d' where "m (w_db w) = (Inr x, d')" and "r = Inr (Inr x)" and "w' = w\<lparr>w_db := d'\<rparr>"
proof (cases "m (w_db w)")
  case (Pair y d')
  with assms failed ok show ?thesis by (cases y) (auto simp: call_run)
qed

lemma call_foundE:
  assumes "call_found nf e m w = (r, w')"
  obtains (failed) x d' where "m (w_db w) = (Inl x, d')" and "r = Inl (if x = ErrNotFound then nf else e)"
      and "w' = w\<lparr>w_db := d'\<rparr>"
  | (ok) x d' where "m (w_db w) = (Inr x, d')" and "r = Inr x" and "w' = w\<lparr>w_db := d'\<rparr>"
  using assms unfolding call_found_def
  by (cases "m (w_db w)") (auto simp: wbind_def call_run respond_def wret_def split: sum.splits)

lemma call_orE:
  assumes "call_or e m w = (r, w')"
  obtains (failed) x d' where "m (w_db w) = (Inl x, d')" and "r = Inl e" and "w' = w\<lparr>w_db := d'\<rparr>"
  | (ok) x d' where "m (w_db w) = (Inr x, d')" and "r = Inr x" and "w' = w\<lparr>w_db := d'\<rparr>"
  using assms unfolding call_or_def
  by (cases "m (w_db w)") (auto simp: wbind_def call_run respond_def wret_def split: sum.splits)

end
