(* ===== verification/Http_Access.thy ===== *)
theory Http_Access
  imports Web
begin

text \<open>
  \<open>internal/httpserver/authz.go\<close>: who may do what, and the broadcast of a variable change
  (\<open>publishVar\<close> in \<open>handlers_variables.go\<close>).
\<close>

section \<open>Decisions\<close>

definition unauthenticated :: response where
  "unauthenticated = writeErr 401 ''not authenticated''"

definition requireUser :: "http_request \<Rightarrow> user web" where
  "requireUser rq = or_respond unauthenticated (hr_user rq)"

definition requireAdmin :: "http_request \<Rightarrow> user web" where
  "requireAdmin rq = wbind (requireUser rq) (\<lambda>u.
     if u_role u \<noteq> RoleAdmin then respond (writeErr 403 ''admin only'') else wret u)"

text \<open>The error of the lookup is the Inl case; no row means the empty level.\<close>

definition effectiveLevel :: "user \<Rightarrow> int \<Rightarrow> (store_error + string) web" where
  "effectiveLevel u serviceID =
     (if u_role u = RoleAdmin then wret (Inr LevelEditor)
      else wbind (call (GetPermissionLevel (u_id u) serviceID)) (\<lambda>r. wret (case r of
         Inl e \<Rightarrow> if e = ErrNotFound then Inr '''' else Inl e
       | Inr level \<Rightarrow> Inr level)))"

definition decideServiceAccess :: "string \<Rightarrow> string \<Rightarrow> bool \<Rightarrow> bool \<times> nat" where
  "decideServiceAccess role level needEditor =
     (if role = RoleAdmin then (True, 200)
      else if level = LevelEditor then (True, 200)
      else if level = LevelViewer then (if needEditor then (False, 403) else (True, 200))
      else (False, 404))"

definition no_service :: response where
  "no_service = writeErr 404 ''service not found''"

definition authorizeService :: "http_request \<Rightarrow> int \<Rightarrow> bool \<Rightarrow> (user \<times> string) web" where
  "authorizeService rq serviceID needEditor =
     wbind (requireUser rq) (\<lambda>u.
     wbind (effectiveLevel u serviceID) (\<lambda>r. case r of
         Inl _ \<Rightarrow> respond internal_error
       | Inr level \<Rightarrow>
           (let (allowed, status) = decideServiceAccess (u_role u) level needEditor in
            if \<not> allowed
            then respond (if status = 403 then writeErr status ''editor access required'' else no_service)
            else wret (u, if u_role u = RoleAdmin then LevelEditor else level))))"

section \<open>Broadcast\<close>

definition var_event :: "service \<Rightarrow> string \<Rightarrow> variable \<Rightarrow> event" where
  "var_event svc changeType v = \<lparr>ev_kind = KindVar, ev_service_id = s_id svc, ev_service_key = s_key svc,
     ev_change_type = changeType, ev_key = v_key v, ev_value = v_value v, ev_version = v_version v\<rparr>"

definition publishVar :: "service option \<Rightarrow> string \<Rightarrow> variable \<Rightarrow> unit web" where
  "publishVar svc changeType v = (case svc of
      None \<Rightarrow> wret ()
    | Some s \<Rightarrow> wbind (call (Publish (var_event s changeType v))) (\<lambda>_. wret ()))"

definition keyOf :: "service option \<Rightarrow> string" where
  "keyOf svc = (case svc of None \<Rightarrow> ''?'' | Some s \<Rightarrow> s_key s)"

text \<open>\<open>svc, _ := GetService(id)\<close>: nil when the lookup fails.\<close>

definition lookup_service :: "int \<Rightarrow> service option web" where
  "lookup_service sid = wbind (call (GetService sid)) (\<lambda>r. wret (case r of Inl _ \<Rightarrow> None | Inr s \<Rightarrow> Some s))"

definition record_action :: "string \<Rightarrow> string \<Rightarrow> string \<Rightarrow> (string \<times> detail) list \<Rightarrow> unit web" where
  "record_action actor action target details = act (Record actor action target details)"

section \<open>What the tables allow\<close>

text \<open>The level of a user: editor for an admin, the permission row otherwise, or none.\<close>

definition allowed :: "tables \<Rightarrow> user \<Rightarrow> int \<Rightarrow> bool \<Rightarrow> bool" where
  "allowed t u sid needEditor \<longleftrightarrow> u_role u = RoleAdmin \<or> level_of t (u_id u) sid = Some LevelEditor \<or>
     \<not> needEditor \<and> level_of t (u_id u) sid = Some LevelViewer"

lemma decide_allowed:
  "fst (decideServiceAccess (u_role u) (case level_of t (u_id u) sid of None \<Rightarrow> '''' | Some l \<Rightarrow> l) need)
     = allowed t u sid need"
  by (auto simp: decideServiceAccess_def allowed_def split: option.splits)

lemma preserves_Publish [pres]:
  "preserves Q (Publish ev)"
  by (rule preservesI) (auto elim!: Publish_cases)

lemma effectiveLevel_state: "\<exists>r. effectiveLevel u sid w = (Inr r, snd (effectiveLevel u sid w))"
  by (auto simp: effectiveLevel_def wret_def wbind_def call_def run_db_eq Let_def)

lemma effectiveLevel_Inr:
  assumes "effectiveLevel u sid w = (Inr (Inr l), w')"
  shows "l = (if u_role u = RoleAdmin then LevelEditor
     else case level_of (tbl (w_db w)) (u_id u) sid of None \<Rightarrow> '''' | Some l \<Rightarrow> l)"
proof (cases "u_role u = RoleAdmin")
  case True
  with assms show ?thesis by (simp add: effectiveLevel_def wret_def)
next
  case False
  obtain r d' where run: "GetPermissionLevel (u_id u) sid (w_db w) = (r, d')" by fastforce
  with False assms have l: "(case r of Inl e \<Rightarrow> if e = ErrNotFound then Inr '''' else Inl e
       | Inr level \<Rightarrow> Inr level) = (Inr l :: store_error + string)"
    by (simp add: effectiveLevel_def wret_def wbind_def call_def run_db_eq)
  from run show ?thesis
    by (cases rule: GetPermissionLevel_cases) (use l False in auto)
qed

text \<open>The guard: it lets pass exactly who is allowed, and it changes no table.\<close>

lemma hoare_requireUser:
  "R unauthenticated \<Longrightarrow> hoare Q (requireUser rq) (\<lambda>u. hr_user rq = Some u) R"
  unfolding requireUser_def by (rule hoare_or_respond)

lemma hoare_requireAdmin:
  "R unauthenticated \<Longrightarrow> R (writeErr 403 ''admin only'') \<Longrightarrow>
     hoare Q (requireAdmin rq) (\<lambda>u. hr_user rq = Some u \<and> u_role u = RoleAdmin) R"
  unfolding requireAdmin_def
  by (rule hoare_bind [OF hoare_requireUser]) (auto intro: hoare_ret hoare_respond)

lemma hoare_effectiveLevel:
  "hoare Q (effectiveLevel u sid) (\<lambda>r. case r of Inl _ \<Rightarrow> True | Inr l \<Rightarrow> \<exists>t s. Q t s \<and>
     l = (if u_role u = RoleAdmin then LevelEditor else case level_of t (u_id u) sid of None \<Rightarrow> '''' | Some l \<Rightarrow> l)) R"
proof (rule hoareI)
  fix w r w'
  assume Q: "Q (tbl (w_db w)) (seqs (w_db w))" and run: "effectiveLevel u sid w = (r, w')"
  have "hoare Q (effectiveLevel u sid) (\<lambda>_. True) (\<lambda>_. True)"
    unfolding effectiveLevel_def
    by (auto intro!: hoare_if hoare_ret hoare_bind [OF hoare_call [where B = "\<lambda>_. True"]] reads_only_preserves)
  from hoareD [OF this run Q] have Q': "Q (tbl (w_db w')) (seqs (w_db w'))" ..
  from run effectiveLevel_state [of u sid w] obtain r2 where r2: "r = Inr r2" by auto
  show "Q (tbl (w_db w')) (seqs (w_db w')) \<and> (case r of Inl x \<Rightarrow> R x | Inr x \<Rightarrow> (case x of Inl _ \<Rightarrow> True
     | Inr l \<Rightarrow> \<exists>t s. Q t s \<and> l = (if u_role u = RoleAdmin then LevelEditor
         else case level_of t (u_id u) sid of None \<Rightarrow> '''' | Some l \<Rightarrow> l)))"
  proof (cases r2)
    case (Inl e)
    with r2 Q' show ?thesis by simp
  next
    case (Inr l)
    with run r2 have "effectiveLevel u sid w = (Inr (Inr l), w')" by simp
    from effectiveLevel_Inr [OF this] Q Q' show ?thesis unfolding r2 Inr by auto
  qed
qed

definition denied :: "response list" where
  "denied = [unauthenticated, internal_error, writeErr 403 ''editor access required'', no_service]"

lemma hoare_authorizeService:
  assumes ok: "\<And>u t s. hr_user rq = Some u \<Longrightarrow> Q t s \<Longrightarrow> allowed t u sid need \<Longrightarrow> ok"
    and R: "R unauthenticated"
    and R_user: "\<And>r. hr_user rq \<noteq> None \<Longrightarrow> r \<in> set denied \<Longrightarrow> R r"
  shows "hoare Q (authorizeService rq sid need) (\<lambda>(u, l). hr_user rq = Some u \<and> ok) R"
  unfolding authorizeService_def
proof (rule hoare_bind [OF hoare_requireUser [of R, OF R]], rule hoare_bind [OF hoare_effectiveLevel], goal_cases)
  case (1 u r)
  show ?case
  proof (cases r)
    case (Inl e)
    with 1 R_user show ?thesis by (auto simp: denied_def intro: hoare_respond)
  next
    case (Inr l)
    with 1 obtain t s where Q: "Q t s" and l: "l = (if u_role u = RoleAdmin then LevelEditor
         else case level_of t (u_id u) sid of None \<Rightarrow> '''' | Some l \<Rightarrow> l)" by auto
    have "fst (decideServiceAccess (u_role u) l need) = allowed t u sid need"
      unfolding decide_allowed [symmetric] l by (simp add: decideServiceAccess_def)
    with ok [OF 1(1) Q] R_user 1(1) Inr show ?thesis
      by (auto simp: denied_def split_beta intro!: hoare_ret hoare_respond)
  qed
qed

lemma hoare_publishVar: "hoare Q (publishVar svc ct v) (\<lambda>_. True) R"
  unfolding publishVar_def
  by (cases svc) (auto intro!: hoare_ret hoare_bind [OF hoare_call [where B = "\<lambda>_. True"]] pres)

lemma hoare_lookup_service: "hoare Q (lookup_service sid) (\<lambda>_. True) R"
  unfolding lookup_service_def
  by (auto intro!: hoare_ret hoare_bind [OF hoare_call [where B = "\<lambda>_. True"]] reads_only_preserves)

lemma hoare_record:
  assumes "preserves Q (InsertAudit a b c ds)"
  shows "hoare Q (record_action a b c ds) (\<lambda>_. True) R"
  unfolding record_action_def
proof (rule hoare_act)
  fix w :: world
  assume "Q (tbl (w_db w)) (seqs (w_db w))"
  moreover obtain r d' where "InsertAudit a b c ds (w_db w) = (r, d')" by fastforce
  ultimately show "Q (tbl (w_db (Record a b c ds w))) (seqs (w_db (Record a b c ds w)))"
    using preservesD [OF assms] by simp
qed simp

end
