(* ===== verification/Url_Path.thy ===== *)
theory Url_Path
  imports Json
begin

text \<open>
  Paths of URLs as \<open>net/url\<close> and \<open>net/http\<close> treat them: their segments, unescaping, and the clean form
  that \<open>ServeMux\<close> redirects to.
\<close>

section \<open>Segments\<close>

fun split_slash :: "string \<Rightarrow> string list" where
  "split_slash [] = [[]]"
| "split_slash (c # cs) = (if c = CHR ''/'' then [] # split_slash cs
     else (case split_slash cs of [] \<Rightarrow> [[c]] | s # ss \<Rightarrow> (c # s) # ss))"

definition join_path :: "string list \<Rightarrow> string" where
  "join_path segs = concat (map (\<lambda>s. CHR ''/'' # s) segs)"

definition has_suffix :: "string \<Rightarrow> string \<Rightarrow> bool" where
  "has_suffix s t \<longleftrightarrow> has_prefix (rev s) (rev t)"

fun PathUnescape :: "string \<Rightarrow> string option" where
  "PathUnescape [] = Some []"
| "PathUnescape (c # cs) = (if c = CHR ''%''
     then (case cs of
         a # b # rest \<Rightarrow> (case (hex_val a, hex_val b) of
             (Some m, Some n) \<Rightarrow> map_option (\<lambda>s. char_of (16 * m + n) # s) (PathUnescape rest)
           | _ \<Rightarrow> None)
       | _ \<Rightarrow> None)
     else map_option (\<lambda>s. c # s) (PathUnescape cs))"

section \<open>Clean paths\<close>

text \<open>
  \<open>path.Clean\<close> of a rooted path: empty segments and single dots go, two dots take the segment before
  them with them. \<open>cleanPath\<close> roots the path before and puts a slash at the end back after it.
\<close>

definition clean_step :: "string \<Rightarrow> string list \<Rightarrow> string list" where
  "clean_step s out = (if s = [] \<or> s = ''.'' then out else if s = ''..'' then butlast out else out @ [s])"

definition path_Clean :: "string \<Rightarrow> string" where
  "path_Clean p = (case fold clean_step (split_slash (drop 1 p)) [] of [] \<Rightarrow> ''/'' | segs \<Rightarrow> join_path segs)"

definition cleanPath :: "string \<Rightarrow> string" where
  "cleanPath p0 = (if p0 = [] then ''/'' else
     let p = (if hd p0 \<noteq> CHR ''/'' then CHR ''/'' # p0 else p0); np = path_Clean p
     in if last p = CHR ''/'' \<and> np \<noteq> ''/'' then np @ ''/'' else np)"

text \<open>A path is clean if it has no empty segment but the last and no segment of dots.\<close>

definition plain_segment :: "string \<Rightarrow> bool" where
  "plain_segment s \<longleftrightarrow> s \<noteq> [] \<and> s \<noteq> ''.'' \<and> s \<noteq> ''..'' \<and> CHR ''/'' \<notin> set s"

lemma split_slash_segment: "CHR ''/'' \<notin> set s \<Longrightarrow> split_slash (s @ CHR ''/'' # r) = s # split_slash r"
  "CHR ''/'' \<notin> set s \<Longrightarrow> split_slash s = [s]"
  by (induction s) auto

lemma join_path_simps [simp]: "join_path [] = []" "join_path (s # ss) = CHR ''/'' # s @ join_path ss"
  "join_path (xs @ ys) = join_path xs @ join_path ys" "join_path xs = [] \<longleftrightarrow> xs = []"
  by (simp_all add: join_path_def)

definition no_slash :: "string \<Rightarrow> bool" where
  "no_slash s \<longleftrightarrow> CHR ''/'' \<notin> set s"

lemma plain_no_slash: "list_all plain_segment segs \<Longrightarrow> list_all no_slash segs"
  by (auto simp: plain_segment_def no_slash_def list_all_iff)

lemma split_join: "segs \<noteq> [] \<Longrightarrow> list_all no_slash segs \<Longrightarrow> split_slash (drop 1 (join_path segs)) = segs"
proof (induction segs rule: list_nonempty_induct)
  case (single s)
  then show ?case by (simp add: split_slash_segment no_slash_def)
next
  case (cons s ss)
  obtain t ts where ss: "ss = t # ts" using cons.hyps by (cases ss) auto
  have "drop 1 (join_path (s # ss)) = s @ CHR ''/'' # drop 1 (join_path ss)" by (simp add: ss)
  with cons split_slash_segment(1) [of s "drop 1 (join_path ss)"] show ?case by (simp add: no_slash_def)
qed

lemma clean_plain: "list_all plain_segment segs \<Longrightarrow> fold clean_step segs out = out @ segs"
  by (induction segs arbitrary: out) (auto simp: clean_step_def plain_segment_def)

text \<open>What \<open>path_Clean\<close> keeps is plain, if the segments came from a path.\<close>

lemma clean_step_one: "no_slash s \<Longrightarrow> list_all plain_segment out \<Longrightarrow> list_all plain_segment (clean_step s out)"
  by (cases out rule: rev_cases) (simp_all add: clean_step_def plain_segment_def no_slash_def)

lemma clean_step_plain:
  "list_all no_slash segs \<Longrightarrow> list_all plain_segment out \<Longrightarrow> list_all plain_segment (fold clean_step segs out)"
  by (induction segs arbitrary: out) (simp_all add: clean_step_one)

lemma split_slash_no_slash: "list_all no_slash (split_slash p)"
  by (induction p) (auto simp: no_slash_def split: list.split)

lemma hd_join [simp]: "segs \<noteq> [] \<Longrightarrow> hd (join_path segs) = CHR ''/''"
  by (cases segs) simp_all

lemma plain_last: "plain_segment s \<Longrightarrow> last s \<noteq> CHR ''/''"
  unfolding plain_segment_def by (metis last_in_set)

lemma last_join: "list_all plain_segment segs \<Longrightarrow> segs \<noteq> [] \<Longrightarrow> last (join_path segs) \<noteq> CHR ''/''"
proof (cases segs rule: rev_cases)
  case (snoc ys y)
  assume "list_all plain_segment segs"
  then have y: "plain_segment y" by (simp add: snoc)
  then have "last (join_path segs) = last y" by (simp add: snoc plain_segment_def)
  with plain_last [OF y] show ?thesis by simp
qed simp

lemma path_Clean_join:
  assumes "list_all plain_segment segs" and "segs \<noteq> []"
  shows "path_Clean (join_path segs) = join_path segs"
proof -
  have "fold clean_step (split_slash (drop 1 (join_path segs))) [] = segs"
    using split_join [OF assms(2) plain_no_slash [OF assms(1)]] clean_plain [OF assms(1), of "[]"] by simp
  then show ?thesis using assms(2) by (simp add: path_Clean_def split: list.split)
qed

lemma cleanPath_plain: "list_all plain_segment segs \<Longrightarrow> segs \<noteq> [] \<Longrightarrow> cleanPath (join_path segs) = join_path segs"
  using last_join [of segs] by (simp add: cleanPath_def path_Clean_join Let_def)

lemma cleanPath_no_end: "p \<noteq> [] \<Longrightarrow> hd p = CHR ''/'' \<Longrightarrow> last p \<noteq> CHR ''/'' \<Longrightarrow> cleanPath p = path_Clean p"
  by (simp add: cleanPath_def Let_def)

text \<open>A clean path has no segment of dots.\<close>

lemma cleanPath_dots:
  assumes "list_all no_slash segs" and "segs \<noteq> []" and "last segs \<in> {''.'', ''..''}"
  shows "cleanPath (join_path segs) \<noteq> join_path segs"
proof
  assume eq: "cleanPath (join_path segs) = join_path segs"
  obtain pre s where segs: "segs = pre @ [s]" using assms(2) by (cases segs rule: rev_cases) auto
  have s: "s = ''.'' \<or> s = ''..''" using assms(3) by (auto simp: segs)
  then have last: "last (join_path segs) = CHR ''.''" by (elim disjE) (simp_all add: segs)
  let ?out = "fold clean_step (split_slash (drop 1 (join_path segs))) []"
  have plain: "list_all plain_segment ?out" by (rule clean_step_plain [OF split_slash_no_slash]) simp
  have "cleanPath (join_path segs) = path_Clean (join_path segs)"
    by (rule cleanPath_no_end) (use last assms(2) in simp_all)
  then have "join_path segs = (case ?out of [] \<Rightarrow> ''/'' | ss \<Rightarrow> join_path ss)" unfolding eq path_Clean_def .
  moreover have slash: "join_path segs \<noteq> ''/''" using last by fastforce
  moreover have "p \<noteq> ''/'' \<Longrightarrow> p = (case out of [] \<Rightarrow> ''/'' | ss \<Rightarrow> join_path ss) \<Longrightarrow> out \<noteq> [] \<and> p = join_path out"
    for p and out :: "string list" by (cases out) simp_all
  ultimately have out: "?out \<noteq> []" "join_path segs = join_path ?out" by blast+
  have "split_slash (drop 1 (join_path segs)) = segs" by (rule split_join [OF assms(2,1)])
  moreover have "split_slash (drop 1 (join_path ?out)) = ?out"
    by (rule split_join [OF out(1) plain_no_slash [OF plain]])
  ultimately have "segs = ?out" by (metis out(2))
  then have "list_all plain_segment segs" using plain by metis
  then have "plain_segment s" by (simp add: segs)
  with s show False unfolding plain_segment_def by blast
qed

end
