(* ===== verification/Http_Handlers.thy ===== *)
theory Http_Handlers
  imports Http_Access Url_Path
begin

text \<open>
  The handlers of \<open>internal/httpserver\<close>, in the order of the files: services, variables, history
  and audit, tags, search, favorites and tokens, users and permissions, export and import,
  Telegram settings. What the handlers take from elsewhere is in \<open>http_cfg\<close>: the configuration,
  the texts of errors, and \<open>%q\<close> of \<open>fmt\<close>.
\<close>

record http_cfg =
  hc_contour :: string
  hc_grpc_addr :: string
  hc_error_text :: "store_error \<Rightarrow> string"
  hc_json_error :: "string \<Rightarrow> string"
  hc_quote :: "string \<Rightarrow> string"
  hc_file :: "string \<Rightarrow> bool"
  hc_dir :: "string \<Rightarrow> bool"

definition connTTL :: int where "connTTL = 30"

definition bad_id :: response where "bad_id = writeErr 400 ''bad id''"

definition no_content :: response where
  "no_content = \<lparr>rs_status = 204, rs_body = NoBody\<rparr>"

definition isUniqueViolation :: "store_error \<Rightarrow> bool" where
  "isUniqueViolation e \<longleftrightarrow> e = ErrUnique"

section \<open>server.go\<close>

definition handleHealthz :: "response web" where
  "handleHealthz = wret (writeJSON 200 (PlainBody ''ok''))"

definition handleReadyz :: "response web" where
  "handleReadyz =
     wbind (call_or (writeErr 503 ''database unavailable'') (select (\<lambda>_. ()))) (\<lambda>_.
     wret (writeJSON 200 (PlainBody ''ready'')))"

definition handleMe :: "http_cfg \<Rightarrow> http_request \<Rightarrow> response web" where
  "handleMe cfg rq =
     wbind (or_respond unauthenticated (hr_user rq)) (\<lambda>u.
     wret (writeJSON 200 (MeBody u (hc_contour cfg))))"

text \<open>
  \<open>hc_file\<close> says which names the embedded file system opens, \<open>hc_dir\<close> which of them are directories.
  \<open>ServeFileFS\<close> answers for one file; \<open>FileServerFS\<close> first redirects a path that ends in index.html, and
  that of a directory.
\<close>

fun ServeContent :: "content \<Rightarrow> string \<Rightarrow> response" where
  "ServeContent Whole p = writeJSON 200 (FileBody p)"
| "ServeContent Part p = writeJSON 206 (FileBody p)"
| "ServeContent NotModified p = writeJSON 304 NoBody"
| "ServeContent PreconditionFailed p = writeJSON 412 NoBody"
| "ServeContent (BadRange msg) p = writeJSON 416 (PlainBody msg)"

definition ServeFileFS :: "http_cfg \<Rightarrow> content \<Rightarrow> string \<Rightarrow> response" where
  "ServeFileFS cfg cont p = (if hc_file cfg p then ServeContent cont p
     else writeJSON 404 (PlainBody (''404 page not found'' @ [newline])))"

definition FileServerFS :: "http_cfg \<Rightarrow> content \<Rightarrow> string \<Rightarrow> response" where
  "FileServerFS cfg cont path =
     (if has_suffix ''/index.html'' path then writeJSON 301 (MovedBody ''./'')
      else if path = ''/'' then ServeFileFS cfg cont ''index.html''
      else if hc_dir cfg (TrimPrefix path ''/'') then writeJSON 301 (MovedBody (last (split_slash path) @ ''/''))
      else ServeFileFS cfg cont (TrimPrefix path ''/''))"

definition handleStatic :: "http_cfg \<Rightarrow> string \<Rightarrow> http_request \<Rightarrow> response web" where
  "handleStatic cfg path rq =
     (let p = (let p = TrimPrefix path ''/'' in if p = [] then ''index.html'' else p)
      in wret (if hc_file cfg p then FileServerFS cfg (hr_content rq) path
               else ServeFileFS cfg (hr_content rq) ''index.html''))"

section \<open>Services\<close>

fun service_dtos :: "user \<Rightarrow> (int \<rightharpoonup> nat) \<Rightarrow> int list \<Rightarrow> service list \<Rightarrow> service_dto list web" where
  "service_dtos u counts favs [] = wret []"
| "service_dtos u counts favs (svc # svcs) =
     wbind (effectiveLevel u (s_id svc)) (\<lambda>r.
     wbind (service_dtos u counts favs svcs) (\<lambda>rest. wret (
       \<lparr>sd_service = svc, sd_active = (case counts (s_id svc) of None \<Rightarrow> 0 | Some n \<Rightarrow> n),
        sd_level = (case r of Inl _ \<Rightarrow> [] | Inr l \<Rightarrow> l), sd_favorite = (s_id svc \<in> set favs)\<rparr> # rest)))"

definition handleListServices :: "http_request \<Rightarrow> response web" where
  "handleListServices rq =
     wbind (requireUser rq) (\<lambda>u.
     wbind (call_or internal_error
        (if u_role u = RoleAdmin then ListServices else ListServicesForUser (u_id u))) (\<lambda>svcs.
     wbind (call (ActiveConnectionsAll connTTL)) (\<lambda>counts.
     wbind (call (ListFavorites (u_id u))) (\<lambda>favs.
     wbind (service_dtos u (case counts of Inl _ \<Rightarrow> Map.empty | Inr m \<Rightarrow> m)
              (case favs of Inl _ \<Rightarrow> [] | Inr ids \<Rightarrow> ids) svcs) (\<lambda>out.
     wret (writeJSON 200 (ServicesBody out)))))))"

definition handleGetService :: "http_request \<Rightarrow> response web" where
  "handleGetService rq =
     wbind (or_respond bad_id (pathInt rq ''id'')) (\<lambda>sid.
     wbind (authorizeService rq sid False) (\<lambda>(u, level).
     wbind (call_found no_service internal_error (GetService sid)) (\<lambda>svc.
     wbind (call (ActiveConnections sid connTTL)) (\<lambda>count.
     wret (writeJSON 200 (ServiceBody \<lparr>sd_service = svc,
       sd_active = (case count of Inl _ \<Rightarrow> 0 | Inr n \<Rightarrow> n), sd_level = level, sd_favorite = False\<rparr>))))))"

record create_service_req =
  cs_key :: string
  cs_name :: string
  cs_desc :: string

definition create_service_fields :: "create_service_req fields" where
  "create_service_fields = [(''key'', str_field (\<lambda>s r. r\<lparr>cs_key := s\<rparr>)),
     (''name'', str_field (\<lambda>s r. r\<lparr>cs_name := s\<rparr>)),
     (''description'', str_field (\<lambda>s r. r\<lparr>cs_desc := s\<rparr>))]"

definition generateServiceKey :: "http_request \<Rightarrow> string" where
  "generateServiceKey rq = ''svc_'' @ hex_encode (take 8 (hr_rand rq))"

definition bad_key_text :: string where
  "bad_key_text = Join [''key may contain only letters, digits, '', ''_'', '', '', ''.'', '', '', ''-'', '''']
     [CHR 0x27]"

definition handleCreateService :: "http_request \<Rightarrow> response web" where
  "handleCreateService rq =
     wbind (requireAdmin rq) (\<lambda>u.
     wbind (or_respond (writeErr 400 ''invalid body'')
        (decodeJSON rq create_service_fields \<lparr>cs_key = [], cs_name = [], cs_desc = []\<rparr>)) (\<lambda>req.
     let key = (let k = TrimSpace (cs_key req) in if k = [] then generateServiceKey rq else k);
         name = TrimSpace (cs_name req)
     in if \<not> keyRe key then respond (writeErr 400 bad_key_text)
        else if name = [] then respond (writeErr 400 ''name is required'')
        else wbind (call (CreateService key name (cs_desc req) (u_email u))) (\<lambda>r. case r of
               Inl e \<Rightarrow> respond (if isUniqueViolation e then writeErr 409 ''service key already exists''
                                  else internal_error)
             | Inr svc \<Rightarrow>
                 wbind (record_action (u_email u) ServiceCreate (''service:'' @ s_key svc)
                          [(''name'', DStr (s_name svc))]) (\<lambda>_.
                 wret (writeJSON 201 (ServiceBody \<lparr>sd_service = svc, sd_active = 0,
                   sd_level = LevelEditor, sd_favorite = False\<rparr>))))))"

definition handleDeleteService :: "http_request \<Rightarrow> response web" where
  "handleDeleteService rq =
     wbind (requireAdmin rq) (\<lambda>u.
     wbind (or_respond bad_id (pathInt rq ''id'')) (\<lambda>sid.
     wbind (call_found no_service internal_error (GetService sid)) (\<lambda>svc.
     wbind (call_or internal_error (DeleteService sid)) (\<lambda>_.
     wbind (record_action (u_email u) ServiceDelete (''service:'' @ s_key svc) []) (\<lambda>_.
     wret no_content)))))"

definition goSnippet :: "http_cfg \<Rightarrow> string \<Rightarrow> string" where
  "goSnippet cfg key = Join [
     ''// See examples/go-client for the full reference client.'',
     ''cfg := configclient.New(configclient.Options{'',
     ''    Addr:       os.Getenv('' @ [quote] @ ''CONFIG_SERVICE_ADDR'' @ [quote] @ ''), // dynoconf-grpc:9090'',
     ''    ServiceKey: '' @ hc_quote cfg key @ '','',
     ''    Defaults:   defaultsFromEnv(),'',
     ''})'',
     ''go cfg.Run(ctx)'',
     ''value := cfg.Load().Get('' @ [quote] @ ''SOME_KEY'' @ [quote] @ '')''] [newline]"

definition javaSnippet :: "http_cfg \<Rightarrow> string \<Rightarrow> string" where
  "javaSnippet cfg key = Join [
     ''// See examples/java-client for the full Spring reference client.'',
     ''DynoconfConfigClient cfg = DynoconfConfigClient.builder()'',
     ''    .addr(System.getenv('' @ [quote] @ ''CONFIG_SERVICE_ADDR'' @ [quote] @ '')) // dynoconf-grpc:9090'',
     ''    .serviceKey('' @ hc_quote cfg key @ '')'',
     ''    .defaults(defaultsFromEnv())'',
     ''    .build();'',
     ''cfg.start();'',
     ''String value = cfg.load().get('' @ [quote] @ ''SOME_KEY'' @ [quote] @ '');''] [newline]"

definition handleConnectionInfo :: "http_cfg \<Rightarrow> http_request \<Rightarrow> response web" where
  "handleConnectionInfo cfg rq =
     wbind (or_respond bad_id (pathInt rq ''id'')) (\<lambda>sid.
     wbind (authorizeService rq sid False) (\<lambda>_.
     wbind (call_or no_service (GetService sid)) (\<lambda>svc.
     wret (writeJSON 200 (ConnInfoBody [
       (''service_key'', s_key svc), (''grpc_addr'', hc_grpc_addr cfg), (''contour'', hc_contour cfg),
       (''env_snippet'', ''CONFIG_SERVICE_ADDR=dynoconf-grpc:9090'' @ [newline] @
          ''CONFIG_SERVICE_KEY='' @ s_key svc),
       (''go_snippet'', goSnippet cfg (s_key svc)), (''java_snippet'', javaSnippet cfg (s_key svc))])))))"

definition handleServiceConnections :: "http_request \<Rightarrow> response web" where
  "handleServiceConnections rq =
     wbind (or_respond bad_id (pathInt rq ''id'')) (\<lambda>sid.
     wbind (authorizeService rq sid False) (\<lambda>_.
     wbind (call_or internal_error (ActiveConnections sid connTTL)) (\<lambda>n.
     wret (writeJSON 200 (CountBody ''active_connections'' n)))))"

section \<open>Variables\<close>

definition handleListVariables :: "http_request \<Rightarrow> response web" where
  "handleListVariables rq =
     wbind (or_respond bad_id (pathInt rq ''id'')) (\<lambda>sid.
     wbind (authorizeService rq sid False) (\<lambda>_.
     wbind (call_or internal_error (ListVariables sid)) (\<lambda>vars.
     wret (writeJSON 200 (VariablesBody vars)))))"

definition put_variable_fields :: "string fields" where
  "put_variable_fields = [(''value'', str_field (\<lambda>s _. s))]"

definition handlePutVariable :: "http_request \<Rightarrow> response web" where
  "handlePutVariable rq =
     wbind (or_respond bad_id (pathInt rq ''id'')) (\<lambda>sid.
     let key = PathValue rq ''key'' in
     if \<not> keyRe key then respond (writeErr 400 ''invalid variable key'') else
     wbind (authorizeService rq sid True) (\<lambda>(u, _).
     wbind (or_respond (writeErr 400 ''invalid body'') (decodeJSON rq put_variable_fields [])) (\<lambda>val.
     wbind (call_or internal_error (UpsertVariable sid key val (u_email u))) (\<lambda>change.
     wbind (lookup_service sid) (\<lambda>svc.
     wbind (publishVar svc EvUpsert (ch_variable change)) (\<lambda>_.
     wbind (record_action (u_email u) VariableUpsert (''service:'' @ keyOf svc @ ''/'' @ key)
        [(''version'', DInt (v_version (ch_variable change))), (''change_type'', DStr (ch_type change))]) (\<lambda>_.
     wret (writeJSON 200 (VariableBody (ch_variable change))))))))))"

definition handleDeleteVariable :: "http_request \<Rightarrow> response web" where
  "handleDeleteVariable rq =
     wbind (or_respond bad_id (pathInt rq ''id'')) (\<lambda>sid.
     let key = PathValue rq ''key'' in
     wbind (authorizeService rq sid True) (\<lambda>(u, _).
     wbind (call_found (writeErr 404 ''variable not found'') internal_error
        (DeleteVariable sid key (u_email u))) (\<lambda>change.
     wbind (lookup_service sid) (\<lambda>svc.
     wbind (publishVar svc EvDelete (ch_variable change)) (\<lambda>_.
     wbind (record_action (u_email u) VariableDelete (''service:'' @ keyOf svc @ ''/'' @ key) []) (\<lambda>_.
     wret no_content))))))"

section \<open>History and audit\<close>

definition handleServiceHistory :: "http_request \<Rightarrow> response web" where
  "handleServiceHistory rq =
     wbind (or_respond bad_id (pathInt rq ''id'')) (\<lambda>sid.
     wbind (authorizeService rq sid False) (\<lambda>_.
     wbind (call_or internal_error (ServiceHistory sid 200)) (\<lambda>hist.
     wret (writeJSON 200 (HistoryBody hist)))))"

definition handleVariableHistory :: "http_request \<Rightarrow> response web" where
  "handleVariableHistory rq =
     wbind (or_respond bad_id (pathInt rq ''id'')) (\<lambda>sid.
     wbind (authorizeService rq sid False) (\<lambda>_.
     wbind (call_or internal_error (VariableHistory sid (PathValue rq ''key''))) (\<lambda>hist.
     wret (writeJSON 200 (HistoryBody hist)))))"

definition rollback_fields :: "int fields" where
  "rollback_fields = [(''version'', int_field (\<lambda>n _. n))]"

definition handleRollbackVariable :: "http_cfg \<Rightarrow> http_request \<Rightarrow> response web" where
  "handleRollbackVariable cfg rq =
     wbind (or_respond bad_id (pathInt rq ''id'')) (\<lambda>sid.
     let key = PathValue rq ''key'' in
     wbind (authorizeService rq sid True) (\<lambda>(u, _).
     wbind (or_respond (writeErr 400 ''version is required'')
        (case decodeJSON rq rollback_fields 0 of
           None \<Rightarrow> None | Some n \<Rightarrow> if n \<le> 0 then None else Some n)) (\<lambda>ver.
     wbind (call (RollbackVariable sid key ver (u_email u))) (\<lambda>r. case r of
         Inl e \<Rightarrow> respond (if e = ErrNotFound then writeErr 404 ''target version not found''
                           else writeErr 400 (hc_error_text cfg e))
       | Inr change \<Rightarrow>
           wbind (lookup_service sid) (\<lambda>svc.
           wbind (publishVar svc EvUpsert (ch_variable change)) (\<lambda>_.
           wbind (record_action (u_email u) VariableRollback (''service:'' @ keyOf svc @ ''/'' @ key)
              [(''to_version'', DInt ver), (''new_version'', DInt (v_version (ch_variable change)))]) (\<lambda>_.
           wret (writeJSON 200 (VariableBody (ch_variable change))))))))))"

definition handleAudit :: "http_request \<Rightarrow> response web" where
  "handleAudit rq =
     wbind (requireAdmin rq) (\<lambda>_.
     wbind (call_or internal_error (ListAudit 200)) (\<lambda>entries.
     wret (writeJSON 200 (AuditBody entries))))"

section \<open>Tags, search, clients\<close>

definition set_tags_fields :: "string list fields" where
  "set_tags_fields = [(''tags'', list_field json_str (\<lambda>ts _. ts))]"

definition clean_tags :: "string list \<Rightarrow> string list" where
  "clean_tags tags = filter (\<lambda>t. t \<noteq> []) (map TrimSpace tags)"

definition handleSetTags :: "http_request \<Rightarrow> response web" where
  "handleSetTags rq =
     wbind (or_respond bad_id (pathInt rq ''id'')) (\<lambda>sid.
     wbind (authorizeService rq sid True) (\<lambda>_.
     wbind (or_respond (writeErr 400 ''invalid body'') (decodeJSON rq set_tags_fields [])) (\<lambda>tags.
     wbind (call_or internal_error (UpdateServiceTags sid (clean_tags tags))) (\<lambda>_.
     wret no_content))))"

definition handleSearch :: "http_request \<Rightarrow> response web" where
  "handleSearch rq =
     wbind (requireUser rq) (\<lambda>u.
     let q = TrimSpace (hr_q rq) in
     if q = [] then respond (writeJSON 200 (HitsBody [])) else
     wbind (call_or internal_error
        (SearchVariables q (if u_role u \<noteq> RoleAdmin then Some (u_id u) else None))) (\<lambda>hits.
     wret (writeJSON 200 (HitsBody hits))))"

definition handleServiceClients :: "http_request \<Rightarrow> response web" where
  "handleServiceClients rq =
     wbind (or_respond bad_id (pathInt rq ''id'')) (\<lambda>sid.
     wbind (authorizeService rq sid False) (\<lambda>_.
     wbind (call_or internal_error (ListConnectionClients sid connTTL)) (\<lambda>cs.
     wret (writeJSON 200 (ClientsBody cs)))))"

section \<open>Bulk write\<close>

definition bulk_fields :: "(string \<times> string) list fields" where
  "bulk_fields = [(''variables'', map_field (\<lambda>m. m) (\<lambda>m _. m))]"

fun publish_changes :: "service option \<Rightarrow> var_change list \<Rightarrow> unit web" where
  "publish_changes svc [] = wret ()"
| "publish_changes svc (ch # chs) =
     wbind (publishVar svc EvUpsert (ch_variable ch)) (\<lambda>_. publish_changes svc chs)"

definition handleBulkUpsert :: "http_request \<Rightarrow> response web" where
  "handleBulkUpsert rq =
     wbind (or_respond bad_id (pathInt rq ''id'')) (\<lambda>sid.
     wbind (authorizeService rq sid True) (\<lambda>(u, _).
     wbind (or_respond (writeErr 400 ''variables required'')
        (case decodeJSON rq bulk_fields [] of None \<Rightarrow> None | Some m \<Rightarrow> if m = [] then None else Some m)) (\<lambda>kv.
     case find (\<lambda>k. \<not> keyRe k) (map fst kv) of
       Some k \<Rightarrow> respond (writeErr 400 (''invalid key: '' @ k))
     | None \<Rightarrow>
         wbind (call_or internal_error (BulkUpsertVariables sid kv (u_email u))) (\<lambda>changes.
         wbind (lookup_service sid) (\<lambda>svc.
         wbind (publish_changes svc changes) (\<lambda>_.
         wbind (record_action (u_email u) VariableUpsert (''service:'' @ keyOf svc)
            [(''bulk'', DInt (int (length changes)))]) (\<lambda>_.
         wret (writeJSON 200 (CountBody ''applied'' (length changes))))))))))"

section \<open>Favorites\<close>

definition handleAddFavorite :: "http_request \<Rightarrow> response web" where
  "handleAddFavorite rq =
     wbind (or_respond bad_id (pathInt rq ''id'')) (\<lambda>sid.
     wbind (authorizeService rq sid False) (\<lambda>(u, _).
     wbind (call_or internal_error (AddFavorite (u_id u) sid)) (\<lambda>_.
     wret no_content)))"

definition handleRemoveFavorite :: "http_request \<Rightarrow> response web" where
  "handleRemoveFavorite rq =
     wbind (or_respond bad_id (pathInt rq ''id'')) (\<lambda>sid.
     wbind (requireUser rq) (\<lambda>u.
     wbind (call_or internal_error (RemoveFavorite (u_id u) sid)) (\<lambda>_.
     wret no_content)))"

section \<open>API tokens\<close>

definition handleListTokens :: "http_request \<Rightarrow> response web" where
  "handleListTokens rq =
     wbind (requireUser rq) (\<lambda>u.
     wbind (call_or internal_error (ListAPITokens (u_id u))) (\<lambda>tokens.
     wret (writeJSON 200 (TokensBody tokens))))"

definition create_token_fields :: "string fields" where
  "create_token_fields = [(''name'', str_field (\<lambda>s _. s))]"

definition new_token :: "http_request \<Rightarrow> string" where
  "new_token rq = ''dyn_'' @ hex_encode (take 24 (hr_rand rq))"

text \<open>\<open>hash_token\<close> is \<open>HashAPIToken\<close> of \<open>internal/auth\<close>.\<close>

definition handleCreateToken :: "(string \<Rightarrow> string) \<Rightarrow> http_request \<Rightarrow> response web" where
  "handleCreateToken hash_token rq =
     wbind (requireUser rq) (\<lambda>u.
     wbind (or_respond (writeErr 400 ''name required'')
        (case decodeJSON rq create_token_fields [] of
           None \<Rightarrow> None | Some n \<Rightarrow> if TrimSpace n = [] then None else Some n)) (\<lambda>name.
     wbind (call_or internal_error
        (CreateAPIToken (u_id u) (TrimSpace name) (hash_token (new_token rq)))) (\<lambda>tok.
     wret (writeJSON 201 (TokenBody (t_id tok) (t_name tok) (t_created tok) (new_token rq))))))"

definition handleDeleteToken :: "http_request \<Rightarrow> response web" where
  "handleDeleteToken rq =
     wbind (requireUser rq) (\<lambda>u.
     wbind (or_respond bad_id (pathInt rq ''id'')) (\<lambda>tid.
     wbind (call_found (writeErr 404 ''token not found'') internal_error
        (DeleteAPIToken (u_id u) tid)) (\<lambda>_.
     wret no_content)))"

section \<open>Users and permissions\<close>

definition handleListUsers :: "http_request \<Rightarrow> response web" where
  "handleListUsers rq =
     wbind (requireAdmin rq) (\<lambda>_.
     wbind (call_or internal_error ListUsers) (\<lambda>us.
     wret (writeJSON 200 (UsersBody us))))"

definition set_role_fields :: "string fields" where
  "set_role_fields = [(''role'', str_field (\<lambda>s _. s))]"

definition handleSetUserRole :: "http_request \<Rightarrow> response web" where
  "handleSetUserRole rq =
     wbind (requireAdmin rq) (\<lambda>admin.
     wbind (or_respond bad_id (pathInt rq ''id'')) (\<lambda>uid.
     wbind (or_respond (writeErr 400 ''invalid body'') (decodeJSON rq set_role_fields [])) (\<lambda>role.
     if role \<noteq> RoleAdmin \<and> role \<noteq> RoleUser then respond (writeErr 400 ''role must be admin or user'') else
     wbind (call_found (writeErr 404 ''user not found'') internal_error (SetUserRole uid role)) (\<lambda>_.
     wbind (record_action (u_email admin) UserRoleChange (''user:'' @ FormatInt uid)
        [(''role'', DStr role)]) (\<lambda>_.
     wret no_content)))))"

definition handleListPermissions :: "http_request \<Rightarrow> response web" where
  "handleListPermissions rq =
     wbind (requireAdmin rq) (\<lambda>_.
     wbind (or_respond bad_id (pathInt rq ''id'')) (\<lambda>sid.
     wbind (call_or internal_error (ListServicePermissions sid)) (\<lambda>ps.
     wret (writeJSON 200 (PermsBody ps)))))"

definition set_perm_fields :: "(string \<times> string) fields" where
  "set_perm_fields = [(''email'', str_field (\<lambda>s r. (s, snd r))), (''level'', str_field (\<lambda>s r. (fst r, s)))]"

definition handleSetPermission :: "http_request \<Rightarrow> response web" where
  "handleSetPermission rq =
     wbind (requireAdmin rq) (\<lambda>admin.
     wbind (or_respond bad_id (pathInt rq ''id'')) (\<lambda>sid.
     wbind (or_respond (writeErr 400 ''invalid body'') (decodeJSON rq set_perm_fields ([], []))) (\<lambda>(email, level).
     if level \<noteq> LevelViewer \<and> level \<noteq> LevelEditor
     then respond (writeErr 400 ''level must be viewer or editor'') else
     wbind (call_found (writeErr 404 ''user not found (they must log in once first)'') internal_error
        (GetUserByEmail email)) (\<lambda>target.
     wbind (call_or internal_error (SetPermission (u_id target) sid level)) (\<lambda>_.
     wbind (lookup_service sid) (\<lambda>svc.
     wbind (record_action (u_email admin) PermissionGrant (''service:'' @ keyOf svc)
        [(''user'', DStr email), (''level'', DStr level)]) (\<lambda>_.
     wret no_content)))))))"

definition handleRevokePermission :: "http_request \<Rightarrow> response web" where
  "handleRevokePermission rq =
     wbind (requireAdmin rq) (\<lambda>admin.
     wbind (or_respond bad_id (pathInt rq ''id'')) (\<lambda>sid.
     wbind (or_respond (writeErr 400 ''bad user id'') (pathInt rq ''userID'')) (\<lambda>uid.
     wbind (call_or internal_error (RevokePermission uid sid)) (\<lambda>_.
     wbind (lookup_service sid) (\<lambda>svc.
     wbind (record_action (u_email admin) PermissionRevoke (''service:'' @ keyOf svc)
        [(''user_id'', DInt uid)]) (\<lambda>_.
     wret no_content))))))"

section \<open>Export and import\<close>

text \<open>The map of an exported service, in the order of \<open>ListVariables\<close>.\<close>

definition export_of :: "service \<Rightarrow> variable list \<Rightarrow> export_service" where
  "export_of svc vars = \<lparr>es_key = s_key svc, es_name = s_name svc, es_desc = s_desc svc,
     es_vars = fold (\<lambda>v m. AList.update (v_key v) (v_value v) m) vars []\<rparr>"

fun export_services :: "service list \<Rightarrow> export_service list web" where
  "export_services [] = wret []"
| "export_services (svc # svcs) =
     wbind (call_or internal_error (ListVariables (s_id svc))) (\<lambda>vars.
     wbind (export_services svcs) (\<lambda>rest. wret (export_of svc vars # rest)))"

definition handleExport :: "http_cfg \<Rightarrow> http_request \<Rightarrow> response web" where
  "handleExport cfg rq =
     wbind (requireAdmin rq) (\<lambda>_.
     wbind (call_or internal_error ListServices) (\<lambda>svcs.
     wbind (get_world (\<lambda>w. clock (w_db w))) (\<lambda>now.
     wbind (export_services svcs) (\<lambda>out.
     wret (writeJSON 200 (ExportBody \<lparr>ed_version = 1, ed_contour = hc_contour cfg, ed_at = now,
       ed_services = out\<rparr>))))))"

fun import_variables :: "service \<Rightarrow> string \<Rightarrow> (string \<times> string) list \<Rightarrow> string \<Rightarrow> import_result \<Rightarrow>
    import_result web" where
  "import_variables svc skey [] who res = wret res"
| "import_variables svc skey ((k, v) # kvs) who res =
     (if \<not> keyRe k then import_variables svc skey kvs who res else
      wbind (call_or (writeErr 500 (''failed importing '' @ skey @ ''/'' @ k))
        (UpsertVariable (s_id svc) k v who)) (\<lambda>change.
      wbind (publishVar (Some svc) EvUpsert (ch_variable change)) (\<lambda>_.
      import_variables svc skey kvs who (res\<lparr>variables_imported := variables_imported res + 1\<rparr>))))"

definition import_service :: "export_service \<Rightarrow> string \<Rightarrow> import_result \<Rightarrow> (service \<times> import_result) web" where
  "import_service es who res =
     wbind (call (GetServiceByKey (es_key es))) (\<lambda>r. case r of
         Inr svc \<Rightarrow> wret (svc, res\<lparr>services_existing := services_existing res + 1\<rparr>)
       | Inl e \<Rightarrow>
           if e = ErrNotFound
           then wbind (call_or (writeErr 500 (''failed creating service '' @ es_key es))
                  (CreateService (es_key es) (if es_name es = [] then es_key es else es_name es)
                     (es_desc es) who)) (\<lambda>svc.
                wret (svc, res\<lparr>services_created := services_created res + 1\<rparr>))
           else respond internal_error)"

fun import_services :: "export_service list \<Rightarrow> string \<Rightarrow> import_result \<Rightarrow> import_result web" where
  "import_services [] who res = wret res"
| "import_services (es # ess) who res =
     (if es_key es = [] then respond (writeErr 400 ''service with empty key'') else
      wbind (import_service es who res) (\<lambda>(svc, res1).
      wbind (import_variables svc (es_key es) (es_vars es) who res1) (\<lambda>res2.
      import_services ess who res2)))"

definition export_service_fields :: "export_service fields" where
  "export_service_fields = [(''key'', str_field (\<lambda>s r. r\<lparr>es_key := s\<rparr>)),
     (''name'', str_field (\<lambda>s r. r\<lparr>es_name := s\<rparr>)), (''description'', str_field (\<lambda>s r. r\<lparr>es_desc := s\<rparr>)),
     (''variables'', map_field es_vars (\<lambda>m r. r\<lparr>es_vars := m\<rparr>))]"

text \<open>\<open>time_of\<close>: the JSON texts that \<open>time.Time\<close> accepts, and their times.\<close>

definition export_doc_fields :: "(json \<Rightarrow> int option) \<Rightarrow> export_doc fields" where
  "export_doc_fields time_of = [(''version'', int_field (\<lambda>n r. r\<lparr>ed_version := n\<rparr>)),
     (''contour'', str_field (\<lambda>s r. r\<lparr>ed_contour := s\<rparr>)),
     (''exported_at'', (\<lambda>v r. if v = JNull then Some r else map_option (\<lambda>t. r\<lparr>ed_at := t\<rparr>) (time_of v))),
     (''services'', list_field (decode_struct False export_service_fields
        \<lparr>es_key = [], es_name = [], es_desc = [], es_vars = []\<rparr>) (\<lambda>ss r. r\<lparr>ed_services := ss\<rparr>))]"

definition max_import :: nat where "max_import = 10 * 2 ^ 20"

definition decode_import :: "(json \<Rightarrow> int option) \<Rightarrow> http_request \<Rightarrow> export_doc option" where
  "decode_import time_of rq = Option.bind (decode_first (take max_import (hr_body rq)))
     (decode_struct False (export_doc_fields time_of)
        \<lparr>ed_version = 0, ed_contour = [], ed_at = 0, ed_services = []\<rparr>)"

definition handleImport :: "http_cfg \<Rightarrow> (json \<Rightarrow> int option) \<Rightarrow> http_request \<Rightarrow> response web" where
  "handleImport cfg time_of rq =
     wbind (requireAdmin rq) (\<lambda>u.
     wbind (or_respond (writeErr 400 (''invalid JSON: '' @ hc_json_error cfg (hr_body rq)))
        (decode_import time_of rq)) (\<lambda>doc.
     if ed_services doc = [] then respond (writeErr 400 ''no services in document'') else
     wbind (import_services (ed_services doc) (u_email u)
        \<lparr>services_created = 0, services_existing = 0, variables_imported = 0\<rparr>) (\<lambda>res.
     wbind (record_action (u_email u) ''config.import'' (''contour:'' @ hc_contour cfg)
        [(''services_created'', DInt (int (services_created res))),
         (''services_existing'', DInt (int (services_existing res))),
         (''variables_imported'', DInt (int (variables_imported res)))]) (\<lambda>_.
     wret (writeJSON 200 (ImportBody res))))))"

section \<open>Telegram settings\<close>

definition handleGetTelegram :: "http_request \<Rightarrow> response web" where
  "handleGetTelegram rq =
     wbind (requireAdmin rq) (\<lambda>_.
     wbind (call_or internal_error GetTelegramSettings) (\<lambda>ts.
     wret (writeJSON 200 (TelegramBody \<lparr>tv_enabled = tg_enabled ts, tv_chat = tg_chat ts,
       tv_admins = tg_admins ts, tv_has_token = (tg_token ts \<noteq> [])\<rparr>))))"

definition zero_settings :: telegram_settings where
  "zero_settings = \<lparr>tg_enabled = False, tg_token = [], tg_chat = [], tg_admins = []\<rparr>"

definition set_telegram_fields :: "telegram_settings fields" where
  "set_telegram_fields = [(''enabled'', bool_field (\<lambda>b r. r\<lparr>tg_enabled := b\<rparr>)),
     (''bot_token'', str_field (\<lambda>s r. r\<lparr>tg_token := s\<rparr>)), (''chat_id'', str_field (\<lambda>s r. r\<lparr>tg_chat := s\<rparr>)),
     (''admin_ids'', list_field json_int (\<lambda>xs r. r\<lparr>tg_admins := xs\<rparr>))]"

definition handleSetTelegram :: "http_request \<Rightarrow> response web" where
  "handleSetTelegram rq =
     wbind (requireAdmin rq) (\<lambda>u.
     wbind (or_respond (writeErr 400 ''invalid body'')
        (decodeJSON rq set_telegram_fields zero_settings)) (\<lambda>req.
     wbind (call_or internal_error GetTelegramSettings) (\<lambda>cur.
     let ts = req\<lparr>tg_token := (if tg_token req = [] then tg_token cur else tg_token req)\<rparr> in
     wbind (call_or internal_error (SaveTelegramSettings ts)) (\<lambda>_.
     wbind (act (Configure ts)) (\<lambda>_.
     wbind (record_action (u_email u) ''settings.telegram'' ''telegram''
        [(''enabled'', DBool (tg_enabled ts))]) (\<lambda>_.
     wret no_content))))))"

definition test_telegram_fields :: "(string \<times> string) fields" where
  "test_telegram_fields = [(''bot_token'', str_field (\<lambda>s r. (s, snd r))),
     (''chat_id'', str_field (\<lambda>s r. (fst r, s)))]"

definition handleTestTelegram :: "http_request \<Rightarrow> response web" where
  "handleTestTelegram rq =
     wbind (requireAdmin rq) (\<lambda>_.
     wbind (or_respond (writeErr 400 ''invalid body'') (decodeJSON rq test_telegram_fields ([], []))) (\<lambda>(tok, chat).
     wbind (call GetTelegramSettings) (\<lambda>r.
     let cur = (case r of Inl _ \<Rightarrow> zero_settings | Inr s \<Rightarrow> s);
         token = (if tok = [] then tg_token cur else tok);
         chatID = (if chat = [] then tg_chat cur else chat)
     in (\<lambda>w. case SendTest token chatID w of
           (Some e, w') \<Rightarrow> (Inl (writeErr 502 e), w')
         | (None, w') \<Rightarrow> (Inr no_content, w')))))"

end
