(* ===== verification/Http_Logic.thy ===== *)
theory Http_Logic
  imports Http_Handlers
begin

text \<open>
  What every handler guarantees, proved once against a contract: an invariant of the tables,
  what the user of the request may do, and a condition on responses. The contract lists what
  each group of store operations has to keep, and only for a user who may use it. Its
  interpretations (in \<open>Http_Server\<close>) give the table invariant, the protection of services from
  users without the editor level, the confinement of reads, and the treatment of requests
  without a user.
\<close>

section \<open>Rules\<close>

lemma hoare_prod: "(\<And>a b. x = (a, b) \<Longrightarrow> hoare Q (f a b) A R) \<Longrightarrow> hoare Q (case x of (a, b) \<Rightarrow> f a b) A R"
  by (cases x) simp

lemma hoare_sum:
  "(\<And>e. x = Inl e \<Longrightarrow> hoare Q (f e) A R) \<Longrightarrow> (\<And>y. x = Inr y \<Longrightarrow> hoare Q (g y) A R) \<Longrightarrow>
     hoare Q (case x of Inl e \<Rightarrow> f e | Inr y \<Rightarrow> g y) A R"
  by (cases x) simp_all

lemma hoare_option:
  "(x = None \<Longrightarrow> hoare Q m A R) \<Longrightarrow> (\<And>y. x = Some y \<Longrightarrow> hoare Q (g y) A R) \<Longrightarrow>
     hoare Q (case x of None \<Rightarrow> m | Some y \<Rightarrow> g y) A R"
  by (cases x) simp_all

lemma hoare_call_True: "preserves Q m \<Longrightarrow> hoare Q (call m) (\<lambda>_. True) R"
  by (rule hoare_weaken [OF hoare_call [where B = "\<lambda>_. True"]]) auto

lemma hoare_call_or_True: "preserves Q m \<Longrightarrow> R e \<Longrightarrow> hoare Q (call_or e m) (\<lambda>_. True) R"
  by (rule hoare_call_or) auto

lemma hoare_call_found_True:
  "preserves Q m \<Longrightarrow> R nf \<Longrightarrow> R e \<Longrightarrow> hoare Q (call_found nf e m) (\<lambda>_. True) R"
  by (rule hoare_call_found) auto

text \<open>What the reading operations return.\<close>

lemma ListVariables_rows: "ListVariables sid d = (Inr vs, d') \<Longrightarrow> \<forall>v \<in> set vs. v_service v = sid"
  unfolding ListVariables_def by (auto elim!: select_InrE)

lemma ServiceHistory_rows: "ServiceHistory sid n d = (Inr vs, d') \<Longrightarrow> \<forall>v \<in> set vs. vv_service v = sid"
  unfolding ServiceHistory_def by (auto elim!: select_InrE dest!: in_set_takeD)

lemma VariableHistory_rows: "VariableHistory sid k d = (Inr vs, d') \<Longrightarrow> \<forall>v \<in> set vs. vv_service v = sid"
  unfolding VariableHistory_def by (auto elim!: select_InrE simp: key_history_def)

lemma ListConnectionClients_rows:
  "ListConnectionClients sid n d = (Inr vs, d') \<Longrightarrow> \<forall>v \<in> set vs. c_service v = sid"
  unfolding ListConnectionClients_def by (auto elim!: select_InrE)

lemma GetService_row: "GetService sid d = (Inr s, d') \<Longrightarrow> s_id s = sid"
  unfolding GetService_def
  by (auto elim!: bind_InrE select_InrE or_not_found_InrE simp: find_service_def dest: find_SomeD)

lemma ListAPITokens_rows: "ListAPITokens uid d = (Inr ts, d') \<Longrightarrow> \<forall>x \<in> set ts. t_user x = uid"
  unfolding ListAPITokens_def by (auto elim!: select_InrE simp: public_token_def)

lemma ListServicesForUser_rows:
  "ListServicesForUser uid d = (Inr ss, d') \<Longrightarrow>
     \<forall>s \<in> set ss. \<exists>p \<in> set (perms_tbl (tbl d)). p_user p = uid \<and> p_service p = s_id s"
  unfolding ListServicesForUser_def by (auto elim!: select_InrE simp: services_of_user_def)

lemma SearchVariables_rows:
  "SearchVariables q (Some uid) d = (Inr hs, d') \<Longrightarrow>
     \<forall>h \<in> set hs. \<exists>p \<in> set (perms_tbl (tbl d)). p_user p = uid \<and> p_service p = h_service h"
  unfolding SearchVariables_def
  by (fastforce elim!: select_InrE simp: search_rows_def Let_def dest!: in_set_takeD split: if_splits)

lemma change_row:
  "UpsertVariable sid k v who d = (Inr ch, d') \<Longrightarrow> v_service (ch_variable ch) = sid"
  "RollbackVariable sid k n who d = (Inr ch, d') \<Longrightarrow> v_service (ch_variable ch) = sid"
  by (auto simp: wrote_def is_var_def dest!: UpsertVariable_wrote RollbackVariable_wrote)

section \<open>The contract\<close>

text \<open>The services whose data a body carries, and the bodies that only admins may see.\<close>

fun mentions :: "payload \<Rightarrow> int set" where
  "mentions (ServicesBody ds) = (\<lambda>d. s_id (sd_service d)) ` set ds"
| "mentions (ServiceBody d) = {s_id (sd_service d)}"
| "mentions (VariablesBody vs) = v_service ` set vs"
| "mentions (VariableBody v) = {v_service v}"
| "mentions (HistoryBody hs) = vv_service ` set hs"
| "mentions (HitsBody hs) = h_service ` set hs"
| "mentions (ClientsBody cs) = c_service ` set cs"
| "mentions b = {}"

text \<open>
  The services that a response is about: a body without the id of its service (the connection details,
  the number of connections, the number of values that were written) is about the service in the path.
\<close>

fun concerns :: "int option \<Rightarrow> payload \<Rightarrow> int set" where
  "concerns a (ConnInfoBody kvs) = set_option a"
| "concerns a (CountBody name n) = set_option a"
| "concerns a b = mentions b"

fun admin_body :: "payload \<Rightarrow> bool" where
  "admin_body (AuditBody es) = True"
| "admin_body (UsersBody us) = True"
| "admin_body (PermsBody ps) = True"
| "admin_body (ExportBody d) = True"
| "admin_body (ImportBody r) = True"
| "admin_body (TelegramBody v) = True"
| "admin_body b = False"

fun token_owners :: "payload \<Rightarrow> int set" where
  "token_owners (TokensBody ts) = t_user ` set ts"
| "token_owners b = {}"

definition early :: "response list" where
  "early = [unauthenticated, bad_id, writeErr 400 ''invalid variable key'']"

locale request_contract =
  fixes Q :: tinv and rq :: http_request and R :: "response \<Rightarrow> bool"
    and may :: "int \<Rightarrow> bool \<Rightarrow> bool" and is_admin :: bool
  assumes guard: "\<And>u t s sid need. hr_user rq = Some u \<Longrightarrow> Q t s \<Longrightarrow> allowed t u sid need \<Longrightarrow> may sid need"
    and row_guard: "\<And>u t s p. hr_user rq = Some u \<Longrightarrow> Q t s \<Longrightarrow> p \<in> set (perms_tbl t) \<Longrightarrow>
        p_user p = u_id u \<Longrightarrow> may (p_service p) False"
    and admin: "\<And>u. hr_user rq = Some u \<Longrightarrow> u_role u = RoleAdmin \<Longrightarrow> is_admin"
    and admin_may: "\<And>sid need. is_admin \<Longrightarrow> may sid need"
    and editor_may: "\<And>sid. may sid True \<Longrightarrow> may sid False"
    and R_early: "\<And>r. r \<in> set early \<Longrightarrow> R r"
    and R_user: "\<And>u r. hr_user rq = Some u \<Longrightarrow> \<forall>sid \<in> concerns (pathInt rq ''id'') (rs_body r). may sid False \<Longrightarrow>
        admin_body (rs_body r) \<longrightarrow> is_admin \<Longrightarrow> token_owners (rs_body r) \<subseteq> {u_id u} \<Longrightarrow> R r"
    and own_ops: "\<And>u sid n h tid a b c ds. hr_user rq = Some u \<Longrightarrow>
        preserves Q (AddFavorite (u_id u) sid) \<and> preserves Q (RemoveFavorite (u_id u) sid) \<and>
        preserves Q (CreateAPIToken (u_id u) n h) \<and> preserves Q (DeleteAPIToken (u_id u) tid) \<and>
        preserves Q (InsertAudit a b c ds)"
    and edit_ops: "\<And>u sid k v who kvs n tags. hr_user rq = Some u \<Longrightarrow> may sid True \<Longrightarrow>
        preserves Q (UpsertVariable sid k v who) \<and> preserves Q (BulkUpsertVariables sid kvs who) \<and>
        preserves Q (DeleteVariable sid k who) \<and> preserves Q (RollbackVariable sid k n who) \<and>
        preserves Q (UpdateServiceTags sid tags)"
    and admin_ops: "\<And>u uid sid k n ds who role lv ts. hr_user rq = Some u \<Longrightarrow> is_admin \<Longrightarrow>
        preserves Q (CreateService k n ds who) \<and> preserves Q (DeleteService sid) \<and>
        preserves Q (SetUserRole uid role) \<and> preserves Q (SetPermission uid sid lv) \<and>
        preserves Q (RevokePermission uid sid) \<and> preserves Q (SaveTelegramSettings ts)"
begin

lemma R_err: "hr_user rq = Some u \<Longrightarrow> R (writeErr n s)"
  by (rule R_user) (auto simp: writeErr_def writeJSON_def)

lemma R_simps:
  "R unauthenticated" "R bad_id" "R (writeErr 400 ''invalid variable key'')"
  "hr_user rq = Some u \<Longrightarrow> R internal_error" "hr_user rq = Some u \<Longrightarrow> R no_service"
  "hr_user rq = Some u \<Longrightarrow> R no_content"
proof -
  show "R unauthenticated" "R bad_id" "R (writeErr 400 ''invalid variable key'')"
    using R_early by (simp_all add: early_def)
  show "hr_user rq = Some u \<Longrightarrow> R internal_error" "hr_user rq = Some u \<Longrightarrow> R no_service"
    using R_err by (simp_all add: internal_error_def no_service_def)
  show "hr_user rq = Some u \<Longrightarrow> R no_content"
    by (rule R_user) (simp_all add: no_content_def)
qed

lemma R_json:
  "hr_user rq = Some u \<Longrightarrow> \<forall>sid \<in> concerns (pathInt rq ''id'') b. may sid False \<Longrightarrow> admin_body b \<longrightarrow> is_admin \<Longrightarrow>
     token_owners b \<subseteq> {u_id u} \<Longrightarrow> R (writeJSON n b)"
  by (rule R_user) (auto simp: writeJSON_def)

lemma R_bodies:
  assumes "hr_user rq = Some u"
  shows "\<And>ds. \<forall>d \<in> set ds. may (s_id (sd_service d)) False \<Longrightarrow> R (writeJSON n (ServicesBody ds))"
    and "\<And>d. may (s_id (sd_service d)) False \<Longrightarrow> R (writeJSON n (ServiceBody d))"
    and "\<And>vs. \<forall>v \<in> set vs. may (v_service v) False \<Longrightarrow> R (writeJSON n (VariablesBody vs))"
    and "\<And>v. may (v_service v) False \<Longrightarrow> R (writeJSON n (VariableBody v))"
    and "\<And>hs. \<forall>x \<in> set hs. may (vv_service x) False \<Longrightarrow> R (writeJSON n (HistoryBody hs))"
    and "\<And>hs. \<forall>x \<in> set hs. may (h_service x) False \<Longrightarrow> R (writeJSON n (HitsBody hs))"
    and "\<And>cs. \<forall>c \<in> set cs. may (c_service c) False \<Longrightarrow> R (writeJSON n (ClientsBody cs))"
    and "\<And>ts. \<forall>x \<in> set ts. t_user x = u_id u \<Longrightarrow> R (writeJSON n (TokensBody ts))"
    and "\<And>b. is_admin \<Longrightarrow> admin_body b \<Longrightarrow> R (writeJSON n b)"
    and "\<And>a kvs. pathInt rq ''id'' = Some a \<Longrightarrow> may a False \<Longrightarrow> R (writeJSON n (ConnInfoBody kvs))"
    and "\<And>a s m. pathInt rq ''id'' = Some a \<Longrightarrow> may a False \<Longrightarrow> R (writeJSON n (CountBody s m))"
    and "\<And>b. concerns (pathInt rq ''id'') b = {} \<Longrightarrow> \<not> admin_body b \<Longrightarrow> token_owners b = {} \<Longrightarrow> R (writeJSON n b)"
proof -
  show "is_admin \<Longrightarrow> admin_body b \<Longrightarrow> R (writeJSON n b)" for b
    by (rule R_json [OF assms]) (cases b; simp)+
qed (rule R_json [OF assms]; auto)+

text \<open>The guards.\<close>

lemma h_user: "hoare Q (requireUser rq) (\<lambda>u. hr_user rq = Some u) R"
  by (rule hoare_requireUser) (rule R_simps)

lemma h_admin: "hoare Q (requireAdmin rq) (\<lambda>u. hr_user rq = Some u \<and> is_admin) R"
  unfolding requireAdmin_def
  by (rule hoare_bind [OF h_user]) (auto intro!: hoare_ret hoare_respond R_err admin)

lemma h_service:
  "hoare Q (authorizeService rq sid need) (\<lambda>(u, l). hr_user rq = Some u \<and> may sid need) R"
  by (rule hoare_authorizeService) (use guard in \<open>auto simp: denied_def R_simps intro: R_err\<close>)

lemma h_id: "hoare Q (or_respond bad_id x) (\<lambda>a. x = Some a) R"
  by (rule hoare_or_respond) (rule R_simps)

text \<open>The readers.\<close>

lemma h_ListVariables: "R e \<Longrightarrow> hoare Q (call_or e (ListVariables sid)) (\<lambda>vs. \<forall>v \<in> set vs. v_service v = sid) R"
  by (rule hoare_call_or) (auto simp: ListVariables_def intro: pres dest: ListVariables_rows [unfolded ListVariables_def])

lemma h_ServiceHistory:
  "R e \<Longrightarrow> hoare Q (call_or e (ServiceHistory sid n)) (\<lambda>vs. \<forall>v \<in> set vs. vv_service v = sid) R"
  by (rule hoare_call_or) (auto simp: ServiceHistory_def intro: pres dest: ServiceHistory_rows [unfolded ServiceHistory_def])

lemma h_VariableHistory:
  "R e \<Longrightarrow> hoare Q (call_or e (VariableHistory sid k)) (\<lambda>vs. \<forall>v \<in> set vs. vv_service v = sid) R"
  by (rule hoare_call_or) (auto simp: VariableHistory_def intro: pres dest: VariableHistory_rows [unfolded VariableHistory_def])

lemma h_Clients:
  "R e \<Longrightarrow> hoare Q (call_or e (ListConnectionClients sid n)) (\<lambda>vs. \<forall>v \<in> set vs. c_service v = sid) R"
  by (rule hoare_call_or) (auto intro: reads_only_preserves dest: ListConnectionClients_rows)

lemma h_GetService:
  "R nf \<Longrightarrow> R e \<Longrightarrow> hoare Q (call_found nf e (GetService sid)) (\<lambda>s. s_id s = sid) R"
  by (rule hoare_call_found) (auto intro: reads_only_preserves dest: GetService_row)

lemma h_Tokens: "R e \<Longrightarrow> hoare Q (call_or e (ListAPITokens uid)) (\<lambda>ts. \<forall>x \<in> set ts. t_user x = uid) R"
  by (rule hoare_call_or) (auto intro: reads_only_preserves dest: ListAPITokens_rows)

lemma h_list:
  assumes "hr_user rq = Some u" and "R e"
  shows "hoare Q (call_or e (if u_role u = RoleAdmin then ListServices else ListServicesForUser (u_id u)))
     (\<lambda>ss. \<forall>s \<in> set ss. may (s_id s) False) R"
proof (rule hoare_call_or)
  show "preserves Q (if u_role u = RoleAdmin then ListServices else ListServicesForUser (u_id u))"
    by (simp add: ListServices_def ListServicesForUser_def pres)
  fix d ss d'
  assume Q: "Q (tbl d) (seqs d)"
    and run: "(if u_role u = RoleAdmin then ListServices else ListServicesForUser (u_id u)) d = (Inr ss, d')"
  show "\<forall>s \<in> set ss. may (s_id s) False"
  proof (cases "u_role u = RoleAdmin")
    case True
    then show ?thesis using assms admin admin_may by blast
  next
    case False
    with run ListServicesForUser_rows [of "u_id u" d ss d'] row_guard [OF assms(1) Q]
    show ?thesis by fastforce
  qed
qed (rule assms)

lemma h_search:
  assumes "hr_user rq = Some u" and "R e"
  shows "hoare Q (call_or e (SearchVariables q (if u_role u \<noteq> RoleAdmin then Some (u_id u) else None)))
     (\<lambda>hs. \<forall>h \<in> set hs. may (h_service h) False) R"
proof (rule hoare_call_or)
  show "preserves Q (SearchVariables q (if u_role u \<noteq> RoleAdmin then Some (u_id u) else None))"
    by (simp add: SearchVariables_def pres)
  fix d hs d'
  assume Q: "Q (tbl d) (seqs d)"
    and run: "SearchVariables q (if u_role u \<noteq> RoleAdmin then Some (u_id u) else None) d = (Inr hs, d')"
  show "\<forall>h \<in> set hs. may (h_service h) False"
  proof (cases "u_role u = RoleAdmin")
    case True
    then show ?thesis using assms admin admin_may by blast
  next
    case False
    with run SearchVariables_rows [of q "u_id u" d hs d'] row_guard [OF assms(1) Q]
    show ?thesis by fastforce
  qed
qed (rule assms)

lemma h_Upsert:
  "hr_user rq = Some u \<Longrightarrow> may sid True \<Longrightarrow> R e \<Longrightarrow>
     hoare Q (call_or e (UpsertVariable sid k v who)) (\<lambda>ch. v_service (ch_variable ch) = sid) R"
  by (rule hoare_call_or) (auto dest: change_row edit_ops)

lemma h_Rollback:
  "hr_user rq = Some u \<Longrightarrow> may sid True \<Longrightarrow>
     hoare Q (call (RollbackVariable sid k n who))
       (\<lambda>r. case r of Inl _ \<Rightarrow> True | Inr ch \<Rightarrow> v_service (ch_variable ch) = sid) R"
  by (rule hoare_call) (auto dest: change_row edit_ops)

lemma h_record: "hr_user rq = Some u \<Longrightarrow> hoare Q (record_action a b c ds) (\<lambda>_. True) R"
  by (rule hoare_record) (use own_ops in blast)

lemma h_configure: "hoare Q (act (Configure s)) (\<lambda>_. True) R"
  by (rule hoare_act) auto

lemma h_publish_changes: "hoare Q (publish_changes svc chs) (\<lambda>_. True) R"
  by (induction svc chs rule: publish_changes.induct)
    (auto intro!: hoare_ret hoare_bind [OF hoare_publishVar])

lemma h_dtos:
  "hoare Q (service_dtos u counts favs ss) (\<lambda>ds. map sd_service ds = ss) R"
proof (induction ss)
  case (Cons s ss)
  show ?case
    by (simp, rule hoare_bind [OF hoare_effectiveLevel], rule hoare_bind [OF Cons.IH])
      (auto intro: hoare_ret)
qed (auto intro: hoare_ret)

lemma h_export:
  "hr_user rq = Some u \<Longrightarrow> hoare Q (export_services ss) (\<lambda>_. True) R"
proof (induction ss)
  case (Cons s ss)
  from Cons show ?case
    by (simp, intro hoare_bind [OF h_ListVariables] hoare_bind [OF Cons.IH] hoare_ret R_simps(4)) auto
qed (auto intro: hoare_ret)

text \<open>The rules in the order in which they apply.\<close>

lemmas guards = h_user h_admin h_service h_id
lemmas reads = h_ListVariables h_ServiceHistory h_VariableHistory h_Clients h_GetService h_Tokens
  h_list h_search h_Upsert h_Rollback h_record h_configure h_publish_changes h_dtos h_export
  hoare_publishVar hoare_lookup_service
lemmas steps = hoare_or_respond hoare_call_found_True hoare_call_or_True hoare_call_True hoare_get
  hoare_ret hoare_respond hoare_prod hoare_sum hoare_option hoare_if hoare_bind
lemmas readers = reads_only_preserves reads_only_select reads_only_users reads_only_connections
lemmas ok = R_simps R_err R_bodies

end

end
