(* ===== verification/Http_Contract.thy ===== *)
theory Http_Contract
  imports Http_Logic
begin

text \<open>Every handler keeps the contract of \<open>Http_Logic\<close>.\<close>

context request_contract
begin

lemma keeps_services:
  "hoare Q (handleListServices rq) R R"
  "hoare Q (handleGetService rq) R R"
  "hoare Q (handleCreateService rq) R R"
  "hoare Q (handleDeleteService rq) R R"
  "hoare Q (handleConnectionInfo cfg rq) R R"
  "hoare Q (handleServiceConnections rq) R R"
  "hoare Q (handleMe cfg rq) R R"
  unfolding handleListServices_def handleGetService_def handleCreateService_def handleDeleteService_def handleConnectionInfo_def handleServiceConnections_def handleMe_def Let_def
  by (rule guards reads steps
    | (auto simp: ActiveConnectionsAll_def ListFavorites_def intro: ok pres readers editor_may admin_may dest: edit_ops own_ops admin_ops)[1])+

lemma keeps_variables:
  "hoare Q (handleListVariables rq) R R"
  "hoare Q (handlePutVariable rq) R R"
  "hoare Q (handleDeleteVariable rq) R R"
  "hoare Q (handleServiceHistory rq) R R"
  "hoare Q (handleVariableHistory rq) R R"
  "hoare Q (handleRollbackVariable cfg rq) R R"
  "hoare Q (handleBulkUpsert rq) R R"
  unfolding handleListVariables_def handlePutVariable_def handleDeleteVariable_def handleServiceHistory_def handleVariableHistory_def handleRollbackVariable_def handleBulkUpsert_def Let_def
  by (rule guards reads steps
    | (auto intro: ok pres readers editor_may admin_may dest: edit_ops own_ops admin_ops)[1])+

lemma keeps_features:
  "hoare Q (handleAudit rq) R R"
  "hoare Q (handleSetTags rq) R R"
  "hoare Q (handleSearch rq) R R"
  "hoare Q (handleServiceClients rq) R R"
  "hoare Q (handleAddFavorite rq) R R"
  "hoare Q (handleRemoveFavorite rq) R R"
  "hoare Q (handleListTokens rq) R R"
  "hoare Q (handleCreateToken h rq) R R"
  "hoare Q (handleDeleteToken rq) R R"
  unfolding handleAudit_def handleSetTags_def handleSearch_def handleServiceClients_def handleAddFavorite_def handleRemoveFavorite_def handleListTokens_def handleCreateToken_def handleDeleteToken_def Let_def
  by (rule guards reads steps
    | (auto intro: ok pres readers editor_may admin_may dest: edit_ops own_ops admin_ops)[1])+

lemma keeps_admin:
  "hoare Q (handleListUsers rq) R R"
  "hoare Q (handleSetUserRole rq) R R"
  "hoare Q (handleListPermissions rq) R R"
  "hoare Q (handleSetPermission rq) R R"
  "hoare Q (handleRevokePermission rq) R R"
  "hoare Q (handleExport cfg rq) R R"
  "hoare Q (handleGetTelegram rq) R R"
  "hoare Q (handleSetTelegram rq) R R"
  unfolding handleListUsers_def handleSetUserRole_def handleListPermissions_def handleSetPermission_def handleRevokePermission_def handleExport_def handleGetTelegram_def handleSetTelegram_def Let_def
  by (rule guards reads steps
    | (auto intro: ok pres readers editor_may admin_may dest: edit_ops own_ops admin_ops)[1])+

text \<open>Import goes through two loops, and the test message ends in a call of its own.\<close>

lemma keeps_import_variables:
  assumes "hr_user rq = Some u" and "is_admin"
  shows "hoare Q (import_variables svc skey kvs who res) (\<lambda>_. True) R"
proof (induction svc skey kvs who res rule: import_variables.induct)
  case (2 svc skey k v kvs who res)
  have "hoare Q (call_or e (UpsertVariable (s_id svc) k v who)) (\<lambda>ch. v_service (ch_variable ch) = s_id svc) R"
    if "R e" for e
    using assms that admin_may by (intro h_Upsert) auto
  with 2 assms show ?case by (auto intro!: hoare_bind [OF hoare_publishVar] hoare_bind intro: ok)
qed (auto intro: hoare_ret)

lemma keeps_import_service:
  assumes "hr_user rq = Some u" and "is_admin"
  shows "hoare Q (import_service es who res) (\<lambda>_. True) R"
  unfolding import_service_def
  by (rule steps | (use assms admin_ops in \<open>auto simp: GetServiceByKey_def intro: ok pres\<close>)[1])+

lemma keeps_import_services:
  assumes "hr_user rq = Some u" and "is_admin"
  shows "hoare Q (import_services ess who res) (\<lambda>_. True) R"
proof (induction ess who res rule: import_services.induct)
  case (2 es ess who res)
  then show ?case
    using keeps_import_variables [OF assms] keeps_import_service [OF assms] assms
    by (auto intro!: hoare_bind [where B = "\<lambda>_. True"] hoare_respond hoare_prod intro: ok)
qed (auto intro: hoare_ret)

lemma keeps_import: "hoare Q (handleImport cfg time_of rq) R R"
  unfolding handleImport_def
  by (rule guards reads keeps_import_services steps | (auto intro: ok)[1])+

lemma keeps_test: "hoare Q (handleTestTelegram rq) R R"
proof -
  have test: "hoare Q (\<lambda>w. case SendTest token chatID w of
      (Some e, w') \<Rightarrow> (Inl (writeErr 502 e), w') | (None, w') \<Rightarrow> (Inr no_content, w')) R R"
    if "hr_user rq = Some u" for token chatID u
  proof (rule hoareI)
    fix w :: world and r w'
    assume Q: "Q (tbl (w_db w)) (seqs (w_db w))" and run: "(case SendTest token chatID w of
      (Some e, w') \<Rightarrow> (Inl (writeErr 502 e), w') | (None, w') \<Rightarrow> (Inr no_content, w')) = (r, w')"
    obtain e w1 where st: "SendTest token chatID w = (e, w1)" by fastforce
    then have "w_db w1 = w_db w" using SendTest_sel [of token chatID w] by simp
    with Q run st ok(6) [OF that] R_err [OF that]
    show "Q (tbl (w_db w')) (seqs (w_db w')) \<and> (case r of Inl x \<Rightarrow> R x | Inr x \<Rightarrow> R x)"
      by (auto split: option.splits)
  qed
  show ?thesis
    unfolding handleTestTelegram_def Let_def
    by (rule guards test steps | (auto intro: ok readers)[1])+
qed

end

end
