(* ===== verification/Auth.thy ===== *)
theory Auth
  imports Web
begin

text \<open>
  \<open>internal/auth\<close>: sessions in encrypted cookies, the OIDC login flow, the development login and
  the authentication of requests. The libraries are parameters: the cookie codec (securecookie),
  the OIDC provider (token exchange, verification of id tokens) and SHA-256; random tokens come
  with the request.
\<close>

section \<open>Cookies and sessions\<close>

definition sessionCookie :: string where "sessionCookie = ''dynoconf_session''"

text \<open>30 days, in seconds.\<close>

definition sessionTTL :: int where "sessionTTL = 30 * 24 * 3600"

record session =
  se_user :: int
  se_email :: string
  se_name :: string
  se_role :: string

text \<open>\<open>SameSite=Lax\<close>, \<open>HttpOnly\<close> and the path \<open>/\<close> are on every cookie of the program.\<close>

record cookie =
  ck_name :: string
  ck_value :: string
  ck_secure :: bool
  ck_max_age :: "int option"
  ck_expires :: "int option"

record codec =
  enc_session :: "string \<Rightarrow> session \<Rightarrow> string option"
  dec_session :: "string \<Rightarrow> string \<Rightarrow> session option"
  enc_string :: "string \<Rightarrow> string \<Rightarrow> string option"
  dec_string :: "string \<Rightarrow> string \<Rightarrow> string option"
  cd_secure :: bool

definition codec_write :: "codec \<Rightarrow> session \<Rightarrow> int \<Rightarrow> cookie option" where
  "codec_write c s now = (case enc_session c sessionCookie s of
      None \<Rightarrow> None
    | Some encoded \<Rightarrow> Some \<lparr>ck_name = sessionCookie, ck_value = encoded, ck_secure = cd_secure c,
        ck_max_age = Some sessionTTL, ck_expires = Some (now + sessionTTL)\<rparr>)"

type_synonym cookies = "(string \<times> string) list"

definition codec_read :: "codec \<Rightarrow> cookies \<Rightarrow> session option" where
  "codec_read c cs = (case map_of cs sessionCookie of
      None \<Rightarrow> None
    | Some v \<Rightarrow> dec_session c sessionCookie v)"

definition codec_clear :: "codec \<Rightarrow> cookie" where
  "codec_clear c = \<lparr>ck_name = sessionCookie, ck_value = [], ck_secure = cd_secure c,
     ck_max_age = Some (- 1), ck_expires = None\<rparr>"

section \<open>Configuration and requests\<close>

record claims =
  cl_sub :: string
  cl_email :: string
  cl_name :: string
  cl_preferred :: string

text \<open>
  \<open>exchange\<close>: no token, a token without id token, or a token with one. \<open>verify\<close>: None when the
  verification fails, otherwise the nonce and the claims (None when they do not parse).
\<close>

record auth_env =
  ae_codec :: codec
  ae_sha256 :: "string \<Rightarrow> string"
  ae_dev_email :: string
  ae_bootstrap :: string
  ae_cookie_secure :: bool
  ae_lower :: "string \<Rightarrow> string"
  ae_code_url :: "string \<Rightarrow> string \<Rightarrow> string"
  ae_exchange :: "string \<Rightarrow> string option option"
  ae_verify :: "string \<Rightarrow> (string \<times> claims option) option"

record auth_request =
  ar_cookies :: cookies
  ar_authorization :: string
  ar_state :: string
  ar_code :: string
  ar_rand :: "string \<times> string"

datatype auth_result = Redirect string | HttpError nat string

record auth_response =
  set_cookies :: "cookie list"
  result :: auth_result

definition DevMode :: "auth_env \<Rightarrow> bool" where
  "DevMode e \<longleftrightarrow> ae_dev_email e \<noteq> []"

section \<open>Authentication of a request\<close>

definition HashAPIToken :: "auth_env \<Rightarrow> string \<Rightarrow> string" where
  "HashAPIToken e token = hex_encode (ae_sha256 e (''apitoken:'' @ token))"

definition bearer_token :: "string \<Rightarrow> string option" where
  "bearer_token h = (if has_prefix ''Bearer '' h then Some (TrimSpace (TrimPrefix h ''Bearer '')) else None)"

definition token_user :: "auth_env \<Rightarrow> auth_request \<Rightarrow> world \<Rightarrow> user option \<times> world" where
  "token_user e rq w = (case bearer_token (ar_authorization rq) of
      None \<Rightarrow> (None, w)
    | Some tok \<Rightarrow> (case run_db (UserByAPIToken (HashAPIToken e tok)) w of
         (Inl _, w') \<Rightarrow> (None, w')
       | (Inr u, w') \<Rightarrow> (Some u, w')))"

text \<open>\<open>Middleware\<close>: the user that the next handler finds in the context, if any.\<close>

definition Middleware :: "auth_env \<Rightarrow> auth_request \<Rightarrow> world \<Rightarrow> user option \<times> world" where
  "Middleware e rq w = (case codec_read (ae_codec e) (ar_cookies rq) of
      None \<Rightarrow> token_user e rq w
    | Some s \<Rightarrow> (case run_db (GetUser (se_user s)) w of
         (Inr u, w') \<Rightarrow> (Some u, w')
       | (Inl _, w') \<Rightarrow> token_user e rq w'))"

section \<open>Login\<close>

definition getFlow :: "auth_env \<Rightarrow> auth_request \<Rightarrow> string \<Rightarrow> string" where
  "getFlow e rq name = (case map_of (ar_cookies rq) name of
      None \<Rightarrow> []
    | Some v \<Rightarrow> (case dec_string (ae_codec e) name v of None \<Rightarrow> [] | Some x \<Rightarrow> x))"

text \<open>A failing encoding leaves the empty value.\<close>

definition setFlow :: "auth_env \<Rightarrow> string \<Rightarrow> string \<Rightarrow> int \<Rightarrow> cookie" where
  "setFlow e name val now = \<lparr>ck_name = name,
     ck_value = (case enc_string (ae_codec e) name val of None \<Rightarrow> [] | Some v \<Rightarrow> v),
     ck_secure = ae_cookie_secure e, ck_max_age = None, ck_expires = Some (now + 600)\<rparr>"

definition seconds :: "world \<Rightarrow> int" where
  "seconds w = clock (w_db w) div 1000000"

definition login_error :: "nat \<Rightarrow> string \<Rightarrow> auth_response" where
  "login_error code msg = \<lparr>set_cookies = [], result = HttpError code msg\<rparr>"

definition finishLogin :: "auth_env \<Rightarrow> string \<Rightarrow> string \<Rightarrow> string \<Rightarrow> world \<Rightarrow> auth_response \<times> world" where
  "finishLogin e sub email name w =
     (let email' = ToLower (ae_lower e) (TrimSpace email) in
      case run_db (UpsertUserOnLogin sub email' name (ae_bootstrap e)) w of
        (Inl _, w1) \<Rightarrow> (login_error 500 ''login failed'', w1)
      | (Inr u, w1) \<Rightarrow>
          (case codec_write (ae_codec e)
             \<lparr>se_user = u_id u, se_email = u_email u, se_name = u_name u, se_role = u_role u\<rparr> (seconds w1) of
             None \<Rightarrow> (login_error 500 ''session write failed'', w1)
           | Some ck \<Rightarrow>
               (\<lparr>set_cookies = [ck], result = Redirect ''/''\<rparr>,
                snd (run_db (InsertAudit (u_email u) ''login'' (''user:'' @ u_email u) []) w1))))"

definition devLogin :: "auth_env \<Rightarrow> world \<Rightarrow> auth_response \<times> world" where
  "devLogin e w = finishLogin e (''dev:'' @ ae_dev_email e) (ae_dev_email e) ''Dev User'' w"

definition LoginHandler :: "auth_env \<Rightarrow> auth_request \<Rightarrow> world \<Rightarrow> auth_response \<times> world" where
  "LoginHandler e rq w =
     (if DevMode e then devLogin e w
      else (let (state, nonce) = ar_rand rq in
        (\<lparr>set_cookies = [setFlow e ''oidc_state'' state (seconds w), setFlow e ''oidc_nonce'' nonce (seconds w)],
          result = Redirect (ae_code_url e state nonce)\<rparr>, w)))"

definition CallbackHandler :: "auth_env \<Rightarrow> auth_request \<Rightarrow> world \<Rightarrow> auth_response \<times> world" where
  "CallbackHandler e rq w =
     (if DevMode e then (\<lparr>set_cookies = [], result = Redirect ''/''\<rparr>, w)
      else if getFlow e rq ''oidc_state'' = [] \<or> ar_state rq \<noteq> getFlow e rq ''oidc_state''
      then (login_error 400 ''invalid state'', w)
      else (case ae_exchange e (ar_code rq) of
          None \<Rightarrow> (login_error 502 ''token exchange failed'', w)
        | Some None \<Rightarrow> (login_error 502 ''no id_token in response'', w)
        | Some (Some rawID) \<Rightarrow>
            (case ae_verify e rawID of
               None \<Rightarrow> (login_error 401 ''id_token verification failed'', w)
             | Some (nonce, cl) \<Rightarrow>
                 if nonce \<noteq> getFlow e rq ''oidc_nonce'' then (login_error 401 ''invalid nonce'', w)
                 else (case cl of
                     None \<Rightarrow> (login_error 502 ''cannot parse claims'', w)
                   | Some c \<Rightarrow> finishLogin e (cl_sub c) (cl_email c)
                       (if cl_name c = [] then cl_preferred c else cl_name c) w))))"

definition LogoutHandler :: "auth_env \<Rightarrow> world \<Rightarrow> auth_response \<times> world" where
  "LogoutHandler e w = (\<lparr>set_cookies = [codec_clear (ae_codec e)], result = Redirect ''/''\<rparr>, w)"

section \<open>Facts\<close>

text \<open>A user who is let in has a row, and either the session names its id or the token is its own.\<close>

lemma token_user_sound:
  assumes "token_user e rq w = (Some u, w')"
  shows "\<exists>tok. bearer_token (ar_authorization rq) = Some tok \<and>
     (\<exists>x. find (\<lambda>x. t_hash x = HashAPIToken e tok) (tokens_tbl (tbl (w_db w))) = Some x \<and>
        find_user (tbl (w_db w)) (t_user x) = Some u)"
proof -
  obtain tok where tok: "bearer_token (ar_authorization rq) = Some tok"
    using assms by (cases "bearer_token (ar_authorization rq)") (auto simp: token_user_def)
  obtain r d' where run: "UserByAPIToken (HashAPIToken e tok) (w_db w) = (r, d')" by fastforce
  with assms tok have "r = Inr u" by (auto simp: token_user_def run_db_eq split: sum.splits)
  with run show ?thesis
    using tok by (auto elim!: UserByAPIToken_cases)
qed

lemma GetUser_found: "GetUser uid d = (Inr u, d') \<Longrightarrow> find_user (tbl d) uid = Some u"
  unfolding GetUser_def by (auto elim!: bind_InrE select_InrE or_not_found_InrE simp: find_user_def)

lemma GetUser_tbl: "tbl (snd (GetUser uid d)) = tbl d"
  using reads_onlyD [of "GetUser uid" d] by (metis reads_only_users(1) prod.collapse)

lemma Middleware_sound:
  assumes "Middleware e rq w = (Some u, w')"
  shows "(\<exists>s. codec_read (ae_codec e) (ar_cookies rq) = Some s \<and>
        find_user (tbl (w_db w)) (se_user s) = Some u) \<or>
     (\<exists>tok x. bearer_token (ar_authorization rq) = Some tok \<and>
        find (\<lambda>x. t_hash x = HashAPIToken e tok) (tokens_tbl (tbl (w_db w))) = Some x \<and>
        find_user (tbl (w_db w)) (t_user x) = Some u)"
proof (cases "codec_read (ae_codec e) (ar_cookies rq)")
  case None
  with assms have "token_user e rq w = (Some u, w')" by (simp add: Middleware_def)
  from token_user_sound [OF this] show ?thesis by blast
next
  case (Some s)
  obtain r d' where run: "GetUser (se_user s) (w_db w) = (r, d')" by fastforce
  show ?thesis
  proof (cases r)
    case (Inl x)
    with assms Some run have "token_user e rq (w\<lparr>w_db := d'\<rparr>) = (Some u, w')"
      by (simp add: Middleware_def run_db_eq)
    from token_user_sound [OF this] GetUser_tbl [of "se_user s" "w_db w"] run show ?thesis by simp
  next
    case (Inr v)
    with assms Some run GetUser_found [of "se_user s" "w_db w"] show ?thesis
      by (auto simp: Middleware_def run_db_eq)
  qed
qed

end
