(* ===== verification/Store_Frames.thy ===== *)
theory Store_Frames
  imports Store
begin

text \<open>
  What the operations of the store leave alone: the permissions and all that the tables hold
  for one service, seen from operations on other services or other tables.
\<close>

definition service_view :: "int \<Rightarrow> tables \<Rightarrow> service list \<times> variable list \<times> variable_version list" where
  "service_view sid t = (filter (\<lambda>s. s_id s = sid) (services_tbl t),
     filter (\<lambda>v. v_service v = sid) (variables_tbl t), filter (\<lambda>x. vv_service x = sid) (versions_tbl t))"

text \<open>The permissions together with the data of a service, as a fixed value.\<close>

definition framed :: "service_permission list \<Rightarrow> int \<Rightarrow> service list \<times> variable list \<times> variable_version list \<Rightarrow> tinv" where
  "framed ps sid c t s \<longleftrightarrow> perms_tbl t = ps \<and> service_view sid t = c"

lemma framed_mono: "seq_mono (framed ps sid c)"
  by (simp add: seq_mono_def framed_def)

lemma framed_cong:
  "perms_tbl t' = perms_tbl t \<Longrightarrow> services_tbl t' = services_tbl t \<Longrightarrow> variables_tbl t' = variables_tbl t \<Longrightarrow>
     versions_tbl t' = versions_tbl t \<Longrightarrow> framed ps sid c t s \<Longrightarrow> framed ps sid c t' s'"
  by (simp add: framed_def service_view_def)

section \<open>Other tables\<close>

lemma frame_own [pres]:
  "preserves (framed ps sid c) (AddFavorite uid a)"
  "preserves (framed ps sid c) (RemoveFavorite uid a)"
  "preserves (framed ps sid c) (CreateAPIToken uid n h)"
  "preserves (framed ps sid c) (DeleteAPIToken uid tid)"
  "preserves (framed ps sid c) (UserByAPIToken h)"
  "preserves (framed ps sid c) (InsertAudit x y z ds)"
  "preserves (framed ps sid c) (UpsertUserOnLogin sub email name b)"
proof -
  show "preserves (framed ps sid c) (AddFavorite uid a)"
    by (rule preservesI, erule AddFavorite_cases) (auto elim: framed_cong [rotated 4])
  show "preserves (framed ps sid c) (RemoveFavorite uid a)"
    by (rule preservesI, erule RemoveFavorite_cases) (auto elim: framed_cong [rotated 4])
  show "preserves (framed ps sid c) (CreateAPIToken uid n h)"
    by (rule preservesI, erule CreateAPIToken_cases) (auto elim: framed_cong [rotated 4] simp: seq_grow)
  show "preserves (framed ps sid c) (DeleteAPIToken uid tid)"
    by (rule preservesI, erule DeleteAPIToken_cases) (auto elim: framed_cong [rotated 4])
  show "preserves (framed ps sid c) (UserByAPIToken h)"
    by (rule preservesI, erule UserByAPIToken_cases) (auto elim: framed_cong [rotated 4])
  show "preserves (framed ps sid c) (InsertAudit x y z ds)"
    by (rule preservesI, erule InsertAudit_cases) (auto elim: framed_cong [rotated 4] simp: seq_grow)
  show "preserves (framed ps sid c) (UpsertUserOnLogin sub email name b)"
    by (rule preservesI, erule UpsertUserOnLogin_cases) (auto elim: framed_cong [rotated 4] simp: seq_grow)
qed

section \<open>Other services\<close>

lemma filter_put_row:
  "v_service v \<noteq> sid \<Longrightarrow> filter (\<lambda>x. v_service x = sid) (put_row v vs) = filter (\<lambda>x. v_service x = sid) vs"
proof -
  assume "v_service v \<noteq> sid"
  then have "filter (\<lambda>x. v_service x = sid) (update_where (is_var (v_service v) (v_key v)) (\<lambda>_. v) vs)
      = filter (\<lambda>x. v_service x = sid) vs"
    by (induction vs) (auto simp: is_var_def)
  with \<open>v_service v \<noteq> sid\<close> show ?thesis by (simp add: put_row_def)
qed

lemma wrote_framed:
  "wrote t s a k v ct now who x t' s' \<Longrightarrow> a \<noteq> sid \<Longrightarrow> framed ps sid c t s \<Longrightarrow> framed ps sid c t' s'"
  by (auto simp: wrote_def framed_def service_view_def filter_put_row is_var_def version_row_def)

lemma filter_other_var:
  "a \<noteq> sid \<Longrightarrow> filter (\<lambda>v. \<not> is_var a k v \<and> v_service v = sid) vs = filter (\<lambda>v. v_service v = sid) vs"
  by (rule filter_cong) (auto simp: is_var_def)

lemma removed_framed:
  "removed t s a k old now who ver t' s' \<Longrightarrow> a \<noteq> sid \<Longrightarrow> framed ps sid c t s \<Longrightarrow> framed ps sid c t' s'"
  by (auto simp: removed_def framed_def service_view_def filter_other_var version_row_def)

lemma upsert_body_framed:
  "upsert_body a k v who d = (Inr ch, d') \<Longrightarrow> a \<noteq> sid \<Longrightarrow> framed ps sid c (tbl d) (seqs d) \<Longrightarrow>
     framed ps sid c (tbl d') (seqs d')"
  by (drule upsert_body_wrote, elim conjE, rule wrote_framed)

lemma rollback_body_framed:
  "rollback_body a k n who d = (Inr ch, d') \<Longrightarrow> a \<noteq> sid \<Longrightarrow> framed ps sid c (tbl d) (seqs d) \<Longrightarrow>
     framed ps sid c (tbl d') (seqs d')"
  by (drule rollback_body_wrote, elim exE conjE, rule wrote_framed)

lemma delete_body_framed:
  "delete_body a k who d = (Inr ch, d') \<Longrightarrow> a \<noteq> sid \<Longrightarrow> framed ps sid c (tbl d) (seqs d) \<Longrightarrow>
     framed ps sid c (tbl d') (seqs d')"
  by (drule delete_body_removed, elim exE conjE, rule removed_framed)

lemma bulk_loop_framed:
  "bulk_loop a kv who out d = (Inr chs, d') \<Longrightarrow> a \<noteq> sid \<Longrightarrow> framed ps sid c (tbl d) (seqs d) \<Longrightarrow>
     framed ps sid c (tbl d') (seqs d')"
  by (induction a kv who out arbitrary: d rule: bulk_loop.induct)
    (auto elim!: bind_InrE intro: upsert_body_framed)

lemma frame_edit [pres]:
  assumes "a \<noteq> sid"
  shows "preserves (framed ps sid c) (UpsertVariable a k v who)"
    and "preserves (framed ps sid c) (BulkUpsertVariables a kvs who)"
    and "preserves (framed ps sid c) (DeleteVariable a k who)"
    and "preserves (framed ps sid c) (RollbackVariable a k n who)"
    and "preserves (framed ps sid c) (UpdateServiceTags a tags)"
proof -
  show "preserves (framed ps sid c) (UpsertVariable a k v who)"
    unfolding UpsertVariable_def
    by (rule preserves_tx_whole [OF framed_mono], auto intro: pres)
      (erule upsert_body_framed [OF _ assms], assumption)
  show "preserves (framed ps sid c) (BulkUpsertVariables a kvs who)"
    unfolding BulkUpsertVariables_def
    by (rule preserves_tx_whole [OF framed_mono], auto intro: pres)
      (erule bulk_loop_framed [OF _ assms], assumption)
  show "preserves (framed ps sid c) (DeleteVariable a k who)"
    unfolding DeleteVariable_def
    by (rule preserves_tx_whole [OF framed_mono], auto intro: pres)
      (erule delete_body_framed [OF _ assms], assumption)
  show "preserves (framed ps sid c) (RollbackVariable a k n who)"
    unfolding RollbackVariable_def
    by (rule preserves_tx_whole [OF framed_mono], auto intro: pres)
      (erule rollback_body_framed [OF _ assms], assumption)
  have "filter (\<lambda>s. s_id s = sid) (update_where (\<lambda>s. s_id s = a) (\<lambda>s. s\<lparr>s_tags := tags\<rparr>) ss)
      = filter (\<lambda>s. s_id s = sid) ss" for ss
    using assms by (induction ss) auto
  then show "preserves (framed ps sid c) (UpdateServiceTags a tags)"
    by (intro preservesI, elim UpdateServiceTags_cases) (auto simp: framed_def service_view_def)
qed

end
