(* ===== verification/Http_Server.thy ===== *)
theory Http_Server
  imports Http_Contract Auth Store_Frames
begin

text \<open>
  The root handler (\<open>Handler\<close> in \<open>internal/httpserver/server.go\<close>): the authentication middleware
  around the table of routes.
\<close>

section \<open>Routes\<close>

datatype endpoint =
    Healthz | Readyz | AuthLogin | AuthCallback | AuthLogout | Me
  | ListServicesE | CreateServiceE | GetServiceE | DeleteServiceE | ConnectionInfo | ServiceConnections
  | ListVariablesE | PutVariableE | DeleteVariableE | BulkUpsertE
  | SetTagsE | ServiceClients | AddFavoriteE | RemoveFavoriteE | SearchE
  | ListTokensE | CreateTokenE | DeleteTokenE | GetTelegramE | SetTelegramE | TestTelegramE
  | ServiceHistoryE | VariableHistoryE | RollbackE | AuditE | ExportE | ImportE
  | ListUsersE | SetUserRoleE | ListPermissionsE | SetPermissionE | RevokePermissionE
  | SSE | StaticE

text \<open>A pattern of \<open>ServeMux\<close>: a method and segments; a wildcard takes one nonempty segment.\<close>

datatype segment = Lit string | Wild string

definition routes :: "(string \<times> segment list \<times> endpoint) list" where
  "routes = (let api = (\<lambda>xs. Lit ''api'' # xs); svc = (\<lambda>xs. Lit ''api'' # Lit ''services'' # Wild ''id'' # xs);
       var = (\<lambda>xs. Lit ''api'' # Lit ''services'' # Wild ''id'' # Lit ''variables'' # Wild ''key'' # xs) in [
     (''GET'', [Lit ''healthz''], Healthz),
     (''GET'', [Lit ''readyz''], Readyz),
     (''GET'', [Lit ''auth'', Lit ''login''], AuthLogin),
     (''GET'', [Lit ''auth'', Lit ''callback''], AuthCallback),
     (''POST'', [Lit ''auth'', Lit ''logout''], AuthLogout),
     (''GET'', [Lit ''auth'', Lit ''logout''], AuthLogout),
     (''GET'', api [Lit ''me''], Me),
     (''GET'', api [Lit ''services''], ListServicesE),
     (''POST'', api [Lit ''services''], CreateServiceE),
     (''GET'', svc [], GetServiceE),
     (''DELETE'', svc [], DeleteServiceE),
     (''GET'', svc [Lit ''connection-info''], ConnectionInfo),
     (''GET'', svc [Lit ''connections''], ServiceConnections),
     (''GET'', svc [Lit ''variables''], ListVariablesE),
     (''PUT'', var [], PutVariableE),
     (''DELETE'', var [], DeleteVariableE),
     (''POST'', svc [Lit ''bulk''], BulkUpsertE),
     (''PUT'', svc [Lit ''tags''], SetTagsE),
     (''GET'', svc [Lit ''clients''], ServiceClients),
     (''POST'', svc [Lit ''favorite''], AddFavoriteE),
     (''DELETE'', svc [Lit ''favorite''], RemoveFavoriteE),
     (''GET'', api [Lit ''search''], SearchE),
     (''GET'', api [Lit ''tokens''], ListTokensE),
     (''POST'', api [Lit ''tokens''], CreateTokenE),
     (''DELETE'', api [Lit ''tokens'', Wild ''id''], DeleteTokenE),
     (''GET'', api [Lit ''settings'', Lit ''telegram''], GetTelegramE),
     (''PUT'', api [Lit ''settings'', Lit ''telegram''], SetTelegramE),
     (''POST'', api [Lit ''settings'', Lit ''telegram'', Lit ''test''], TestTelegramE),
     (''GET'', svc [Lit ''history''], ServiceHistoryE),
     (''GET'', var [Lit ''history''], VariableHistoryE),
     (''POST'', var [Lit ''rollback''], RollbackE),
     (''GET'', api [Lit ''audit''], AuditE),
     (''GET'', api [Lit ''export''], ExportE),
     (''POST'', api [Lit ''import''], ImportE),
     (''GET'', api [Lit ''users''], ListUsersE),
     (''PUT'', api [Lit ''users'', Wild ''id'', Lit ''role''], SetUserRoleE),
     (''GET'', svc [Lit ''permissions''], ListPermissionsE),
     (''PUT'', svc [Lit ''permissions''], SetPermissionE),
     (''DELETE'', svc [Lit ''permissions'', Wild ''userID''], RevokePermissionE),
     (''GET'', api [Lit ''events''], SSE)])"

fun match_path :: "segment list \<Rightarrow> string list \<Rightarrow> (string \<times> string) list option" where
  "match_path [] [] = Some []"
| "match_path (Lit s # ps) (x # xs) = (if x = s then match_path ps xs else None)"
| "match_path (Wild n # ps) (x # xs) =
     (if x = [] then None else map_option (\<lambda>vs. (n, x) # vs) (match_path ps xs))"
| "match_path _ _ = None"

text \<open>A GET pattern also takes HEAD.\<close>

definition match_method :: "string \<Rightarrow> string \<Rightarrow> bool" where
  "match_method pattern m \<longleftrightarrow> m = pattern \<or> pattern = ''GET'' \<and> m = ''HEAD''"

fun find_route :: "(string \<times> segment list \<times> endpoint) list \<Rightarrow> string \<Rightarrow> string list \<Rightarrow>
    (endpoint \<times> (string \<times> string) list) option" where
  "find_route [] m xs = None"
| "find_route ((pm, ps, e) # rs) m xs =
     (case match_path ps xs of
        None \<Rightarrow> find_route rs m xs
      | Some vs \<Rightarrow> if match_method pm m then Some (e, vs) else find_route rs m xs)"

text \<open>\<open>GET /\<close> takes every other GET; without a matching method the answer is 405.\<close>

definition route :: "string \<Rightarrow> string list \<Rightarrow> (endpoint \<times> (string \<times> string) list) option" where
  "route m xs = (case find_route routes m xs of
      Some r \<Rightarrow> Some r
    | None \<Rightarrow> if match_method ''GET'' m then Some (StaticE, []) else None)"

section \<open>Dispatch\<close>

text \<open>
  \<open>ServeMux\<close> on the escaped path of a URL: an invalid escape has been refused with the URL, an unclean path
  is redirected to its clean form (but for CONNECT), else the segments are unescaped and routed.
\<close>

datatype mux_answer = BadPath | Redirected | Routed "(endpoint \<times> (string \<times> string) list) option"

definition path_segments :: "string \<Rightarrow> string list" where
  "path_segments path = map (\<lambda>s. the (PathUnescape s)) (split_slash (drop 1 path))"

definition mux :: "string \<Rightarrow> string \<Rightarrow> mux_answer" where
  "mux m path =
     (if list_ex (\<lambda>s. PathUnescape s = None) (split_slash (drop 1 path)) then BadPath
      else if m \<noteq> ''CONNECT'' \<and> cleanPath path \<noteq> path then Redirected
      else Routed (route m (path_segments path)))"

text \<open>
  A request as it arrives; \<open>nr_url\<close> is the path in its escaped form. The live feed only shows here how it
  opens (its loop is in \<open>Http_Sse\<close>). The answer to HEAD is that to GET; the server sends it without its body.
\<close>

record net_request =
  nr_method :: string
  nr_url :: string
  nr_q :: string
  nr_body :: string
  nr_rand :: string
  nr_content :: content
  nr_auth :: auth_request

datatype net_response = Api response | Login auth_response | OpenFeed

record env =
  en_cfg :: http_cfg
  en_auth :: auth_env
  en_time :: "json \<Rightarrow> int option"

definition nr_path :: "net_request \<Rightarrow> string" where
  "nr_path nr = (case PathUnescape (nr_url nr) of None \<Rightarrow> [] | Some p \<Rightarrow> p)"

definition mux_of :: "net_request \<Rightarrow> mux_answer" where
  "mux_of nr = mux (nr_method nr) (nr_url nr)"

definition to_request :: "net_request \<Rightarrow> (string \<times> string) list \<Rightarrow> user option \<Rightarrow> http_request" where
  "to_request nr vs u = \<lparr>hr_vals = vs, hr_q = nr_q nr, hr_body = nr_body nr, hr_user = u, hr_rand = nr_rand nr,
     hr_content = nr_content nr\<rparr>"

fun api_handler :: "env \<Rightarrow> endpoint \<Rightarrow> string \<Rightarrow> http_request \<Rightarrow> response web" where
  "api_handler en Healthz path rq = handleHealthz"
| "api_handler en Readyz path rq = handleReadyz"
| "api_handler en Me path rq = handleMe (en_cfg en) rq"
| "api_handler en ListServicesE path rq = handleListServices rq"
| "api_handler en CreateServiceE path rq = handleCreateService rq"
| "api_handler en GetServiceE path rq = handleGetService rq"
| "api_handler en DeleteServiceE path rq = handleDeleteService rq"
| "api_handler en ConnectionInfo path rq = handleConnectionInfo (en_cfg en) rq"
| "api_handler en ServiceConnections path rq = handleServiceConnections rq"
| "api_handler en ListVariablesE path rq = handleListVariables rq"
| "api_handler en PutVariableE path rq = handlePutVariable rq"
| "api_handler en DeleteVariableE path rq = handleDeleteVariable rq"
| "api_handler en BulkUpsertE path rq = handleBulkUpsert rq"
| "api_handler en SetTagsE path rq = handleSetTags rq"
| "api_handler en ServiceClients path rq = handleServiceClients rq"
| "api_handler en AddFavoriteE path rq = handleAddFavorite rq"
| "api_handler en RemoveFavoriteE path rq = handleRemoveFavorite rq"
| "api_handler en SearchE path rq = handleSearch rq"
| "api_handler en ListTokensE path rq = handleListTokens rq"
| "api_handler en CreateTokenE path rq = handleCreateToken (HashAPIToken (en_auth en)) rq"
| "api_handler en DeleteTokenE path rq = handleDeleteToken rq"
| "api_handler en GetTelegramE path rq = handleGetTelegram rq"
| "api_handler en SetTelegramE path rq = handleSetTelegram rq"
| "api_handler en TestTelegramE path rq = handleTestTelegram rq"
| "api_handler en ServiceHistoryE path rq = handleServiceHistory rq"
| "api_handler en VariableHistoryE path rq = handleVariableHistory rq"
| "api_handler en RollbackE path rq = handleRollbackVariable (en_cfg en) rq"
| "api_handler en AuditE path rq = handleAudit rq"
| "api_handler en ExportE path rq = handleExport (en_cfg en) rq"
| "api_handler en ImportE path rq = handleImport (en_cfg en) (en_time en) rq"
| "api_handler en ListUsersE path rq = handleListUsers rq"
| "api_handler en SetUserRoleE path rq = handleSetUserRole rq"
| "api_handler en ListPermissionsE path rq = handleListPermissions rq"
| "api_handler en SetPermissionE path rq = handleSetPermission rq"
| "api_handler en RevokePermissionE path rq = handleRevokePermission rq"
| "api_handler en _ path rq = handleStatic (en_cfg en) path rq"

definition dispatch_request ::
  "env \<Rightarrow> net_request \<Rightarrow> endpoint \<Rightarrow> http_request \<Rightarrow> world \<Rightarrow> net_response \<times> world" where
  "dispatch_request en nr e rq w =
     (if e = AuthLogin then apfst Login (LoginHandler (en_auth en) (nr_auth nr) w)
      else if e = AuthCallback then apfst Login (CallbackHandler (en_auth en) (nr_auth nr) w)
      else if e = AuthLogout then apfst Login (LogoutHandler (en_auth en) w)
      else if e = SSE then (case requireUser rq w of
          (Inl r, w') \<Rightarrow> (Api r, w') | (Inr _, w') \<Rightarrow> (OpenFeed, w'))
      else apfst Api (run_web (api_handler en e (nr_path nr) rq) w))"

text \<open>What \<open>net/http\<close> answers itself, and nothing of the program sees a URL that is not valid.\<close>

definition bad_request :: response where
  "bad_request = writeJSON 400 (PlainBody ''400 Bad Request'')"

definition method_not_allowed :: response where
  "method_not_allowed = writeJSON 405 (PlainBody (''Method Not Allowed'' @ [newline]))"

definition moved :: "string \<Rightarrow> response" where
  "moved path = writeJSON 301 (MovedBody (cleanPath path))"

definition Handler :: "env \<Rightarrow> net_request \<Rightarrow> world \<Rightarrow> net_response \<times> world" where
  "Handler en nr w = (if mux_of nr = BadPath then (Api bad_request, w) else
     (let (u, w1) = Middleware (en_auth en) (nr_auth nr) w in
      case mux_of nr of
        Routed (Some (e, vs)) \<Rightarrow> dispatch_request en nr e (to_request nr vs u) w1
      | Routed None \<Rightarrow> (Api method_not_allowed, w1)
      | _ \<Rightarrow> (Api (moved (nr_url nr)), w1)))"

section \<open>The contract of the routes\<close>

text \<open>The endpoints that ask for no user, and those outside the API.\<close>

definition public :: "endpoint \<Rightarrow> bool" where
  "public e \<longleftrightarrow> e \<in> {Healthz, Readyz, StaticE}"

definition login_endpoint :: "endpoint \<Rightarrow> bool" where
  "login_endpoint e \<longleftrightarrow> e \<in> {AuthLogin, AuthCallback, AuthLogout}"

lemma hoare_public: "hoare Q handleHealthz (\<lambda>_. True) (\<lambda>_. True)" "hoare Q handleReadyz (\<lambda>_. True) (\<lambda>_. True)"
  "hoare Q (handleStatic cfg path rq) (\<lambda>_. True) (\<lambda>_. True)"
  unfolding handleHealthz_def handleReadyz_def handleStatic_def Let_def
  by (rule hoare_ret hoare_bind [OF hoare_call_or_True] | (auto intro: pres)[1])+

context request_contract
begin

lemmas keeps = keeps_services keeps_variables keeps_features keeps_admin keeps_import keeps_test

lemma api_keeps:
  assumes "\<not> public e" and "\<not> login_endpoint e" and "e \<noteq> SSE"
  shows "hoare Q (api_handler en e path rq) R R"
  using assms by (cases e) (simp_all add: keeps public_def login_endpoint_def)

text \<open>Every request with this context keeps the invariant, and its response is as agreed.\<close>

lemma request_keeps:
  assumes "dispatch_request en nr e rq w = (r, w')" and "\<not> login_endpoint e"
    and "Q (tbl (w_db w)) (seqs (w_db w))"
  shows "Q (tbl (w_db w')) (seqs (w_db w')) \<and> (\<forall>x. r = Api x \<longrightarrow> \<not> public e \<longrightarrow> R x) \<and>
     (r = OpenFeed \<longrightarrow> hr_user rq \<noteq> None)"
proof -
  consider (feed) "e = SSE" | (pub) "public e" | (api) "\<not> public e" "e \<noteq> SSE" by blast
  then show ?thesis
  proof cases
    case feed
    obtain r1 w1 where run: "requireUser rq w = (r1, w1)" by fastforce
    from hoareD [OF h_user run assms(3)] assms(1,2) feed run show ?thesis
      by (auto simp: dispatch_request_def login_endpoint_def split: sum.splits)
  next
    case pub
    obtain r1 w1 where run: "run_web (api_handler en e (nr_path nr) rq) w = (r1, w1)" by fastforce
    have "hoare Q (api_handler en e (nr_path nr) rq) (\<lambda>_. True) (\<lambda>_. True)"
      using pub hoare_public by (auto simp: public_def)
    from hoare_run [OF this run assms(3)] assms(1,2) pub run show ?thesis
      by (auto simp: dispatch_request_def login_endpoint_def public_def)
  next
    case api
    obtain r1 w1 where run: "run_web (api_handler en e (nr_path nr) rq) w = (r1, w1)" by fastforce
    from hoare_run [OF api_keeps [OF api(1) assms(2) api(2)] run assms(3)] assms(1,2) api run show ?thesis
      by (auto simp: dispatch_request_def login_endpoint_def)
  qed
qed

end

section \<open>The table invariant\<close>

interpretation inv: request_contract store_inv rq "\<lambda>_. True" "\<lambda>_ _. True" True for rq
  by unfold_locales (auto intro: pres)

end
