(* ===== verification/Http_Properties.thy ===== *)
theory Http_Properties
  imports Http_Server Store_Properties
begin

text \<open>
  The properties of the HTTP API: who can change a service, whose data a response may carry,
  requests without a user, services hidden from users without a permission, and the effect of
  the writing endpoints.
\<close>

section \<open>Permissions as a fixed table\<close>

lemma level_of_cong: "perms_tbl t' = perms_tbl t \<Longrightarrow> level_of t' uid sid = level_of t uid sid"
  by (simp add: level_of_def)

lemma allowed_cong:
  assumes "perms_tbl t' = perms_tbl t"
  shows "allowed t' u sid need = allowed t u sid need"
  unfolding allowed_def level_of_cong [OF assms] ..

lemma allowed_row:
  assumes "\<forall>p \<in> set (perms_tbl t). level_ok (p_level p)" and "p \<in> set (perms_tbl t)" and "p_user p = u_id u"
  shows "allowed t u (p_service p) False"
proof -
  have "find (\<lambda>q. p_user q = u_id u \<and> p_service q = p_service p) (perms_tbl t) \<noteq> None"
    using assms(2,3) by (auto simp: find_eq_None)
  then obtain q where q: "find (\<lambda>q. p_user q = u_id u \<and> p_service q = p_service p) (perms_tbl t) = Some q"
    by blast
  with assms(1) have "level_ok (p_level q)" by (auto dest: find_SomeD)
  with q show ?thesis by (auto simp: allowed_def level_of_def level_ok_def)
qed

lemma perms_kept:
  assumes "\<And>c. preserves (framed ps b c) m"
  shows "preserves (\<lambda>t _. perms_tbl t = ps) m"
proof (rule preservesI)
  fix d r d'
  assume "perms_tbl (tbl d) = ps" and run: "m d = (r, d')"
  then have "framed ps b (service_view b (tbl d)) (tbl d) (seqs d)" by (simp add: framed_def)
  from preservesD [OF assms run this] show "perms_tbl (tbl d') = ps \<and> seqs d \<le> seqs d'"
    by (simp add: framed_def)
qed

lemma reachable_levels: "reachable d \<Longrightarrow> p \<in> set (perms_tbl (tbl d)) \<Longrightarrow> level_ok (p_level p)"
  using reachable_inv by (auto simp: store_inv_def access_inv_def)

section \<open>The contract for a user\<close>

text \<open>A user without the editor level on \<open>sid\<close>: the data of \<open>sid\<close> and the permissions stay.\<close>

lemma contract_framed:
  assumes levels: "\<And>p. p \<in> set (perms_tbl t) \<Longrightarrow> level_ok (p_level p)"
    and no: "\<And>u. hr_user rq = Some u \<Longrightarrow> \<not> allowed t u sid True"
  shows "request_contract (framed (perms_tbl t) sid c) rq (\<lambda>_. True)
     (\<lambda>a need. \<exists>u. hr_user rq = Some u \<and> allowed t u a need) False"
proof (unfold_locales, goal_cases)
  case (1 u t' s a need)
  then show ?case using allowed_cong [of t' t] by (auto simp: framed_def)
next
  case (2 u t' s p)
  then show ?case using allowed_row [of t p u] levels by (auto simp: framed_def)
next
  case (3 u)
  then show ?case using no by (auto simp: allowed_def)
next
  case (5 a)
  then show ?case by (auto simp: allowed_def)
next
  case (9 u a k v who kvs n tags)
  then have "a \<noteq> sid" using no by auto
  then show ?case by (auto intro: pres)
qed (auto intro: pres)

text \<open>
  A user who is no admin: the permissions stay, and responses are confined to the services in which the
  user has a level; \<open>a\<close> is the service in the path.
\<close>

definition confined :: "tables \<Rightarrow> user option \<Rightarrow> int option \<Rightarrow> response \<Rightarrow> bool" where
  "confined t ou a r \<longleftrightarrow> r \<in> set early \<or> (\<exists>u. ou = Some u \<and>
     (\<forall>sid \<in> concerns a (rs_body r). allowed t u sid False) \<and>
     \<not> admin_body (rs_body r) \<and> token_owners (rs_body r) \<subseteq> {u_id u})"

lemma contract_confined:
  assumes levels: "\<And>p. p \<in> set (perms_tbl t) \<Longrightarrow> level_ok (p_level p)"
    and no: "\<And>u. hr_user rq = Some u \<Longrightarrow> u_role u \<noteq> RoleAdmin"
  shows "request_contract (\<lambda>t' _. perms_tbl t' = perms_tbl t) rq
     (confined t (hr_user rq) (pathInt rq ''id'')) (\<lambda>a need. \<exists>u. hr_user rq = Some u \<and> allowed t u a need) False"
proof (unfold_locales, goal_cases)
  case (1 u t' s a need)
  then show ?case using allowed_cong [of t' t] by auto
next
  case (2 u t' s p)
  then show ?case using allowed_row [of t p u] levels by auto
next
  case (3 u)
  then show ?case using no by auto
next
  case (5 a)
  then show ?case by (auto simp: allowed_def)
next
  case (8 u a n h tid x y z ds)
  show ?case by (auto intro: perms_kept pres)
next
  case (9 u a k v who kvs n tags)
  have "a \<noteq> a + 1" by simp
  then show ?case by (intro conjI perms_kept [of _ "a + 1"] frame_edit)
qed (auto simp: confined_def)

text \<open>A request without a user: nothing changes, and it is told so.\<close>

lemma contract_nobody:
  assumes "hr_user rq = None"
  shows "request_contract (\<lambda>t' s'. t' = t \<and> s' = s) rq (\<lambda>r. r \<in> set early) (\<lambda>_ _. False) False"
  by unfold_locales (simp_all add: assms)

section \<open>Middleware and login keep the frame\<close>

lemma preserves_run: "preserves Q m \<Longrightarrow> run_db m w = (r, w') \<Longrightarrow> Q (tbl (w_db w)) (seqs (w_db w)) \<Longrightarrow>
    Q (tbl (w_db w')) (seqs (w_db w'))"
  by (auto simp: run_db_eq preserves_def) (metis prod.collapse)

lemma preserves_snd: "preserves Q m \<Longrightarrow> Q (tbl d) (seqs d) \<Longrightarrow> Q (tbl (snd (m d))) (seqs (snd (m d)))"
  using preservesD [of Q m d "fst (m d)" "snd (m d)"] by simp

lemma Middleware_keeps:
  assumes Q: "\<And>h. preserves Q (UserByAPIToken h)" and run: "Middleware e rq w = (u, w')"
    and "Q (tbl (w_db w)) (seqs (w_db w))"
  shows "Q (tbl (w_db w')) (seqs (w_db w'))"
proof -
  have tok: "Q (tbl (w_db w2)) (seqs (w_db w2))"
    if "token_user e rq w1 = (x, w2)" "Q (tbl (w_db w1)) (seqs (w_db w1))" for x w1 w2
    using that preserves_run [OF Q] by (auto simp: token_user_def split: option.splits prod.splits sum.splits)
  have get: "preserves Q (GetUser uid)" for uid by (simp add: reads_only_preserves)
  show ?thesis
    using run assms(3) tok preserves_run [OF get]
    by (auto simp: Middleware_def split: option.splits prod.splits sum.splits)
qed

lemma login_keeps:
  assumes Q: "\<And>a b c d. preserves Q (UpsertUserOnLogin a b c d)" "\<And>a b c d. preserves Q (InsertAudit a b c d)"
    and run: "dispatch_request en nr e rq w = (r, w')" and "login_endpoint e"
    and "Q (tbl (w_db w)) (seqs (w_db w))"
  shows "Q (tbl (w_db w')) (seqs (w_db w'))"
proof -
  have fin: "Q (tbl (w_db w2)) (seqs (w_db w2))"
    if run: "finishLogin a b c d w1 = (x, w2)" and Q1: "Q (tbl (w_db w1)) (seqs (w_db w1))" for a b c d x w1 w2
  proof -
    obtain r3 w3 where up: "run_db (UpsertUserOnLogin b (ToLower (ae_lower a) (TrimSpace c)) d (ae_bootstrap a)) w1
        = (r3, w3)" by fastforce
    note Q3 = preserves_run [OF Q(1) up Q1]
    note Q4 = preserves_snd [OF Q(2) Q3]
    from run up Q3 Q4 show ?thesis
      by (auto simp: finishLogin_def Let_def split: option.splits sum.splits)
  qed
  show ?thesis
    using assms(3-5) fin
    by (auto simp: dispatch_request_def login_endpoint_def LoginHandler_def devLogin_def CallbackHandler_def
        LogoutHandler_def apfst_def map_prod_def split: option.splits prod.splits if_splits)
qed


section \<open>Who changes what\<close>

text \<open>The service in the path of a request, its user, and the state in which its handler starts.\<close>

definition path_service :: "net_request \<Rightarrow> int option" where
  "path_service nr = (case mux_of nr of
      Routed (Some (e, vs)) \<Rightarrow> pathInt (to_request nr vs None) ''id''
    | _ \<Rightarrow> None)"

lemma path_service_routed: "mux_of nr = Routed (Some (e, vs)) \<Longrightarrow> pathInt (to_request nr vs u) ''id'' = path_service nr"
  by (simp add: path_service_def pathInt_def PathValue_def to_request_def)

definition request_user :: "env \<Rightarrow> net_request \<Rightarrow> world \<Rightarrow> user option" where
  "request_user en nr w = fst (Middleware (en_auth en) (nr_auth nr) w)"

lemma Handler_cases:
  assumes "Handler en nr w = (resp, w')"
  obtains (unrouted) r where "\<And>e vs. mux_of nr \<noteq> Routed (Some (e, vs))" and "resp = Api r"
      and "r \<in> {bad_request, method_not_allowed, moved (nr_url nr)}"
      and "w' = w \<or> Middleware (en_auth en) (nr_auth nr) w = (request_user en nr w, w')"
  | (routed) e vs w1 where "mux_of nr = Routed (Some (e, vs))"
      and "Middleware (en_auth en) (nr_auth nr) w = (request_user en nr w, w1)"
      and "dispatch_request en nr e (to_request nr vs (request_user en nr w)) w1 = (resp, w')"
  using assms
  by (cases "Middleware (en_auth en) (nr_auth nr) w")
    (auto simp: Handler_def request_user_def split: option.splits if_splits mux_answer.splits)

lemma to_request_user [simp]: "hr_user (to_request nr vs u) = u"
  by (simp add: to_request_def)

text \<open>A contract for the user of the request holds from the middleware to the response.\<close>

lemma Handler_keeps:
  assumes run: "Handler en nr w = (resp, w')" and start: "Q (tbl (w_db w)) (seqs (w_db w))"
    and ops: "\<And>h. preserves Q (UserByAPIToken h)" "\<And>a b c d. preserves Q (UpsertUserOnLogin a b c d)"
      "\<And>a b c d. preserves Q (InsertAudit a b c d)"
    and contract: "\<forall>e vs. mux_of nr = Routed (Some (e, vs)) \<longrightarrow>
      request_contract Q (to_request nr vs (request_user en nr w)) R may adm"
  shows "Q (tbl (w_db w')) (seqs (w_db w'))"
    and "mux_of nr = Routed (Some (e, vs)) \<Longrightarrow> \<not> public e \<Longrightarrow> resp = Api x \<Longrightarrow> R x"
    and "resp = OpenFeed \<Longrightarrow> request_user en nr w \<noteq> None"
proof -
  have "Q (tbl (w_db w')) (seqs (w_db w')) \<and>
    (\<forall>e vs x. mux_of nr = Routed (Some (e, vs)) \<longrightarrow> \<not> public e \<longrightarrow> resp = Api x \<longrightarrow> R x) \<and>
    (resp = OpenFeed \<longrightarrow> request_user en nr w \<noteq> None)"
    using run
  proof (cases rule: Handler_cases)
    case unrouted
    have "Q (tbl (w_db w')) (seqs (w_db w'))"
      using unrouted(4) start Middleware_keeps [of Q, OF ops(1) _ start] by blast
    with unrouted show ?thesis by simp
  next
    case (routed e vs w1)
    note Q1 = Middleware_keeps [of Q, OF ops(1) routed(2) start]
    show ?thesis
    proof (cases "login_endpoint e")
      case True
      have "resp \<noteq> Api x" "resp \<noteq> OpenFeed" for x
        using routed(3) True
        by (auto simp: dispatch_request_def login_endpoint_def apfst_def map_prod_def split: prod.splits)
      with login_keeps [of Q, OF ops(2,3) routed(3) True Q1] show ?thesis by simp
    next
      case False
      from request_contract.request_keeps [OF contract [rule_format, OF routed(1)] routed(3) False Q1] routed(1) show ?thesis by simp
    qed
  qed
  then show "Q (tbl (w_db w')) (seqs (w_db w'))"
    and "mux_of nr = Routed (Some (e, vs)) \<Longrightarrow> \<not> public e \<Longrightarrow> resp = Api x \<Longrightarrow> R x"
    and "resp = OpenFeed \<Longrightarrow> request_user en nr w \<noteq> None" by blast+
qed

lemma Handler_framed:
  assumes "reachable (w_db w)" and run: "Handler en nr w = (resp, w')"
    and no: "\<And>u. request_user en nr w = Some u \<Longrightarrow> \<not> allowed (tbl (w_db w)) u sid True"
  shows "service_view sid (tbl (w_db w')) = service_view sid (tbl (w_db w))"
proof -
  let ?F = "framed (perms_tbl (tbl (w_db w))) sid (service_view sid (tbl (w_db w)))"
  have start: "?F (tbl (w_db w)) (seqs (w_db w))" by (simp add: framed_def)
  have contract: "request_contract ?F (to_request nr vs (request_user en nr w)) (\<lambda>_. True)
       (\<lambda>a need. \<exists>u. request_user en nr w = Some u \<and> allowed (tbl (w_db w)) u a need) False" for vs
    using contract_framed [of "tbl (w_db w)" "to_request nr vs (request_user en nr w)" sid] no
      reachable_levels [OF assms(1)] by simp
  have "?F (tbl (w_db w')) (seqs (w_db w'))"
    by (rule Handler_keeps(1) [where Q = ?F, OF run start frame_own(5,7,6)]) (use contract in blast)
  then show ?thesis by (simp add: framed_def)
qed

lemma Handler_confined:
  assumes "reachable (w_db w)" and run: "Handler en nr w = (resp, w')"
    and no: "\<And>u. request_user en nr w = Some u \<Longrightarrow> u_role u \<noteq> RoleAdmin"
  shows "perms_tbl (tbl (w_db w')) = perms_tbl (tbl (w_db w))"
    and "mux_of nr = Routed (Some (e, vs)) \<Longrightarrow> \<not> public e \<Longrightarrow> resp = Api r \<Longrightarrow>
      confined (tbl (w_db w)) (request_user en nr w) (path_service nr) r"
proof -
  let ?Q = "\<lambda>t' _. perms_tbl t' = perms_tbl (tbl (w_db w))"
  have ops: "preserves ?Q (UserByAPIToken h)" "preserves ?Q (UpsertUserOnLogin i j k l)"
    "preserves ?Q (InsertAudit i j k ds)" for h i j k l ds
    by (auto intro: perms_kept [of _ 0] pres)
  let ?contract = "\<lambda>vs. request_contract ?Q (to_request nr vs (request_user en nr w))
       (confined (tbl (w_db w)) (request_user en nr w) (path_service nr))
       (\<lambda>a need. \<exists>u. request_user en nr w = Some u \<and> allowed (tbl (w_db w)) u a need) False"
  have contracts: "\<forall>e vs. mux_of nr = Routed (Some (e, vs)) \<longrightarrow> ?contract vs"
  proof (intro allI impI)
    fix e vs assume "mux_of nr = Routed (Some (e, vs))"
    note here = path_service_routed [OF this, of "request_user en nr w"]
    from contract_confined [of "tbl (w_db w)" "to_request nr vs (request_user en nr w)"] no reachable_levels [OF assms(1)]
    show "?contract vs" by (simp add: here)
  qed
  note keeps = Handler_keeps [where Q = ?Q, OF run refl ops contracts]
  from keeps(1) show "perms_tbl (tbl (w_db w')) = perms_tbl (tbl (w_db w))" .
  assume "mux_of nr = Routed (Some (e, vs))" and "\<not> public e" and "resp = Api r"
  from keeps(2) [OF this] show "confined (tbl (w_db w)) (request_user en nr w) (path_service nr) r" .
qed

text \<open>The bodies that carry no data.\<close>

definition quiet :: "payload \<Rightarrow> bool" where
  "quiet b \<longleftrightarrow> (\<forall>a. concerns a b = {}) \<and> \<not> admin_body b \<and> token_owners b = {}"

lemma quiet_early: "r \<in> set early \<Longrightarrow> quiet (rs_body r)"
  by (auto simp: early_def quiet_def unauthenticated_def bad_id_def writeErr_def writeJSON_def)

lemma quiet_files: "quiet (rs_body (ServeFileFS cfg cont p))" "quiet (rs_body (FileServerFS cfg cont p))"
proof -
  show "quiet (rs_body (ServeFileFS cfg cont p))" for p
    by (cases cont) (simp_all add: ServeFileFS_def quiet_def writeJSON_def)
  then show "quiet (rs_body (FileServerFS cfg cont p))" by (simp add: FileServerFS_def) (simp add: quiet_def writeJSON_def)
qed

lemma quiet_public:
  assumes "public e" and "dispatch_request en nr e rq w = (Api r, w')"
  shows "quiet (rs_body r)"
proof -
  let ?R = "\<lambda>r. quiet (rs_body r)"
  have "hoare (\<lambda>_ _. True) handleHealthz ?R ?R" "hoare (\<lambda>_ _. True) handleReadyz ?R ?R"
    unfolding handleHealthz_def handleReadyz_def Let_def
    by (rule hoare_ret hoare_bind [OF hoare_call_or_True]
      | (auto simp: quiet_def writeJSON_def writeErr_def intro: pres)[1])+
  moreover have "hoare (\<lambda>_ _. True) (handleStatic (en_cfg en) (nr_path nr) rq) ?R ?R"
    unfolding handleStatic_def Let_def by (rule hoare_ret) (simp add: quiet_files)
  ultimately have h: "hoare (\<lambda>_ _. True) (api_handler en e (nr_path nr) rq) ?R ?R"
    using assms(1) by (auto simp: public_def)
  obtain r1 w1 where run: "run_web (api_handler en e (nr_path nr) rq) w = (r1, w1)" by fastforce
  with assms have "r1 = r" by (auto simp: dispatch_request_def public_def)
  with hoare_run [OF h run] show ?thesis by simp
qed

lemma Handler_quiet:
  assumes "Handler en nr w = (Api r, w')"
    and "\<And>e vs. mux_of nr = Routed (Some (e, vs)) \<Longrightarrow> public e"
  shows "quiet (rs_body r)"
  using assms(1)
proof (cases rule: Handler_cases)
  case unrouted
  then show ?thesis
    by (auto simp: quiet_def writeJSON_def bad_request_def method_not_allowed_def moved_def)
next
  case (routed e vs w1)
  from quiet_public [OF assms(2) [OF routed(1)] routed(3)] show ?thesis .
qed

text \<open>
  A small installation for the witnesses: one service, the admin ann (id 1) and the user bob
  (id 2) with the editor level; the session cookie of a user is its id.
\<close>

definition demo_codec :: codec where
  "demo_codec = \<lparr>enc_session = (\<lambda>_ s. Some (FormatInt (se_user s))),
     dec_session = (\<lambda>_ v. map_option (\<lambda>n. \<lparr>se_user = n, se_email = [], se_name = [], se_role = []\<rparr>) (ParseInt v)),
     enc_string = (\<lambda>n v. Some (n @ v)), dec_string = (\<lambda>n v. if has_prefix n v then Some (drop (length n) v) else None),
     cd_secure = False\<rparr>"

definition demo_env :: env where
  "demo_env = \<lparr>en_cfg = \<lparr>hc_contour = ''local'', hc_grpc_addr = '':9090'', hc_error_text = (\<lambda>_. ''error''),
       hc_json_error = (\<lambda>_. ''bad''), hc_quote = (\<lambda>s. s), hc_file = (\<lambda>_. False), hc_dir = (\<lambda>_. False)\<rparr>,
     en_auth = \<lparr>ae_codec = demo_codec, ae_sha256 = (\<lambda>s. s), ae_dev_email = [], ae_bootstrap = ''ann@x'',
       ae_cookie_secure = False, ae_lower = (\<lambda>s. s), ae_code_url = (\<lambda>s n. s @ n),
       ae_exchange = (\<lambda>c. Some (Some c)), ae_verify = (\<lambda>i. Some (i, None))\<rparr>,
     en_time = (\<lambda>_. Some 0)\<rparr>"

definition office_db :: db where
  "office_db = run_ops [OpCreateService ''svc'' ''Service'' '''' ''ann@x'',
     OpUpsertUserOnLogin ''s1'' ''ann@x'' ''Ann'' ''ann@x'', OpUpsertUserOnLogin ''s2'' ''bob@x'' ''Bob'' ''ann@x'',
     OpSetPermission 2 1 ''editor''] (init_db (\<lambda>_ _. True) (\<lambda>_ _. True))"

definition office :: world where
  "office = \<lparr>w_db = office_db, contour = ''local'', started = False, tg_cur = zero_settings,
     tg_bot = None, outbox = [], tg_api = (\<lambda>_. Answer 200 []), tg_url_error = (\<lambda>u. u)\<rparr>"

definition request_of :: "string \<Rightarrow> string \<Rightarrow> string list \<Rightarrow> string \<Rightarrow> net_request" where
  "request_of who m path body = \<lparr>nr_method = m, nr_url = join_path path, nr_q = [], nr_body = body,
     nr_rand = [], nr_content = Whole, nr_auth = \<lparr>ar_cookies = [(sessionCookie, who)], ar_authorization = [], ar_state = [],
       ar_code = [], ar_rand = ([], [])\<rparr>\<rparr>"

definition bob_put :: net_request where
  "bob_put = request_of ''2'' ''PUT'' [''api'', ''services'', ''1'', ''variables'', ''k'']
     (''{'' @ [quote] @ ''value'' @ [quote] @ '':'' @ [quote] @ ''v'' @ [quote] @ ''}'')"

lemma reachable_office: "reachable (w_db office)"
  unfolding office_def office_db_def by (simp add: reachable_run_ops reachable.init)

text \<open>C8. Whatever the request: if it changes the data of a service (its row, its variables, its
  history), then it came from an authenticated user who is an admin or has the editor level on
  that service; and if it changes any permission, from an admin.\<close>

theorem only_editors_change_services:
  assumes "reachable (w_db w)" and "Handler en nr w = (resp, w')"
  shows "(service_view sid (tbl (w_db w')) \<noteq> service_view sid (tbl (w_db w)) \<longrightarrow>
      (\<exists>u. request_user en nr w = Some u \<and> allowed (tbl (w_db w)) u sid True)) \<and>
    (perms_tbl (tbl (w_db w')) \<noteq> perms_tbl (tbl (w_db w)) \<longrightarrow>
      (\<exists>u. request_user en nr w = Some u \<and> u_role u = RoleAdmin))"
  using Handler_framed [OF assms] Handler_confined(1) [OF assms] by blast

theorem only_editors_change_services_witness:
  "\<exists>u. request_user demo_env bob_put office = Some u \<and> allowed (tbl (w_db office)) u 1 True"
proof -
  have "service_view 1 (tbl (w_db (snd (Handler demo_env bob_put office)))) \<noteq> service_view 1 (tbl (w_db office))"
    by code_simp
  with only_editors_change_services [OF reachable_office prod.collapse [symmetric], where en = demo_env and nr = bob_put and sid = 1]
  show ?thesis by blast
qed

text \<open>C9. A user who is no admin gets no data of services without a permission: every row in a
  response, the connection details and the number of connections are of a service on which the user has a
  level, no response of the admin pages comes, and the listed tokens are the user's own. This is about the
  responses of the API; the live feed of server-sent events is no response, and sends its events to every user.\<close>

theorem responses_are_confined:
  assumes "reachable (w_db w)" and "Handler en nr w = (Api r, w')"
    and "\<forall>u. request_user en nr w = Some u \<longrightarrow> u_role u \<noteq> RoleAdmin"
    and "sid \<in> concerns (path_service nr) (rs_body r) \<or> admin_body (rs_body r) \<or> uid \<in> token_owners (rs_body r)"
  shows "\<exists>u. request_user en nr w = Some u \<and> \<not> admin_body (rs_body r) \<and>
    (sid \<in> concerns (path_service nr) (rs_body r) \<longrightarrow> allowed (tbl (w_db w)) u sid False) \<and>
    (uid \<in> token_owners (rs_body r) \<longrightarrow> u_id u = uid)"
proof (cases "\<exists>e vs. mux_of nr = Routed (Some (e, vs)) \<and> \<not> public e")
  case True
  then obtain e vs where "mux_of nr = Routed (Some (e, vs))" "\<not> public e" by blast
  from Handler_confined(2) [OF assms(1,2) _ this refl] assms(3,4) quiet_early [of r]
  show ?thesis by (auto simp: quiet_def confined_def)
next
  case False
  with Handler_quiet [OF assms(2)] assms(4) show ?thesis by (auto simp: quiet_def)
qed

definition bob_list :: net_request where
  "bob_list = request_of ''2'' ''GET'' [''api'', ''services''] []"

theorem responses_are_confined_witness:
  "\<exists>u. request_user demo_env bob_list office = Some u \<and> allowed (tbl (w_db office)) u 1 False"
proof -
  have "case Handler demo_env bob_list office of (Api r, w') \<Rightarrow> 1 \<in> concerns (path_service bob_list) (rs_body r) | _ \<Rightarrow> False"
    and "case request_user demo_env bob_list office of None \<Rightarrow> False | Some u \<Rightarrow> u_role u \<noteq> RoleAdmin"
    by code_simp+
  then obtain r w' where "Handler demo_env bob_list office = (Api r, w')" and "1 \<in> concerns (path_service bob_list) (rs_body r)"
    and "\<forall>u. request_user demo_env bob_list office = Some u \<longrightarrow> u_role u \<noteq> RoleAdmin"
    by (auto split: prod.splits net_response.splits option.splits)
  with responses_are_confined [OF reachable_office, where en = demo_env and nr = bob_list and sid = 1]
  show ?thesis by blast
qed

lemma dispatch_no_login:
  "dispatch_request en nr e rq w = (Login a, w') \<Longrightarrow> login_endpoint e"
proof (rule ccontr)
  assume run: "dispatch_request en nr e rq w = (Login a, w')" and no: "\<not> login_endpoint e"
  show False
  proof (cases "e = SSE")
    case True
    with run show False by (auto simp: dispatch_request_def split: prod.splits sum.splits)
  next
    case False
    with run no show False
      by (cases "run_web (api_handler en e (nr_path nr) rq) w")
        (auto simp: dispatch_request_def login_endpoint_def)
  qed
qed

text \<open>The time of the last use of a token.\<close>

definition used_token :: "string \<Rightarrow> int \<Rightarrow> tables \<Rightarrow> tables" where
  "used_token h now t = t\<lparr>tokens_tbl := update_where (\<lambda>x. t_hash x = h) (\<lambda>y. y\<lparr>t_last_used := Some now\<rparr>) (tokens_tbl t)\<rparr>"

lemma token_of_nobody:
  assumes "token_user e rq w = (None, w')"
    and "\<forall>x \<in> set (tokens_tbl (tbl (w_db w))). user_exists (tbl (w_db w)) (t_user x)"
  shows "tbl (w_db w') = tbl (w_db w) \<or> faults (w_db w) \<noteq> [] \<and>
    (\<exists>tok now. bearer_token (ar_authorization rq) = Some tok \<and>
       tbl (w_db w') = used_token (HashAPIToken e tok) now (tbl (w_db w)))"
proof (cases "bearer_token (ar_authorization rq)")
  case None
  with assms(1) show ?thesis by (simp add: token_user_def)
next
  case (Some tok)
  let ?h = "HashAPIToken e tok" and ?d = "w_db w"
  obtain r d' where run: "UserByAPIToken ?h ?d = (r, d')" by fastforce
  with assms(1) Some have r: "\<exists>x. r = Inl x" and w': "w_db w' = d'"
    by (auto simp: token_user_def run_db_eq split: sum.splits)
  have known: "\<exists>u. find_user (tbl ?d) (t_user x) = Some u"
    if "find (\<lambda>x. t_hash x = ?h) (tokens_tbl (tbl ?d)) = Some x" for x
    using assms(2) find_SomeD [OF that] by (auto simp: user_exists_def)
  have "tbl d' = tbl ?d" if "faults ?d = []"
    using run r that known
    by (auto simp: UserByAPIToken_def touch_token_def GetUser_def run_simps or_not_found_def find_eq_None
        find_user_def with_tbl_def update_where_idle split: option.splits)
  with run r show ?thesis
    by (cases rule: UserByAPIToken_cases) (auto simp: w' Some used_token_def)
qed

lemma Middleware_nobody:
  assumes "Middleware e rq w = (None, w')" and "reachable (w_db w)"
  shows "tbl (w_db w') = tbl (w_db w) \<or> faults (w_db w) \<noteq> [] \<and>
    (\<exists>tok now. bearer_token (ar_authorization rq) = Some tok \<and>
       tbl (w_db w') = used_token (HashAPIToken e tok) now (tbl (w_db w)))"
proof -
  have owned: "\<forall>x \<in> set (tokens_tbl (tbl (w_db w))). user_exists (tbl (w_db w)) (t_user x)"
    using reachable_inv [OF assms(2)] by (simp add: store_inv_def access_inv_def)
  show ?thesis
  proof (cases "codec_read (ae_codec e) (ar_cookies rq)")
    case None
    with assms(1) token_of_nobody owned show ?thesis by (simp add: Middleware_def)
  next
    case (Some s)
    obtain r d' where run: "GetUser (se_user s) (w_db w) = (r, d')" by fastforce
    with Some assms(1) have tok: "token_user e rq (w\<lparr>w_db := d'\<rparr>) = (None, w')"
      by (auto simp: Middleware_def run_db_eq split: sum.splits)
    have kept: "tbl d' = tbl (w_db w)" using GetUser_tbl [of "se_user s" "w_db w"] run by simp
    have "faults d' \<noteq> [] \<Longrightarrow> faults (w_db w) \<noteq> []"
      using run by (auto simp: GetUser_def run_simps or_not_found_def split: option.splits)
    moreover from token_of_nobody [OF tok] owned have "tbl (w_db w') = tbl (w_db w) \<or> faults d' \<noteq> [] \<and>
        (\<exists>tok now. bearer_token (ar_authorization rq) = Some tok \<and>
           tbl (w_db w') = used_token (HashAPIToken e tok) now (tbl (w_db w)))" by (simp add: kept)
    ultimately show ?thesis by blast
  qed
qed

text \<open>C10. A request without a valid session or token, to any endpoint but health checks, static files
  and login, is answered with 400 or 401, carries no data and changes no table. Only if the database fails,
  between the two statements that look up the token of the request, the time of its last use is set.\<close>

theorem no_user_no_effect:
  assumes "reachable (w_db w)" and "request_user en nr w = None" and "Handler en nr w = (resp, w')"
    and "mux_of nr = Routed (Some (e, vs))" and "\<not> public e" and "\<not> login_endpoint e"
  shows "\<exists>r. resp = Api r \<and> rs_status r \<in> {400, 401} \<and> quiet (rs_body r) \<and>
     (tbl (w_db w') = tbl (w_db w) \<or> faults (w_db w) \<noteq> [] \<and>
       (\<exists>tok now. bearer_token (ar_authorization (nr_auth nr)) = Some tok \<and>
          tbl (w_db w') = used_token (HashAPIToken (en_auth en) tok) now (tbl (w_db w))))"
  using assms(3)
proof (cases rule: Handler_cases)
  case unrouted
  with assms(4) show ?thesis by blast
next
  case (routed e' vs' w1)
  with assms(4) have e: "e' = e" by simp
  let ?rq = "to_request nr vs' (request_user en nr w)"
  from contract_nobody [of ?rq "tbl (w_db w1)" "seqs (w_db w1)"] assms(2)
  have "request_contract (\<lambda>t' s'. t' = tbl (w_db w1) \<and> s' = seqs (w_db w1)) ?rq
     (\<lambda>r. r \<in> set early) (\<lambda>_ _. False) False" by simp
  from request_contract.request_keeps [OF this routed(3)] assms(2,5,6) e
  have T: "tbl (w_db w') = tbl (w_db w1)" and R: "\<And>x. resp = Api x \<Longrightarrow> x \<in> set early" and "resp \<noteq> OpenFeed"
    by auto
  moreover have "resp \<noteq> Login a" for a
    using routed(3) assms(6) e dispatch_no_login by blast
  ultimately obtain r where r: "resp = Api r" "r \<in> set early" by (cases resp) auto
  then have "rs_status r \<in> {400, 401}"
    by (auto simp: early_def unauthenticated_def bad_id_def writeErr_def writeJSON_def)
  with r T quiet_early Middleware_nobody [OF _ assms(1)] routed(2) assms(2) show ?thesis by simp
qed

definition nobody_put :: net_request where
  "nobody_put = request_of ''x'' ''PUT'' [''api'', ''services'', ''1'', ''variables'', ''k''] []"

lemma nobody_put_target: "mux_of nobody_put = Routed (Some (PutVariableE, [(''id'', ''1''), (''key'', ''k'')]))"
  by code_simp

theorem no_user_no_effect_witness:
  "tbl (w_db (snd (Handler demo_env nobody_put office))) = tbl (w_db office)"
proof -
  have "request_user demo_env nobody_put office = None" and "faults (w_db office) = []" by code_simp+
  with no_user_no_effect [OF reachable_office this(1) prod.collapse [symmetric] nobody_put_target] show ?thesis
    by (auto simp: public_def login_endpoint_def)
qed

section \<open>Hidden services\<close>

text \<open>The endpoints of one service that any level may use, or need the editor level.\<close>

definition service_endpoint :: "endpoint \<Rightarrow> bool" where
  "service_endpoint e \<longleftrightarrow> e \<in> {GetServiceE, ConnectionInfo, ServiceConnections, ListVariablesE, PutVariableE,
     DeleteVariableE, BulkUpsertE, SetTagsE, ServiceClients, AddFavoriteE, ServiceHistoryE, VariableHistoryE,
     RollbackE}"

lemma authorize_denied:
  assumes "hr_user rq = Some u" and "u_role u \<noteq> RoleAdmin" and "level_of (tbl (w_db w)) (u_id u) sid = None"
  shows "\<exists>r w'. authorizeService rq sid need w = (Inl r, w') \<and> tbl (w_db w') = tbl (w_db w) \<and>
     (r = no_service \<or> r = internal_error \<and> faults (w_db w) \<noteq> [])"
proof -
  obtain x d' where run: "GetPermissionLevel (u_id u) sid (w_db w) = (x, d')" by fastforce
  have T: "tbl d' = tbl (w_db w)" by (rule reads_onlyD [of "GetPermissionLevel (u_id u) sid", OF _ run]) simp
  have level: "effectiveLevel u sid w = (Inr (case x of
      Inl e \<Rightarrow> if e = ErrNotFound then Inr [] else Inl e | Inr l \<Rightarrow> Inr l), w\<lparr>w_db := d'\<rparr>)"
    using assms(2) run by (simp add: effectiveLevel_def wbind_def call_def run_db_eq wret_def)
  have user: "requireUser rq w = (Inr u, w)"
    using assms(1) by (simp add: requireUser_def or_respond_def wret_def)
  from run show ?thesis
  proof (cases rule: GetPermissionLevel_cases)
    case fault
    have "faults (w_db w) \<noteq> []"
    proof
      assume "faults (w_db w) = []"
      with run fault show False
        by (auto simp: GetPermissionLevel_def run_simps or_not_found_def split: option.splits)
    qed
    with fault T level user show ?thesis
      by (auto simp: authorizeService_def wbind_def respond_def)
  next
    case missing
    with T level user assms(2) show ?thesis
      by (auto simp: authorizeService_def wbind_def respond_def decideServiceAccess_def)
  next
    case (found l)
    with assms(3) show ?thesis by simp
  qed
qed

text \<open>C11. To a user without a permission a service looks like one that does not exist: every
  endpoint of the service answers "service not found", whether the service exists or not and
  whatever the body says (500 if the database fails), and nothing changes.\<close>

theorem services_are_hidden:
  assumes "hr_user rq = Some u" and "u_role u \<noteq> RoleAdmin"
    and "pathInt rq ''id'' = Some sid" and "level_of (tbl (w_db w)) (u_id u) sid = None"
    and "service_endpoint e" and "e = PutVariableE \<longrightarrow> keyRe (PathValue rq ''key'')"
    and "run_web (api_handler en e path rq) w = (r, w')"
  shows "(r = no_service \<or> r = internal_error \<and> faults (w_db w) \<noteq> []) \<and> tbl (w_db w') = tbl (w_db w)"
proof -
  have "run_web (api_handler en e path rq) w = (r0, w0)"
    if "\<And>need. authorizeService rq sid need w = (Inl (r1 need), w1 need)"
      "r0 = r1 (e \<in> {PutVariableE, DeleteVariableE, BulkUpsertE, SetTagsE, RollbackE})"
      "w0 = w1 (e \<in> {PutVariableE, DeleteVariableE, BulkUpsertE, SetTagsE, RollbackE})" for r0 w0 r1 w1
    using assms(3,5,6) that
    unfolding service_endpoint_def
    by (auto simp: run_web_def wbind_def or_respond_def wret_def Let_def handleGetService_def
        handleConnectionInfo_def handleServiceConnections_def handleListVariables_def handlePutVariable_def
        handleDeleteVariable_def handleBulkUpsert_def handleSetTags_def handleServiceClients_def
        handleAddFavorite_def handleServiceHistory_def handleVariableHistory_def handleRollbackVariable_def)
  with authorize_denied [OF assms(1,2,4)] assms(7) show ?thesis by (metis prod.inject)
qed

theorem services_are_hidden_witness:
  "fst (run_web (api_handler demo_env ListVariablesE [] \<lparr>hr_vals = [(''id'', ''7'')], hr_q = [], hr_body = [],
     hr_user = Some \<lparr>u_id = 2, u_subject = [], u_email = [], u_name = [], u_role = RoleUser, u_created = 0\<rparr>,
     hr_rand = [], hr_content = Whole\<rparr>) office) = no_service"
proof -
  have p: "pathInt \<lparr>hr_vals = [(''id'', ''7'')], hr_q = [], hr_body = [],
     hr_user = Some \<lparr>u_id = 2, u_subject = [], u_email = [], u_name = [], u_role = RoleUser, u_created = 0\<rparr>,
     hr_rand = [], hr_content = Whole\<rparr> ''id'' = Some 7" and "level_of (tbl (w_db office)) 2 7 = None" and "faults (w_db office) = []"
    by code_simp+
  with services_are_hidden [OF _ _ p(1) _ _ _ prod.collapse [symmetric], of _ office ListVariablesE demo_env "[]"]
  show ?thesis by (simp add: service_endpoint_def)
qed

end
