(* ===== verification/Http_Writes.thy ===== *)
theory Http_Writes
  imports Http_Properties
begin

text \<open>
  The writing endpoints of one variable against the specification of the version log: a
  success status means that the log grew by the requested command, any other status that
  nothing was written; and what is announced after a write.
\<close>

section \<open>Runs\<close>

lemma rs_simps [simp]: "rs_body (writeJSON n b) = b" "rs_body no_content = NoBody" "rs_status (writeJSON n b) = n"
  by (simp_all add: writeJSON_def no_content_def)

definition success :: "response \<Rightarrow> bool" where
  "success r \<longleftrightarrow> rs_status r \<in> {200, 201, 204}"

lemma success_simps [simp]:
  "success (writeErr n s) \<longleftrightarrow> n \<in> {200, 201, 204}" "success (writeJSON n b) \<longleftrightarrow> n \<in> {200, 201, 204}"
  "success no_content" "\<not> success internal_error" "\<not> success bad_id" "\<not> success unauthenticated"
  "\<not> success no_service"
  by (simp_all add: success_def writeErr_def writeJSON_def no_content_def internal_error_def bad_id_def
      unauthenticated_def no_service_def)

lemma authorize_calm:
  assumes "faults (w_db w) = []" and "authorizeService rq sid need w = (r, w')"
  shows "w' = w"
proof -
  have "GetPermissionLevel a b (w_db w) = (x, d') \<Longrightarrow> d' = w_db w" for a b x d'
    using assms(1) by (auto simp: GetPermissionLevel_def run_simps or_not_found_def split: option.splits)
  then have "effectiveLevel u sid w = (x, w1) \<Longrightarrow> w1 = w" for u x w1
    by (cases "GetPermissionLevel (u_id u) sid (w_db w)")
      (auto simp: effectiveLevel_def wbind_def call_run wret_def split: if_splits)
  then show ?thesis
    using assms(2) unfolding authorizeService_def requireUser_def
    by (auto simp: respond_def wret_def split: sum.splits prod.splits if_splits elim!: wbindE or_respondE)
qed

lemma authorizeE:
  assumes run: "authorizeService rq sid need w = (r, w')"
  obtains (denied) x where "r = Inl x" and "\<not> success x" and "tbl (w_db w') = tbl (w_db w)"
  | (ok) u l where "r = Inr (u, l)" and "hr_user rq = Some u" and "allowed (tbl (w_db w)) u sid need"
      and "tbl (w_db w') = tbl (w_db w)" and "faults (w_db w) = [] \<longrightarrow> w' = w"
proof -
  let ?ok = "\<exists>u. hr_user rq = Some u \<and> allowed (tbl (w_db w)) u sid need"
  have "hoare (\<lambda>t _. t = tbl (w_db w)) (authorizeService rq sid need)
     (\<lambda>(u, l). hr_user rq = Some u \<and> ?ok) (\<lambda>x. \<not> success x)"
    by (rule hoare_authorizeService) (auto simp: denied_def)
  from hoareD [OF this run] authorize_calm [OF _ run] that show ?thesis by (cases r) auto
qed

section \<open>What follows a write\<close>

text \<open>The tables of the services, their variables and their history.\<close>

definition data_of :: "tables \<Rightarrow> service list \<times> variable list \<times> variable_version list" where
  "data_of t = (services_tbl t, variables_tbl t, versions_tbl t)"

lemma data_log: "data_of t' = data_of t \<Longrightarrow> service_log t' sid = service_log t sid"
  by (simp add: data_of_def service_log_def)

definition announce :: "int \<Rightarrow> string \<Rightarrow> variable \<Rightarrow> string \<Rightarrow> string \<Rightarrow> (service option \<Rightarrow> string) \<Rightarrow>
    (string \<times> detail) list \<Rightarrow> response \<Rightarrow> response web" where
  "announce sid ct v actor action target ds r =
     wbind (lookup_service sid) (\<lambda>svc. wbind (publishVar svc ct v) (\<lambda>_.
     wbind (record_action actor action (target svc) ds) (\<lambda>_. wret r)))"

lemma announceE:
  assumes "announce sid ct v actor action target ds x w = (r, w')"
  shows "r = Inr x \<and> data_of (tbl (w_db w')) = data_of (tbl (w_db w))"
proof -
  have "preserves (\<lambda>t _. data_of t = data_of (tbl (w_db w))) (InsertAudit a b c e)" for a b c e
    by (rule preservesI, erule InsertAudit_cases) (auto simp: data_of_def seq_grow)
  then have "hoare (\<lambda>t _. data_of t = data_of (tbl (w_db w))) (announce sid ct v actor action target ds x)
     (\<lambda>y. y = x) (\<lambda>_. False)"
    unfolding announce_def
    by (intro hoare_bind [OF hoare_lookup_service] hoare_bind [OF hoare_publishVar]
        hoare_bind [OF hoare_record] hoare_ret) simp_all
  from hoareD [OF this assms] show ?thesis by (auto split: sum.splits)
qed

section \<open>Commands\<close>

text \<open>The command on the log of a service that a request asks for.\<close>

fun requested :: "endpoint \<Rightarrow> http_request \<Rightarrow> user \<Rightarrow> log_cmd option" where
  "requested PutVariableE rq u =
     (if keyRe (PathValue rq ''key'')
      then map_option (\<lambda>v. Put (PathValue rq ''key'') v (u_email u)) (decodeJSON rq put_variable_fields []) else None)"
| "requested DeleteVariableE rq u = Some (Remove (PathValue rq ''key'') (u_email u))"
| "requested RollbackE rq u = (case decodeJSON rq rollback_fields 0 of
       None \<Rightarrow> None
     | Some n \<Rightarrow> if n \<le> 0 then None else Some (Rollback (PathValue rq ''key'') n (u_email u)))"
| "requested _ rq u = None"

text \<open>The change type of the event.\<close>

definition event_type :: "endpoint \<Rightarrow> string" where
  "event_type e = (if e = DeleteVariableE then EvDelete else EvUpsert)"

text \<open>How a writing handler ends.\<close>

definition wrote_or_not :: "endpoint \<Rightarrow> http_request \<Rightarrow> world \<Rightarrow> response \<Rightarrow> world \<Rightarrow> bool" where
  "wrote_or_not e rq w r w' \<longleftrightarrow>
     \<not> success r \<and> tbl (w_db w') = tbl (w_db w) \<or>
     success r \<and> (\<exists>u sid c w1 ch d2 action target ds. hr_user rq = Some u \<and>
       pathInt rq ''id'' = Some sid \<and> allowed (tbl (w_db w)) u sid True \<and> requested e rq u = Some c \<and>
       tbl (w_db w1) = tbl (w_db w) \<and> (faults (w_db w) = [] \<longrightarrow> w1 = w) \<and>
       exec_cmd sid c (w_db w1) = (Inr ch, d2) \<and>
       announce sid (event_type e) (ch_variable ch) (u_email u) action target ds r (w1\<lparr>w_db := d2\<rparr>) = (Inr r, w') \<and>
       (rs_body r = NoBody \<or> rs_body r = VariableBody (ch_variable ch)))"

lemma tx_failed_tbl:
  "UpsertVariable sid k v who d = (Inl e, d') \<Longrightarrow> tbl d' = tbl d"
  "DeleteVariable sid k who d = (Inl e, d') \<Longrightarrow> tbl d' = tbl d"
  "RollbackVariable sid k n who d = (Inl e, d') \<Longrightarrow> tbl d' = tbl d"
  by (simp_all add: UpsertVariable_def DeleteVariable_def RollbackVariable_def tx_atomic)

text \<open>The tail of a write: the command ran and was announced.\<close>

lemma announced:
  assumes "announce sid ct (ch_variable ch) (u_email u) action target ds x (w1\<lparr>w_db := d2\<rparr>) = (r1, w')"
    and "exec_cmd sid c (w_db w1) = (Inr ch, d2)" and "tbl (w_db w1) = tbl (w_db w)"
    and "faults (w_db w) = [] \<longrightarrow> w1 = w"
    and "hr_user rq = Some u" and "pathInt rq ''id'' = Some sid" and "allowed (tbl (w_db w)) u sid True"
    and "requested e rq u = Some c" and "ct = event_type e" and "success x"
    and "rs_body x = NoBody \<or> rs_body x = VariableBody (ch_variable ch)"
  shows "wrote_or_not e rq w (case r1 of Inl x \<Rightarrow> x | Inr x \<Rightarrow> x) w'"
  using announceE [OF assms(1)] assms unfolding wrote_or_not_def by fastforce

lemma refused: "\<not> success r \<Longrightarrow> tbl (w_db w') = tbl (w_db w) \<Longrightarrow> wrote_or_not e rq w r w'"
  by (simp add: wrote_or_not_def)

lemma failed_cmd:
  assumes "exec_cmd sid c (w_db w1) = (Inl x, d')" and "tbl (w_db w1) = tbl (w_db w)" and "\<not> success r"
  shows "wrote_or_not e rq w r (w1\<lparr>w_db := d'\<rparr>)"
proof -
  have "tbl d' = tbl (w_db w1)" using assms(1) by (cases c) (auto dest: tx_failed_tbl)
  with assms show ?thesis by (intro refused) simp_all
qed

lemmas ends =
  announced [where c = "Put k v who" for k v who, unfolded exec_cmd.simps]
  announced [where c = "Remove k who" for k who, unfolded exec_cmd.simps]
  announced [where c = "Rollback k n who" for k n who, unfolded exec_cmd.simps]
  failed_cmd [where c = "Put k v who" for k v who, unfolded exec_cmd.simps]
  failed_cmd [where c = "Remove k who" for k who, unfolded exec_cmd.simps]
  failed_cmd [where c = "Rollback k n who" for k n who, unfolded exec_cmd.simps]
  refused

lemma run_webE:
  assumes "run_web m w = (r, w')"
  obtains r1 where "m w = (r1, w')" and "r = (case r1 of Inl x \<Rightarrow> x | Inr x \<Rightarrow> x)"
  using assms by (auto simp: run_web_def split: prod.splits sum.splits)

lemma put_ends:
  assumes "run_web (handlePutVariable rq) w = (r, w')"
  shows "wrote_or_not PutVariableE rq w r w'"
proof -
  obtain r1 where run: "handlePutVariable rq w = (r1, w')" and r: "r = (case r1 of Inl x \<Rightarrow> x | Inr x \<Rightarrow> x)"
    using assms by (rule run_webE)
  show ?thesis
  proof (cases "keyRe (PathValue rq ''key'')")
    case False
    with run show ?thesis
      by (auto simp: r handlePutVariable_def respond_def intro: refused elim!: wbindE or_respondE)
  next
    case True
    from run True show ?thesis
      unfolding r handlePutVariable_def Let_def
        announce_def [symmetric, where target = "\<lambda>svc. ''service:'' @ keyOf svc @ ''/'' @ PathValue rq ''key''"]
      by (auto elim!: wbindE or_respondE authorizeE call_orE) (auto intro: ends(4-7), (erule ends(1), assumption, simp_all add: event_type_def)+)
  qed
qed

lemma delete_ends:
  assumes "run_web (handleDeleteVariable rq) w = (r, w')"
  shows "wrote_or_not DeleteVariableE rq w r w'"
proof -
  obtain r1 where run: "handleDeleteVariable rq w = (r1, w')" and r: "r = (case r1 of Inl x \<Rightarrow> x | Inr x \<Rightarrow> x)"
    using assms by (rule run_webE)
  from run show ?thesis
    unfolding r handleDeleteVariable_def Let_def
      announce_def [symmetric, where target = "\<lambda>svc. ''service:'' @ keyOf svc @ ''/'' @ PathValue rq ''key''"]
    by (auto elim!: wbindE or_respondE authorizeE call_foundE) (auto intro: ends(4-7), (erule ends(2), assumption, simp_all add: event_type_def)+)
qed

lemma rollback_ends:
  assumes "run_web (handleRollbackVariable cfg rq) w = (r, w')"
  shows "wrote_or_not RollbackE rq w r w'"
proof -
  obtain r1 where run: "handleRollbackVariable cfg rq w = (r1, w')" and r: "r = (case r1 of Inl x \<Rightarrow> x | Inr x \<Rightarrow> x)"
    using assms by (rule run_webE)
  from run show ?thesis
    unfolding r handleRollbackVariable_def Let_def
      announce_def [symmetric, where target = "\<lambda>svc. ''service:'' @ keyOf svc @ ''/'' @ PathValue rq ''key''"]
    by (auto simp: respond_def elim!: wbindE or_respondE authorizeE callE split: option.splits if_splits)
      (auto intro: ends(4-7), (erule ends(3), assumption, simp_all add: event_type_def)+)
qed

section \<open>The status tells the truth\<close>

definition write_endpoint :: "endpoint \<Rightarrow> bool" where
  "write_endpoint e \<longleftrightarrow> e \<in> {PutVariableE, DeleteVariableE, RollbackE}"

lemma write_ends:
  assumes "write_endpoint e" and "run_web (api_handler en e path rq) w = (r, w')"
  shows "wrote_or_not e rq w r w'"
  using assms put_ends delete_ends rollback_ends by (auto simp: write_endpoint_def)

text \<open>C13. PUT, DELETE and rollback of a variable implement the commands of the version log. With a
  success status the user was authenticated and had the editor level, and the log of the service
  grew exactly by the command that the request asked for, while other services kept theirs; with
  any other status nothing was written. The bulk write and the import are not among these endpoints: an import
  can end with status 500 after some of its writes were committed.\<close>

theorem write_status_is_true:
  assumes "reachable (w_db w)" and "write_endpoint e"
    and "run_web (api_handler en e path rq) w = (r, w')"
    and "\<forall>sid. log_room (service_log (tbl (w_db w)) sid)"
  shows "if success r
    then \<exists>u sid c. hr_user rq = Some u \<and> pathInt rq ''id'' = Some sid \<and> allowed (tbl (w_db w)) u sid True \<and>
      requested e rq u = Some c \<and>
      log_step c (service_log (tbl (w_db w)) sid) = Inr (service_log (tbl (w_db w')) sid) \<and>
      (\<forall>a. a \<noteq> sid \<longrightarrow> service_log (tbl (w_db w')) a = service_log (tbl (w_db w)) a)
    else tbl (w_db w') = tbl (w_db w)"
proof -
  from write_ends [OF assms(2,3)] consider (no) "\<not> success r" "tbl (w_db w') = tbl (w_db w)"
    | (yes) u sid c d1 ch d2 where "success r" "hr_user rq = Some u" "pathInt rq ''id'' = Some sid"
      "allowed (tbl (w_db w)) u sid True" "requested e rq u = Some c" "tbl d1 = tbl (w_db w)"
      "exec_cmd sid c d1 = (Inr ch, d2)" "data_of (tbl (w_db w')) = data_of (tbl d2)"
    unfolding wrote_or_not_def by (auto dest!: announceE)
  then show ?thesis
  proof cases
    case no
    then show ?thesis by simp
  next
    case yes
    have "log_inv (tbl d1)" and "log_room (service_log (tbl d1) sid)"
      using reachable_log [OF assms(1)] assms(4) yes(6) by simp_all
    from exec_cmd_refines [OF this yes(7)] yes(6) data_log [OF yes(8)]
    have "log_step c (service_log (tbl (w_db w)) sid) = Inr (service_log (tbl (w_db w')) sid)" by simp
    moreover have "\<forall>a. a \<noteq> sid \<longrightarrow> service_log (tbl (w_db w')) a = service_log (tbl (w_db w)) a"
      using exec_cmd_others [OF yes(7)] yes(6) data_log [OF yes(8)] by simp
    ultimately show ?thesis using yes by auto
  qed
qed

definition bob_request :: http_request where
  "bob_request = to_request bob_put [(''id'', ''1''), (''key'', ''k'')] (request_user demo_env bob_put office)"

lemma room_short: "length (versions_tbl t) < 100 \<Longrightarrow> log_room (service_log t sid)"
  unfolding log_room_def service_log_def length_map
  by (rule le_less_trans [OF of_nat_mono [OF length_filter_le]]) simp

theorem write_status_is_true_witness:
  "\<exists>c. log_step c (service_log (tbl (w_db office)) 1) =
     Inr (service_log (tbl (w_db (snd (run_web (api_handler demo_env PutVariableE [] bob_request) office)))) 1)"
proof -
  have "success (fst (run_web (api_handler demo_env PutVariableE [] bob_request) office))"
    and "pathInt bob_request ''id'' = Some 1" and "length (versions_tbl (tbl (w_db office))) < 100" by code_simp+
  with write_status_is_true [OF reachable_office _ prod.collapse [symmetric], of PutVariableE demo_env "[]" bob_request]
    room_short [of "tbl (w_db office)"]
  show ?thesis by (auto simp: write_endpoint_def)
qed


section \<open>The announcement\<close>

lemma exec_cmd_wrote:
  assumes "exec_cmd sid c d = (Inr ch, d')"
  shows "service_exists (tbl d') sid" and "services_tbl (tbl d') = services_tbl (tbl d)" and "notifs d' = notifs d" and "audit_tbl (tbl d') = audit_tbl (tbl d)"
    and "faults d = [] \<Longrightarrow> faults d' = []"
proof -
  show "service_exists (tbl d') sid" "services_tbl (tbl d') = services_tbl (tbl d)" "notifs d' = notifs d" "audit_tbl (tbl d') = audit_tbl (tbl d)"
    using assms
    by (cases c, auto simp: wrote_def removed_def dest!: UpsertVariable_wrote DeleteVariable_removed RollbackVariable_wrote)+
  show "faults d = [] \<Longrightarrow> faults d' = []"
    using assms by (cases c) (auto dest: calmD [OF calm_commands(1)] calmD [OF calm_commands(2)] calmD [OF calm_commands(3)])
qed

text \<open>What reaches the channel: nothing when the payload is too long for NOTIFY.\<close>

definition announced_payload :: "event \<Rightarrow> string list" where
  "announced_payload ev = (if length (marshal_event ev) < 8000 then [marshal_event ev] else [])"

lemma announce_effect:
  assumes "announce sid ct v actor action target ds x w = (r, w')" and "faults (w_db w) = []"
    and "find_service (tbl (w_db w)) sid = Some svc"
  shows "notifs (w_db w') = notifs (w_db w) @ announced_payload (var_event svc ct v) \<and>
     services_tbl (tbl (w_db w')) = services_tbl (tbl (w_db w)) \<and>
     (\<exists>row. audit_tbl (tbl (w_db w')) = audit_tbl (tbl (w_db w)) @ [row] \<and> a_actor row = actor \<and>
        a_action row = action \<and> a_target row = target (Some svc) \<and> a_details row = ds)"
proof -
  have "GetService sid (w_db w) = (Inr svc, w_db w)"
    using assms(2,3) by (simp add: GetService_def run_simps find_service_def)
  then have "lookup_service sid w = (Inr (Some svc), w)"
    by (simp add: lookup_service_def wbind_def call_run wret_def)
  moreover have "snd (Publish (var_event svc ct v) (w_db w)) =
      (w_db w)\<lparr>notifs := notifs (w_db w) @ announced_payload (var_event svc ct v)\<rparr>"
    using assms(2) by (auto simp: Publish_def pg_notify_def stmt_run announced_payload_def)
  ultimately show ?thesis
    using assms(1,2)
    by (auto simp: announce_def publishVar_def record_action_def act_def wbind_def call_run wret_def
        InsertAudit_def stmt_run Let_def)
qed

text \<open>C14. When no statement fails, a successful PUT, DELETE or rollback is announced: exactly one
  event goes to the replicas, with the key, the value and the new version number of the change
  (none if the payload is 8000 bytes or more), and exactly one audit row is written, under the
  name of the user who asked.\<close>

theorem write_is_announced:
  assumes "write_endpoint e" and "run_web (api_handler en e path rq) w = (r, w')"
    and "success r" and "faults (w_db w) = []"
  shows "\<exists>u sid svc c ch d2 row. hr_user rq = Some u \<and> pathInt rq ''id'' = Some sid \<and>
     find_service (tbl (w_db w)) sid = Some svc \<and> requested e rq u = Some c \<and>
     exec_cmd sid c (w_db w) = (Inr ch, d2) \<and>
     notifs (w_db w') = notifs (w_db w) @ announced_payload (var_event svc (event_type e) (ch_variable ch)) \<and>
     audit_tbl (tbl (w_db w')) = audit_tbl (tbl (w_db w)) @ [row] \<and> a_actor row = u_email u"
proof -
  from write_ends [OF assms(1,2)] assms(3,4) obtain u sid c ch d2 action target ds where
    *: "hr_user rq = Some u" "pathInt rq ''id'' = Some sid" "requested e rq u = Some c"
      "exec_cmd sid c (w_db w) = (Inr ch, d2)"
    and run: "announce sid (event_type e) (ch_variable ch) (u_email u) action target ds r (w\<lparr>w_db := d2\<rparr>) = (Inr r, w')"
    unfolding wrote_or_not_def by auto
  note after = exec_cmd_wrote [OF *(4)]
  from after(1,2) obtain svc where svc: "find_service (tbl d2) sid = Some svc" "find_service (tbl (w_db w)) sid = Some svc"
    by (auto simp: service_exists_def find_service_def)
  have "faults (w_db (w\<lparr>w_db := d2\<rparr>)) = []" using after(5) assms(4) by simp
  from announce_effect [OF run this, of svc] svc(1) after(3,4) obtain row where
    "notifs (w_db w') = notifs (w_db w) @ announced_payload (var_event svc (event_type e) (ch_variable ch))"
    "audit_tbl (tbl (w_db w')) = audit_tbl (tbl (w_db w)) @ [row]" "a_actor row = u_email u" by auto
  with * svc(2) show ?thesis by blast
qed

theorem write_is_announced_witness:
  "\<exists>ev. notifs (w_db (snd (run_web (api_handler demo_env PutVariableE [] bob_request) office)))
     = notifs (w_db office) @ announced_payload ev"
proof -
  have "success (fst (run_web (api_handler demo_env PutVariableE [] bob_request) office))"
    and "faults (w_db office) = []" by code_simp+
  with write_is_announced [OF _ prod.collapse [symmetric], of PutVariableE demo_env "[]" bob_request]
  show ?thesis by (auto simp: write_endpoint_def)
qed

end
