(* ===== verification/Http_Types.thy ===== *)
theory Http_Types
  imports Http_Properties
begin

text \<open>
  What the endpoints of \<open>internal/httpserver\<close> answer: to each belongs a status of success and a type of
  body, and everything else is an error with a message.
\<close>

section \<open>The types\<close>

fun success_body :: "endpoint \<Rightarrow> payload \<Rightarrow> bool" where
  "success_body e (PlainBody s) = (e = Healthz \<and> s = ''ok'' \<or> e = Readyz \<and> s = ''ready'')"
| "success_body e (MeBody u c) = (e = Me)"
| "success_body e (ServicesBody ds) = (e = ListServicesE)"
| "success_body e (ServiceBody d) =
     (e = GetServiceE \<or> e = CreateServiceE \<and> sd_active d = 0 \<and> sd_level d = LevelEditor)"
| "success_body e (ConnInfoBody kvs) = (e = ConnectionInfo \<and> map fst kvs =
     [''service_key'', ''grpc_addr'', ''contour'', ''env_snippet'', ''go_snippet'', ''java_snippet''])"
| "success_body e (CountBody name n) =
     (e = ServiceConnections \<and> name = ''active_connections'' \<or> e = BulkUpsertE \<and> name = ''applied'')"
| "success_body e (VariablesBody vs) = (e = ListVariablesE)"
| "success_body e (VariableBody v) = (e = PutVariableE \<or> e = RollbackE)"
| "success_body e (HistoryBody hs) = (e = VariableHistoryE \<or> e = ServiceHistoryE \<and> length hs \<le> 200)"
| "success_body e (AuditBody es) = (e = AuditE \<and> length es \<le> 200)"
| "success_body e (HitsBody hs) = (e = SearchE \<and> length hs \<le> 200)"
| "success_body e (ClientsBody cs) = (e = ServiceClients)"
| "success_body e (TokensBody ts) = (e = ListTokensE \<and> (\<forall>t \<in> set ts. t_hash t = []))"
| "success_body e (TokenBody i name created tok) = (e = CreateTokenE \<and> has_prefix ''dyn_'' tok)"
| "success_body e (UsersBody us) = (e = ListUsersE)"
| "success_body e (PermsBody ps) = (e = ListPermissionsE)"
| "success_body e (ExportBody d) = (e = ExportE \<and> ed_version d = 1)"
| "success_body e (ImportBody r) = (e = ImportE)"
| "success_body e (TelegramBody v) = (e = GetTelegramE)"
| "success_body e (FileBody p) = False"
| "success_body e (MovedBody p) = False"
| "success_body e NoBody = (e \<in> {DeleteServiceE, DeleteVariableE, SetTagsE, AddFavoriteE, RemoveFavoriteE,
     DeleteTokenE, SetTelegramE, TestTelegramE, SetUserRoleE, SetPermissionE, RevokePermissionE})"
| "success_body e (ErrBody msg) = False"

definition success_status :: "endpoint \<Rightarrow> payload \<Rightarrow> nat" where
  "success_status e b = (if b = NoBody then 204 else if e \<in> {CreateServiceE, CreateTokenE} then 201 else 200)"

definition error_status :: "endpoint \<Rightarrow> nat \<Rightarrow> bool" where
  "error_status e n \<longleftrightarrow> n \<in> {400, 401, 403, 404, 500} \<or> e = Readyz \<and> n = 503 \<or> e = CreateServiceE \<and> n = 409 \<or>
     e = TestTelegramE \<and> n = 502"

definition well_typed :: "endpoint \<Rightarrow> response \<Rightarrow> bool" where
  "well_typed e r \<longleftrightarrow> (\<exists>msg. rs_body r = ErrBody msg \<and> error_status e (rs_status r)) \<or>
     success_body e (rs_body r) \<and> rs_status r = success_status e (rs_body r)"

text \<open>The embedded files come with the answers of \<open>net/http\<close>'s file server.\<close>

definition static_response :: "response \<Rightarrow> bool" where
  "static_response r \<longleftrightarrow> (case rs_body r of
      FileBody p \<Rightarrow> rs_status r \<in> {200, 206}
    | MovedBody p \<Rightarrow> rs_status r = 301
    | NoBody \<Rightarrow> rs_status r \<in> {304, 412}
    | PlainBody msg \<Rightarrow> rs_status r \<in> {404, 416}
    | _ \<Rightarrow> False)"

section \<open>A logic of outcomes\<close>

text \<open>\<open>outcomes m A R\<close>: whatever the state, what \<open>m\<close> returns satisfies \<open>A\<close>, or the response it ends with \<open>R\<close>.\<close>

definition outcomes :: "'a web \<Rightarrow> ('a \<Rightarrow> bool) \<Rightarrow> (response \<Rightarrow> bool) \<Rightarrow> bool" where
  "outcomes m A R \<longleftrightarrow> (\<forall>w. case fst (m w) of Inl r \<Rightarrow> R r | Inr x \<Rightarrow> A x)"

lemma outcomes_ret: "A x \<Longrightarrow> outcomes (wret x) A R"
  by (simp add: outcomes_def wret_def)

lemma outcomes_respond: "R r \<Longrightarrow> outcomes (respond r) A R"
  by (simp add: outcomes_def respond_def)

lemma outcomes_bind_some:
  assumes "outcomes m B R" and "\<And>x. B x \<Longrightarrow> outcomes (k x) A R"
  shows "outcomes (wbind m k) A R"
  unfolding outcomes_def
proof
  fix w
  obtain r w1 where m: "m w = (r, w1)" by fastforce
  show "case fst (wbind m k w) of Inl r \<Rightarrow> R r | Inr x \<Rightarrow> A x"
  proof (cases r)
    case (Inl x)
    with assms(1) [unfolded outcomes_def, THEN spec [of _ w]] m show ?thesis by (simp add: wbind_def)
  next
    case (Inr x)
    with assms(1) [unfolded outcomes_def, THEN spec [of _ w]] m have "B x" by simp
    from assms(2) [OF this, unfolded outcomes_def, THEN spec [of _ w1]] Inr m show ?thesis by (simp add: wbind_def)
  qed
qed

lemma outcomes_bind: "outcomes m (\<lambda>_. True) R \<Longrightarrow> (\<And>x. outcomes (k x) A R) \<Longrightarrow> outcomes (wbind m k) A R"
  by (rule outcomes_bind_some)

lemma outcomes_call: "outcomes (call m) (\<lambda>_. True) R"
  by (simp add: outcomes_def call_run)

lemma outcomes_act: "outcomes (act f) (\<lambda>_. True) R"
  by (simp add: outcomes_def act_def)

lemma outcomes_get: "outcomes (get_world f) (\<lambda>_. True) R"
  by (simp add: outcomes_def get_world_def)

lemma outcomes_or_respond: "R e \<Longrightarrow> outcomes (or_respond e x) (\<lambda>_. True) R"
  by (cases x) (simp_all add: or_respond_def outcomes_ret outcomes_respond)

lemma outcomes_call_or_some:
  assumes "\<And>d x d'. m d = (Inr x, d') \<Longrightarrow> B x" and "R e"
  shows "outcomes (call_or e m) B R"
  unfolding outcomes_def
proof
  fix w
  obtain r w' where "call_or e m w = (r, w')" by fastforce
  then show "case fst (call_or e m w) of Inl r \<Rightarrow> R r | Inr x \<Rightarrow> B x"
    by (cases rule: call_orE) (use assms \<open>call_or e m w = (r, w')\<close> in auto)
qed

lemma outcomes_call_or: "R e \<Longrightarrow> outcomes (call_or e m) (\<lambda>_. True) R"
  by (rule outcomes_call_or_some) simp

lemma outcomes_call_found: "R nf \<Longrightarrow> R e \<Longrightarrow> outcomes (call_found nf e m) (\<lambda>_. True) R"
  unfolding call_found_def
  by (rule outcomes_bind [OF outcomes_call]) (auto split: sum.split intro: outcomes_ret outcomes_respond)

lemma outcomes_if: "(c \<Longrightarrow> outcomes m A R) \<Longrightarrow> (\<not> c \<Longrightarrow> outcomes m' A R) \<Longrightarrow> outcomes (if c then m else m') A R"
  by simp

lemma outcomes_cases:
  "(\<And>a b. x = (a, b) \<Longrightarrow> outcomes (f a b) A R) \<Longrightarrow> outcomes (case x of (a, b) \<Rightarrow> f a b) A R"
  "(\<And>e. s = Inl e \<Longrightarrow> outcomes (g e) A R) \<Longrightarrow> (\<And>y. s = Inr y \<Longrightarrow> outcomes (h y) A R) \<Longrightarrow>
     outcomes (case s of Inl e \<Rightarrow> g e | Inr y \<Rightarrow> h y) A R"
  "(p = None \<Longrightarrow> outcomes m A R) \<Longrightarrow> (\<And>y. p = Some y \<Longrightarrow> outcomes (q y) A R) \<Longrightarrow>
     outcomes (case p of None \<Rightarrow> m | Some y \<Rightarrow> q y) A R"
  by (auto split: prod.split sum.split option.split)

section \<open>The pieces of the handlers\<close>

text \<open>The responses with which every endpoint may end.\<close>

lemma typed_err: "error_status e n \<Longrightarrow> well_typed e (writeErr n msg)"
  by (simp add: well_typed_def writeErr_def writeJSON_def)

lemma typed_early [simp]:
  "well_typed e internal_error" "well_typed e bad_id" "well_typed e unauthenticated" "well_typed e no_service"
  by (simp_all add: internal_error_def bad_id_def unauthenticated_def no_service_def typed_err error_status_def)

lemma typed_json: "success_body e b \<Longrightarrow> n = success_status e b \<Longrightarrow> well_typed e (writeJSON n b)"
  by (simp add: well_typed_def writeJSON_def)

lemma typed_no_content: "success_body e NoBody \<Longrightarrow> well_typed e no_content"
  by (simp add: well_typed_def no_content_def success_status_def)

named_theorems outcomes

lemmas outcomes_rules = outcomes_ret outcomes_respond outcomes_call outcomes_act outcomes_get
  outcomes_or_respond outcomes_call_or outcomes_call_found outcomes_bind outcomes_if outcomes_cases

lemma outcomes_user [outcomes]: "outcomes (requireUser rq) (\<lambda>_. True) (well_typed e)"
  by (simp add: requireUser_def outcomes_or_respond)

lemma outcomes_admin [outcomes]: "outcomes (requireAdmin rq) (\<lambda>_. True) (well_typed e)"
  unfolding requireAdmin_def
  by (intro outcomes_rules outcomes_user) (simp_all add: typed_err error_status_def)

lemma outcomes_level [outcomes]: "outcomes (effectiveLevel u sid) (\<lambda>_. True) R"
  unfolding effectiveLevel_def by (intro outcomes_rules) simp_all

lemma outcomes_authorize [outcomes]: "outcomes (authorizeService rq sid need) (\<lambda>_. True) (well_typed e)"
  unfolding authorizeService_def Let_def
  by (intro outcomes_rules outcomes_user outcomes_level) (simp_all add: typed_err error_status_def)

lemma outcomes_lookup [outcomes]: "outcomes (lookup_service sid) (\<lambda>_. True) R"
  unfolding lookup_service_def by (intro outcomes_rules) simp_all

lemma outcomes_publish [outcomes]: "outcomes (publishVar svc ct v) (\<lambda>_. True) R"
  unfolding publishVar_def by (intro outcomes_rules) simp_all

lemma outcomes_record [outcomes]: "outcomes (record_action a b c ds) (\<lambda>_. True) R"
  unfolding record_action_def by (rule outcomes_act)

lemma outcomes_changes [outcomes]: "outcomes (publish_changes svc chs) (\<lambda>_. True) R"
  by (induction chs) (simp_all add: outcomes_ret outcomes_bind outcomes_publish)

lemma outcomes_dtos [outcomes]: "outcomes (service_dtos u counts favs svcs) (\<lambda>_. True) R"
  by (induction svcs) (simp_all add: outcomes_ret outcomes_bind outcomes_level)

lemma outcomes_export [outcomes]: "outcomes (export_services svcs) (\<lambda>_. True) (well_typed e)"
  by (induction svcs) (simp_all add: outcomes_ret outcomes_bind outcomes_call_or)

lemma outcomes_import_variables [outcomes]:
  "outcomes (import_variables svc skey kvs who res) (\<lambda>_. True) (well_typed e)"
  by (induction svc skey kvs who res rule: import_variables.induct)
    (auto intro!: outcomes_ret outcomes_bind outcomes_call_or outcomes_publish typed_err simp: error_status_def)

lemma outcomes_import_service [outcomes]: "outcomes (import_service es who res) (\<lambda>_. True) (well_typed e)"
  unfolding import_service_def
  by (intro outcomes_rules) (simp_all add: typed_err error_status_def)

lemma outcomes_import_services [outcomes]: "outcomes (import_services ess who res) (\<lambda>_. True) (well_typed e)"
  by (induction ess who res rule: import_services.induct)
    (auto intro!: outcomes_ret outcomes_respond outcomes_bind outcomes_cases outcomes typed_err simp: error_status_def)

section \<open>The handlers\<close>

lemmas typed = typed_err typed_json typed_no_content error_status_def success_status_def

lemma outcomes_handlers:
  "outcomes handleHealthz (well_typed Healthz) (well_typed Healthz)"
  "outcomes handleReadyz (well_typed Readyz) (well_typed Readyz)"
  "outcomes (handleMe cfg rq) (well_typed Me) (well_typed Me)"
  "outcomes (handleListServices rq) (well_typed ListServicesE) (well_typed ListServicesE)"
  "outcomes (handleGetService rq) (well_typed GetServiceE) (well_typed GetServiceE)"
  "outcomes (handleCreateService rq) (well_typed CreateServiceE) (well_typed CreateServiceE)"
  "outcomes (handleDeleteService rq) (well_typed DeleteServiceE) (well_typed DeleteServiceE)"
  "outcomes (handleConnectionInfo cfg rq) (well_typed ConnectionInfo) (well_typed ConnectionInfo)"
  "outcomes (handleServiceConnections rq) (well_typed ServiceConnections) (well_typed ServiceConnections)"
  unfolding handleHealthz_def handleReadyz_def handleMe_def handleListServices_def handleGetService_def
    handleCreateService_def handleDeleteService_def handleConnectionInfo_def handleServiceConnections_def Let_def
  by (intro outcomes_rules outcomes; simp add: typed isUniqueViolation_def)+

lemma outcomes_variables:
  "outcomes (handleListVariables rq) (well_typed ListVariablesE) (well_typed ListVariablesE)"
  "outcomes (handlePutVariable rq) (well_typed PutVariableE) (well_typed PutVariableE)"
  "outcomes (handleDeleteVariable rq) (well_typed DeleteVariableE) (well_typed DeleteVariableE)"
  "outcomes (handleBulkUpsert rq) (well_typed BulkUpsertE) (well_typed BulkUpsertE)"
  "outcomes (handleVariableHistory rq) (well_typed VariableHistoryE) (well_typed VariableHistoryE)"
  "outcomes (handleRollbackVariable cfg rq) (well_typed RollbackE) (well_typed RollbackE)"
  unfolding handleListVariables_def handlePutVariable_def handleDeleteVariable_def handleBulkUpsert_def
    handleVariableHistory_def handleRollbackVariable_def Let_def
  by (intro outcomes_rules outcomes; simp add: typed)+

lemma outcomes_features:
  "outcomes (handleSetTags rq) (well_typed SetTagsE) (well_typed SetTagsE)"
  "outcomes (handleServiceClients rq) (well_typed ServiceClients) (well_typed ServiceClients)"
  "outcomes (handleAddFavorite rq) (well_typed AddFavoriteE) (well_typed AddFavoriteE)"
  "outcomes (handleRemoveFavorite rq) (well_typed RemoveFavoriteE) (well_typed RemoveFavoriteE)"
  "outcomes (handleDeleteToken rq) (well_typed DeleteTokenE) (well_typed DeleteTokenE)"
  "outcomes (handleGetTelegram rq) (well_typed GetTelegramE) (well_typed GetTelegramE)"
  "outcomes (handleSetTelegram rq) (well_typed SetTelegramE) (well_typed SetTelegramE)"
  unfolding handleSetTags_def handleServiceClients_def handleAddFavorite_def handleRemoveFavorite_def
    handleDeleteToken_def handleGetTelegram_def handleSetTelegram_def Let_def
  by (intro outcomes_rules outcomes; simp add: typed)+

lemma outcomes_send_test:
  "outcomes (\<lambda>w. case SendTest token chat w of (Some e, w') \<Rightarrow> (Inl (writeErr 502 e), w') | (None, w') \<Rightarrow> (Inr no_content, w'))
     (well_typed TestTelegramE) (well_typed TestTelegramE)"
  by (auto simp: outcomes_def typed split: prod.split option.split)

lemma outcomes_test: "outcomes (handleTestTelegram rq) (well_typed TestTelegramE) (well_typed TestTelegramE)"
  unfolding handleTestTelegram_def Let_def
  by (intro outcomes_rules outcomes outcomes_send_test; simp add: typed)

lemma outcomes_admin_pages:
  "outcomes (handleExport cfg rq) (well_typed ExportE) (well_typed ExportE)"
  "outcomes (handleImport cfg time_of rq) (well_typed ImportE) (well_typed ImportE)"
  "outcomes (handleListUsers rq) (well_typed ListUsersE) (well_typed ListUsersE)"
  "outcomes (handleSetUserRole rq) (well_typed SetUserRoleE) (well_typed SetUserRoleE)"
  "outcomes (handleListPermissions rq) (well_typed ListPermissionsE) (well_typed ListPermissionsE)"
  "outcomes (handleSetPermission rq) (well_typed SetPermissionE) (well_typed SetPermissionE)"
  "outcomes (handleRevokePermission rq) (well_typed RevokePermissionE) (well_typed RevokePermissionE)"
  unfolding handleExport_def handleImport_def handleListUsers_def handleSetUserRole_def handleListPermissions_def
    handleSetPermission_def handleRevokePermission_def Let_def
  by (intro outcomes_rules outcomes; simp add: typed)+

lemma static_files: "static_response (ServeFileFS cfg cont p)" "static_response (FileServerFS cfg cont p)"
proof -
  show "static_response (ServeFileFS cfg cont p)" for p
    by (cases cont) (simp_all add: ServeFileFS_def static_response_def writeJSON_def)
  then show "static_response (FileServerFS cfg cont p)"
    by (simp add: FileServerFS_def) (simp add: static_response_def writeJSON_def)
qed

lemma outcomes_static: "outcomes (handleStatic cfg path rq) static_response static_response"
  unfolding handleStatic_def Let_def by (rule outcomes_ret) (simp add: static_files)

text \<open>The lists with a bound, and those that must not show a hash.\<close>

lemma clamped: "clamp_limit 200 = 200"
  by (simp add: clamp_limit_def)

lemma outcomes_lists:
  "outcomes (handleServiceHistory rq) (well_typed ServiceHistoryE) (well_typed ServiceHistoryE)"
  "outcomes (handleAudit rq) (well_typed AuditE) (well_typed AuditE)"
  "outcomes (handleSearch rq) (well_typed SearchE) (well_typed SearchE)"
  "outcomes (handleListTokens rq) (well_typed ListTokensE) (well_typed ListTokensE)"
  "outcomes (handleCreateToken hash rq) (well_typed CreateTokenE) (well_typed CreateTokenE)"
proof -
  have history: "outcomes (call_or internal_error (ServiceHistory sid 200)) (\<lambda>hs. length hs \<le> 200) (well_typed ServiceHistoryE)" for sid
    by (rule outcomes_call_or_some) (auto simp: ServiceHistory_def clamped elim!: select_InrE)
  show "outcomes (handleServiceHistory rq) (well_typed ServiceHistoryE) (well_typed ServiceHistoryE)"
    unfolding handleServiceHistory_def
    by (intro outcomes_bind outcomes outcomes_or_respond outcomes_bind_some [OF history] outcomes_ret) (simp_all add: typed)
  have audit: "outcomes (call_or internal_error (ListAudit 200)) (\<lambda>es. length es \<le> 200) (well_typed AuditE)"
    by (rule outcomes_call_or_some) (auto simp: ListAudit_def clamped elim!: select_InrE)
  show "outcomes (handleAudit rq) (well_typed AuditE) (well_typed AuditE)"
    unfolding handleAudit_def
    by (intro outcomes_bind [OF outcomes_admin] outcomes_bind_some [OF audit] outcomes_ret) (simp add: typed)
  have search: "outcomes (call_or internal_error (SearchVariables q r)) (\<lambda>hs. length hs \<le> 200) (well_typed SearchE)" for q r
    by (rule outcomes_call_or_some) (auto simp: SearchVariables_def elim!: select_InrE)
  show "outcomes (handleSearch rq) (well_typed SearchE) (well_typed SearchE)"
    unfolding handleSearch_def Let_def
    by (intro outcomes_bind [OF outcomes_user] outcomes_if outcomes_respond outcomes_bind_some [OF search] outcomes_ret)
      (simp_all add: typed)
  have tokens: "outcomes (call_or internal_error (ListAPITokens uid)) (\<lambda>ts. \<forall>t \<in> set ts. t_hash t = []) (well_typed ListTokensE)" for uid
    by (rule outcomes_call_or_some) (auto simp: ListAPITokens_def public_token_def elim!: select_InrE)
  show "outcomes (handleListTokens rq) (well_typed ListTokensE) (well_typed ListTokensE)"
    unfolding handleListTokens_def
    by (intro outcomes_bind [OF outcomes_user] outcomes_bind_some [OF tokens] outcomes_ret) (simp add: typed)
  show "outcomes (handleCreateToken hash rq) (well_typed CreateTokenE) (well_typed CreateTokenE)"
    unfolding handleCreateToken_def
    by (intro outcomes_rules outcomes) (simp_all add: typed new_token_def has_prefix_append)
qed

definition typed_for :: "endpoint \<Rightarrow> response \<Rightarrow> bool" where
  "typed_for e r = (if e = StaticE then static_response r else well_typed e r)"

lemma api_typed:
  assumes "\<not> login_endpoint e" and "e \<noteq> SSE"
  shows "outcomes (api_handler en e path rq) (typed_for e) (typed_for e)"
  unfolding typed_for_def using assms
  by (cases e) (simp_all add: login_endpoint_def outcomes_handlers outcomes_variables outcomes_features outcomes_test
      outcomes_admin_pages outcomes_static outcomes_lists)

lemma dispatch_typed:
  assumes run: "dispatch_request en nr e rq w = (Api r, w')"
  shows "typed_for e r"
proof (cases "login_endpoint e \<or> e = SSE")
  case True
  with run show ?thesis
    by (auto simp: dispatch_request_def login_endpoint_def requireUser_def or_respond_def wret_def respond_def
        typed_for_def apfst_def map_prod_def split: option.splits prod.splits)
next
  case False
  obtain r1 w2 where h: "api_handler en e (nr_path nr) rq w = (r1, w2)" by fastforce
  from False api_typed [of e en "nr_path nr" rq]
  have "case fst (api_handler en e (nr_path nr) rq w) of Inl r \<Rightarrow> typed_for e r | Inr r \<Rightarrow> typed_for e r"
    unfolding outcomes_def by blast
  with run False h show ?thesis
    by (auto simp: dispatch_request_def login_endpoint_def run_web_def split: sum.splits)
qed

text \<open>C12. Every response of the API has the type of its endpoint, whatever the request, the user and the state: an error
  is a message with a status that belongs to the endpoint, and everything else has the endpoint's status of
  success and its type of body. No list of tokens shows a hash, and the history of a service, the audit
  log and the search have at most 200 entries; the other lists are not bounded. The embedded files come with the
  statuses of a file server. A request that no route takes gets the plain answer of the router: 405 in plain text, or a
  redirect if its path is not clean; a URL that is not valid gets 400.\<close>

theorem responses_are_typed:
  assumes "Handler en nr w = (Api r, w')"
  shows "case mux_of nr of
      Routed (Some (e, vs)) \<Rightarrow> if e = StaticE then static_response r else well_typed e r
    | Routed None \<Rightarrow> rs_status r = 405 \<and> rs_body r = PlainBody (''Method Not Allowed'' @ [newline])
    | Redirected \<Rightarrow> rs_status r = 301 \<and> rs_body r = MovedBody (cleanPath (nr_url nr))
    | BadPath \<Rightarrow> rs_status r = 400 \<and> rs_body r = PlainBody ''400 Bad Request''"
proof -
  obtain u w1 where "Middleware (en_auth en) (nr_auth nr) w = (u, w1)" by fastforce
  then show ?thesis
    using assms dispatch_typed [of en nr _ "to_request nr _ u" w1 r w', unfolded typed_for_def]
    by (auto simp: Handler_def bad_request_def method_not_allowed_def moved_def writeJSON_def
        split: mux_answer.splits option.splits if_splits)
qed

text \<open>A PUT without a user, which is refused.\<close>

lemma responses_are_typed_witness:
  "\<exists>r w'. Handler demo_env nobody_put office = (Api r, w') \<and> well_typed PutVariableE r"
proof -
  have "case fst (Handler demo_env nobody_put office) of Api r \<Rightarrow> True | _ \<Rightarrow> False" by code_simp
  then obtain r w' where run: "Handler demo_env nobody_put office = (Api r, w')"
    by (cases "Handler demo_env nobody_put office") (auto split: net_response.splits)
  from responses_are_typed [OF run] nobody_put_target have "well_typed PutVariableE r" by simp
  with run show ?thesis by blast
qed

end
