(* ===== verification/Json_Indent.thy ===== *)
theory Json_Indent
  imports Json
begin

text \<open>
  The indented form of JSON that \<open>SetIndent("", "  ")\<close> gives an encoder, and that the reader gets
  back from it the value that was written.
\<close>

section \<open>Writing\<close>

definition pad :: "nat \<Rightarrow> string" where
  "pad d = newline # replicate (2 * d) (CHR '' '')"

fun join :: "string \<Rightarrow> string list \<Rightarrow> string" where
  "join sep [] = []"
| "join sep [x] = x"
| "join sep (x # y # ys) = x @ sep @ join sep (y # ys)"

fun pretty :: "nat \<Rightarrow> json \<Rightarrow> string" where
  "pretty d (JArr xs) = (if xs = [] then ''[]''
     else ''['' @ pad (Suc d) @ join (CHR '','' # pad (Suc d)) (map (pretty (Suc d)) xs) @ pad d @ '']'')"
| "pretty d (JObj ms) = (if ms = [] then ''{}''
     else ''{'' @ pad (Suc d) @
       join (CHR '','' # pad (Suc d)) (map (\<lambda>(k, v). json_quote k @ '': '' @ pretty (Suc d) v) ms) @ pad d @ ''}'')"
| "pretty d j = render j"

text \<open>A map of strings, its members in the order of the list.\<close>

definition string_map :: "(string \<times> string) list \<Rightarrow> json" where
  "string_map kvs = JObj (map (\<lambda>(k, v). (k, JStr v)) kvs)"

section \<open>Reading back\<close>

lemma skip_ws_pad [simp]: "skip_ws (pad d @ s) = skip_ws s"
proof -
  have "dropWhile (\<lambda>c. byte c \<in> {9, 10, 13, 32}) (replicate n (CHR '' '') @ s) =
      dropWhile (\<lambda>c. byte c \<in> {9, 10, 13, 32}) s" for n
    by (induction n) simp_all
  then show ?thesis by (simp add: skip_ws_def pad_def newline_def)
qed

lemma ends_pad [simp]: "ends (pad d @ s)"
  by (simp add: ends_def pad_def num_char_def is_digit_def newline_def)

lemma parse_value_pad: "parse_value (Suc n) (pad d @ s) = parse_value (Suc n) s"
  by simp

lemma parse_value_space: "parse_value (Suc n) (CHR '' '' # s) = parse_value (Suc n) s"
proof -
  have "skip_ws (CHR '' '' # s) = skip_ws s" by (simp add: skip_ws_def)
  then show ?thesis by simp
qed

lemma parse_elems_pad: "parse_elems (Suc (Suc n)) (pad d @ s) = parse_elems (Suc (Suc n)) s"
  by (simp del: parse_value.simps add: parse_value_pad)

lemma parse_members_pad: "parse_members (Suc n) (pad d @ s) = parse_members (Suc n) s"
  by simp

lemma join_Cons: "xs \<noteq> [] \<Longrightarrow> join sep (x # xs) = x @ sep @ join sep xs"
  by (cases xs) auto

text \<open>Like the compact form, an indented value does not begin with a bracket that closes, nor with white space.\<close>

lemma pretty_head:
  assumes "json_ok j"
  shows "\<exists>c cs. pretty d j = c # cs \<and> byte c \<notin> {9, 10, 13, 32} \<and> c \<noteq> CHR '']''"
proof (cases j)
  case (JArr xs)
  then show ?thesis by (cases "xs = []") auto
next
  case (JObj ms)
  then show ?thesis by (cases "ms = []") auto
qed (use render_head [OF assms] in auto)

theorem parse_pretty:
  "json_ok j \<Longrightarrow> length (pretty d j) < n \<Longrightarrow> ends rest \<Longrightarrow>
     parse_value n (pretty d j @ rest) = Some (j, rest)"
proof (induction j arbitrary: d n rest)
  case (JArr xs)
  let ?p = "pretty (Suc d)" and ?sep = "CHR '','' # pad (Suc d)"
  have elems: "parse_elems n (join ?sep (map ?p ys) @ pad d @ CHR '']'' # rest) = Some (ys, rest)"
    if "set ys \<subseteq> set xs" "ys \<noteq> []" "list_all json_ok ys" "length (join ?sep (map ?p ys)) + 2 < n" for ys n
    using that
  proof (induction ys arbitrary: n)
    case Nil
    then show ?case by simp
  next
    case (Cons y ys)
    obtain m where n: "n = Suc m" using Cons.prems by (cases n) auto
    have y: "y \<in> set xs" "json_ok y" using Cons.prems by auto
    show ?case
    proof (cases "ys = []")
      case True
      have "length (?p y) < m" using Cons.prems n True by simp
      then have "parse_value m (?p y @ pad d @ CHR '']'' # rest) = Some (y, pad d @ CHR '']'' # rest)"
        by (rule JArr.IH [OF y]) simp
      with n True show ?thesis by simp
    next
      case False
      have len: "length (?p y) < m" "length (join ?sep (map ?p ys)) + 2 < m"
        using Cons.prems(4) n False by (simp_all add: join_Cons pad_def)
      let ?more = "join ?sep (map ?p ys) @ pad d @ CHR '']'' # rest"
      have "parse_value m (?p y @ CHR '','' # pad (Suc d) @ ?more) = Some (y, CHR '','' # pad (Suc d) @ ?more)"
        by (rule JArr.IH [OF y len(1)]) simp
      moreover have "parse_elems m ?more = Some (ys, rest)"
        using Cons.prems False len by (intro Cons.IH) auto
      moreover obtain k where "m = Suc (Suc k)" using len(2) by (cases m; cases "m - 1") auto
      ultimately have "parse_value m (?p y @ CHR '','' # pad (Suc d) @ ?more) = Some (y, CHR '','' # pad (Suc d) @ ?more)"
        "parse_elems m (pad (Suc d) @ ?more) = Some (ys, rest)"
        by (simp_all only: parse_elems_pad)
      with n False show ?thesis by (simp add: join_Cons)
    qed
  qed
  obtain m where n: "n = Suc m" using JArr.prems by (cases n) auto
  show ?case
  proof (cases "xs = []")
    case True
    then show ?thesis by (simp add: n)
  next
    case False
    then obtain y ys where xs: "xs = y # ys" by (cases xs) auto
    with JArr.prems have "json_ok y" by simp
    from pretty_head [OF this, of "Suc d"] obtain c cs where c: "?p y = c # cs"
      "byte c \<notin> {9, 10, 13, 32}" "c \<noteq> CHR '']''" by blast
    have "\<exists>ds. join ?sep (map ?p xs) = c # ds"
      using c(1) xs by (cases ys) (simp_all add: join_Cons)
    then obtain ds where ds: "join ?sep (map ?p xs) = c # ds" ..
    have len: "length (join ?sep (map ?p xs)) + 2 < m" using JArr.prems(2) False n by (simp add: pad_def)
    have "parse_elems m (join ?sep (map ?p xs) @ pad d @ CHR '']'' # rest) = Some (xs, rest)"
      using JArr.prems False len by (intro elems) auto
    moreover obtain k where "m = Suc (Suc k)" using len by (cases m; cases "m - 1") auto
    ultimately have "parse_elems m (pad (Suc d) @ join ?sep (map ?p xs) @ pad d @ CHR '']'' # rest) = Some (xs, rest)"
      by (simp only: parse_elems_pad)
    then show ?thesis using c ds False by (simp add: n skip_ws_stop)
  qed
next
  case (JObj ms)
  let ?r = "\<lambda>(k, v). json_quote k @ '': '' @ pretty (Suc d) v" and ?sep = "CHR '','' # pad (Suc d)"
  have members: "parse_members n (join ?sep (map ?r ys) @ pad d @ CHR ''}'' # rest) = Some (ys, rest)"
    if "set ys \<subseteq> set ms" "ys \<noteq> []" "list_all (\<lambda>(k, v). utf8_valid k \<and> json_ok v) ys"
      "length (join ?sep (map ?r ys)) + 2 < n" for ys n
    using that
  proof (induction ys arbitrary: n)
    case Nil
    then show ?case by simp
  next
    case (Cons y ys)
    obtain k v where y: "y = (k, v)" by fastforce
    obtain l where n: "n = Suc (Suc l)" using Cons.prems(4) by (cases n; cases "n - 1") auto
    have kv: "(k, v) \<in> set ms" "utf8_valid k" "json_ok v" using Cons.prems y by auto
    have IHv: "length (pretty (Suc d) v) < Suc l \<Longrightarrow> ends rest' \<Longrightarrow>
        parse_value (Suc l) (CHR '' '' # pretty (Suc d) v @ rest') = Some (v, rest')" for rest'
      unfolding parse_value_space by (rule JObj.IH [OF kv(1)]) (use kv(3) in simp_all)
    show ?case
    proof (cases "ys = []")
      case True
      have "length (pretty (Suc d) v) < Suc l" using Cons.prems n True y by (simp add: json_quote_def)
      from IHv [OF this] kv(2) show ?thesis
        by (simp add: n y True json_quote_def unquote_esc del: parse_value.simps)
    next
      case False
      have len: "length (pretty (Suc d) v) < Suc l" "length (join ?sep (map ?r ys)) + 2 < Suc l"
        using Cons.prems(4) n False y by (simp_all add: join_Cons json_quote_def)
      let ?more = "join ?sep (map ?r ys) @ pad d @ CHR ''}'' # rest"
      have "parse_members (Suc l) ?more = Some (ys, rest)"
        using Cons.prems False len by (intro Cons.IH) auto
      then have "parse_members (Suc l) (pad (Suc d) @ ?more) = Some (ys, rest)" by (simp only: parse_members_pad)
      with IHv [OF len(1), of "CHR '','' # pad (Suc d) @ ?more"] kv(2) False show ?thesis
        by (simp add: n y join_Cons json_quote_def unquote_esc del: parse_value.simps parse_members.simps
            add: parse_members.simps(2) [of "Suc l"])
    qed
  qed
  obtain m where n: "n = Suc m" using JObj.prems by (cases n) auto
  show ?case
  proof (cases "ms = []")
    case True
    then show ?thesis by (simp add: n)
  next
    case False
    then obtain y ys where ms: "ms = y # ys" by (cases ms) auto
    obtain k v where y: "y = (k, v)" by fastforce
    have "\<exists>ds. join ?sep (map ?r ms) = quote # ds"
      using ms y by (cases ys) (simp_all add: join_Cons json_quote_def)
    then obtain ds where ds: "join ?sep (map ?r ms) = quote # ds" ..
    have len: "length (join ?sep (map ?r ms)) + 2 < m" using JObj.prems(2) False n by (simp add: pad_def)
    have "parse_members m (join ?sep (map ?r ms) @ pad d @ CHR ''}'' # rest) = Some (ms, rest)"
      using JObj.prems False len by (intro members) auto
    moreover obtain k where "m = Suc k" using len by (cases m) auto
    ultimately have "parse_members m (pad (Suc d) @ join ?sep (map ?r ms) @ pad d @ CHR ''}'' # rest) = Some (ms, rest)"
      by (simp only: parse_members_pad)
    then show ?thesis using ds False by (simp add: n)
  qed
qed (simp_all only: pretty.simps parse_render)

end
