(* ===== verification/Export_Document.thy ===== *)
theory Export_Document
  imports Http_Handlers Json_Indent "HOL-Library.List_Lexorder" "HOL-Library.Char_ord"
begin

text \<open>
  The document of \<open>GET /api/export\<close> as it leaves the server, and what \<open>POST /api/import\<close> reads from it
  (\<open>internal/httpserver/handlers_export.go\<close>).
\<close>

section \<open>Writing\<close>

text \<open>The members of the two structs by their tags; the names of a map are sorted.\<close>

definition export_service_json :: "export_service \<Rightarrow> json" where
  "export_service_json es = JObj [(''key'', JStr (es_key es)), (''name'', JStr (es_name es)),
     (''description'', JStr (es_desc es)),
     (''variables'', string_map (sort_key fst (es_vars es)))]"

text \<open>
  \<open>omitempty\<close> has no effect on the time, which is a struct; \<open>time_text\<close> is its text. Without any service
  the slice is nil, which is null.
\<close>

definition export_json :: "(int \<Rightarrow> string) \<Rightarrow> export_doc \<Rightarrow> json" where
  "export_json time_text d = JObj ([(''version'', JNum (FormatInt (ed_version d)))] @
     omit_str ''contour'' (ed_contour d) @ [(''exported_at'', JStr (time_text (ed_at d))),
     (''services'', if ed_services d = [] then JNull else JArr (map export_service_json (ed_services d)))])"

text \<open>\<open>Encode\<close> ends the text with a line feed.\<close>

definition export_text :: "(int \<Rightarrow> string) \<Rightarrow> export_doc \<Rightarrow> string" where
  "export_text time_text d = pretty 0 (export_json time_text d) @ [newline]"

section \<open>What is read back\<close>

text \<open>The same document, each map in the order of its names.\<close>

definition sort_vars :: "export_service \<Rightarrow> export_service" where
  "sort_vars es = es\<lparr>es_vars := sort_key fst (es_vars es)\<rparr>"

definition service_ok :: "export_service \<Rightarrow> bool" where
  "service_ok es \<longleftrightarrow> utf8_valid (es_key es) \<and> utf8_valid (es_name es) \<and> utf8_valid (es_desc es) \<and>
     distinct (map fst (es_vars es)) \<and> (\<forall>(k, v) \<in> set (es_vars es). utf8_valid k \<and> utf8_valid v)"

lemma sort_vars_facts:
  assumes "service_ok es"
  shows "distinct (map fst (es_vars (sort_vars es)))" and "map_of (es_vars (sort_vars es)) = map_of (es_vars es)"
proof -
  let ?s = "sort_key fst (es_vars es)"
  from assms have d: "distinct (map fst (es_vars es))" by (simp add: service_ok_def)
  have m: "mset (map fst ?s) = mset (map fst (es_vars es))" by simp
  with d have "distinct (map fst ?s)" using mset_eq_imp_distinct_iff by blast
  then show "distinct (map fst (es_vars (sort_vars es)))" by (simp add: sort_vars_def)
  have "map_of ?s = map_of (es_vars es)"
    using \<open>distinct (map fst ?s)\<close> d by (intro map_of_inject_set [THEN iffD2]) simp_all
  then show "map_of (es_vars (sort_vars es)) = map_of (es_vars es)" by (simp add: sort_vars_def)
qed

lemma update_new: "k \<notin> fst ` set m \<Longrightarrow> AList.update k v m = m @ [(k, v)]"
  by (induction m) auto

lemma decode_map_texts:
  "distinct (map fst (m @ kvs)) \<Longrightarrow> decode_map (map (\<lambda>(k, v). (k, JStr v)) kvs) m = Some (m @ kvs)"
proof (induction kvs arbitrary: m)
  case (Cons kv kvs)
  obtain k v where kv: "kv = (k, v)" by fastforce
  have "AList.update k v m = m @ [(k, v)]" using Cons.prems kv
    by (intro update_new) auto
  with Cons kv show ?case by (simp add: json_str_def)
qed simp

lemma fold_names_export [simp]:
  "fold_name ''contour'' = ''contour''" "fold_name ''exported_at'' = ''exported_at''"
  "fold_name ''services'' = ''services''" "fold_name ''name'' = ''name''"
  "fold_name ''description'' = ''description''" "fold_name ''variables'' = ''variables''"
  by (simp_all add: fold_name_ascii lower_char_def is_upper_def)

lemma decode_export_service:
  assumes "service_ok es"
  shows "decode_struct False export_service_fields \<lparr>es_key = [], es_name = [], es_desc = [], es_vars = []\<rparr>
     (export_service_json es) = Some (sort_vars es)"
proof -
  have "decode_map (map (\<lambda>(k, v). (k, JStr v)) (sort_key fst (es_vars es))) [] = Some (sort_key fst (es_vars es))"
    using decode_map_texts [of "[]"] sort_vars_facts(1) [OF assms] by (simp add: sort_vars_def)
  then show ?thesis
    by (simp add: decode_struct_def export_service_json_def export_service_fields_def str_field_def map_field_def
        sort_vars_def string_map_def)
qed

lemma decode_elems_map:
  "(\<And>x. x \<in> set xs \<Longrightarrow> f (g x) = Some (h x)) \<Longrightarrow> decode_elems f (map g xs) = Some (map h xs)"
  by (induction xs) auto

definition doc_ok :: "export_doc \<Rightarrow> bool" where
  "doc_ok d \<longleftrightarrow> int64_min \<le> ed_version d \<and> ed_version d \<le> int64_max \<and> utf8_valid (ed_contour d) \<and>
     (\<forall>es \<in> set (ed_services d). service_ok es)"

definition zero_doc :: export_doc where
  "zero_doc = \<lparr>ed_version = 0, ed_contour = [], ed_at = 0, ed_services = []\<rparr>"

lemma decode_export_json:
  assumes "doc_ok d" and "time_of (JStr (time_text (ed_at d))) = Some (ed_at d)"
  shows "decode_struct False (export_doc_fields time_of) zero_doc (export_json time_text d)
     = Some (d\<lparr>ed_services := map sort_vars (ed_services d)\<rparr>)"
proof -
  have version: "ParseInt (FormatInt (ed_version d)) = Some (ed_version d)"
    using assms(1) by (simp add: doc_ok_def ParseInt_FormatInt)
  have "decode_elems (decode_struct False export_service_fields
        \<lparr>es_key = [], es_name = [], es_desc = [], es_vars = []\<rparr>) (map export_service_json (ed_services d))
      = Some (map sort_vars (ed_services d))"
    using assms(1) by (intro decode_elems_map decode_export_service) (simp add: doc_ok_def)
  with version assms(2) show ?thesis
    by (cases d) (simp add: decode_struct_def export_json_def export_doc_fields_def int_field_def str_field_def
        list_field_def omit_str_def zero_doc_def)
qed

lemma export_json_ok:
  assumes "doc_ok d" and "utf8_valid (time_text (ed_at d))"
  shows "json_ok (export_json time_text d)"
proof -
  have names: "utf8_valid ''contour''" "utf8_valid ''exported_at''" "utf8_valid ''services''" "utf8_valid ''name''"
    "utf8_valid ''description''" "utf8_valid ''variables''" by simp_all
  have "json_ok (export_service_json es)" if "service_ok es" for es
    using that names by (auto simp: export_service_json_def string_map_def service_ok_def list_all_iff)
  with assms names show ?thesis
    by (auto simp: export_json_def doc_ok_def list_all_iff num_ok_FormatInt num_char_FormatInt omit_str_def)
qed

text \<open>Reading the text of an export gives the document, unless it is longer than an import may be.\<close>

theorem import_reads_export:
  assumes "doc_ok d" and "utf8_valid (time_text (ed_at d))" and "time_of (JStr (time_text (ed_at d))) = Some (ed_at d)"
    and "hr_body rq = export_text time_text d" and "length (hr_body rq) \<le> max_import"
  shows "decode_import time_of rq = Some (d\<lparr>ed_services := map sort_vars (ed_services d)\<rparr>)"
proof -
  let ?j = "export_json time_text d"
  have "ends [newline]" by (simp add: ends_def num_char_def is_digit_def newline_def)
  from parse_pretty [OF export_json_ok [of d time_text, OF assms(1,2)] _ this, of 0 "Suc (length (hr_body rq))"]
  have "parse_value (Suc (length (hr_body rq))) (hr_body rq) = Some (?j, [newline])"
    by (simp add: assms(4) export_text_def)
  then have "decode_first (take max_import (hr_body rq)) = Some ?j"
    using assms(5) by (simp add: decode_first_def)
  then show ?thesis
    using decode_export_json [of d time_of time_text, OF assms(1,3)] by (simp add: decode_import_def zero_doc_def)
qed

end
