(* ===== verification/Write_Effects.thy ===== *)
theory Write_Effects
  imports Store_Frames Http_Access Grpc_Server
begin

text \<open>
  What a committed write does to the configuration of a service, as the event that announces
  it says; what the snapshot of a stream holds; and which operations leave the NOTIFY channel
  and the variables alone.
\<close>

section \<open>Events as functions on configurations\<close>

definition play :: "event \<Rightarrow> config \<Rightarrow> config" where
  "play ev = apply_msg (change_of ev)"

lemma play_apply: "play ev m k = (if k = ev_key ev
     then (if ev_change_type ev = EvDelete then None else Some (ev_value ev)) else m k)"
  by (simp add: play_def change_of_def)

definition play_all :: "event list \<Rightarrow> config \<Rightarrow> config" where
  "play_all evs m = fold play evs m"

lemma play_all_simps [simp]:
  "play_all [] m = m" "play_all (ev # evs) m = play_all evs (play ev m)"
  "play_all (evs @ evs') m = play_all evs' (play_all evs m)"
  by (simp_all add: play_all_def)

text \<open>What the last event of a key leaves does not depend on what was there before.\<close>

lemma play_all_apply:
  "play_all evs m k = (case find (\<lambda>ev. ev_key ev = k) (rev evs) of None \<Rightarrow> m k
     | Some ev \<Rightarrow> if ev_change_type ev = EvDelete then None else Some (ev_value ev))"
  by (induction evs arbitrary: m) (auto simp: play_apply find_append split: option.split)

text \<open>Events that were played already may come again, in order, without effect.\<close>

lemma play_all_again: "play_all evs (play_all (pre @ evs) m) = play_all (pre @ evs) m"
  by (rule ext) (simp only: play_all_apply rev_append find_append split: option.split, simp split: option.split)

section \<open>Silent programs\<close>

text \<open>Programs that leave the channel alone.\<close>

definition silent :: "'a dbm \<Rightarrow> bool" where
  "silent m \<longleftrightarrow> (\<forall>d. notifs (snd (m d)) = notifs d)"

named_theorems silent

lemma silentD: "silent m \<Longrightarrow> m d = (r, d') \<Longrightarrow> notifs d' = notifs d"
  unfolding silent_def by (drule spec [of _ d]) simp

lemma silent_reads: "reads_only m \<Longrightarrow> silent m"
  by (simp add: silent_def reads_only_def) (metis prod.collapse)

lemma silent_ret [silent]: "silent (ret x)" and silent_throw [silent]: "silent (throw e)"
  by (simp_all add: silent_def)

lemma silent_stmt [silent]: "(\<And>d. notifs (snd (f d)) = notifs d) \<Longrightarrow> silent (stmt f)"
  by (simp add: silent_def stmt_def Let_def split: list.split)

lemma silent_select [silent]: "silent (select g)"
  unfolding select_def by (rule silent_stmt) simp

lemma silent_or_not_found [silent]: "silent (or_not_found x)"
  by (cases x) (simp_all add: silent)

lemma silent_bind [silent]: "silent m \<Longrightarrow> (\<And>x. silent (k x)) \<Longrightarrow> silent (bind m k)"
  unfolding silent_def bind_def
proof
  fix d
  assume m: "\<forall>d. notifs (snd (m d)) = notifs d" and k: "\<And>x. \<forall>d. notifs (snd (k x d)) = notifs d"
  show "notifs (snd (case m d of (Inl e, d') \<Rightarrow> (Inl e, d') | (Inr x, d') \<Rightarrow> k x d')) = notifs d"
    using m [rule_format, of d] k by (cases "m d") (simp split: sum.split)
qed

lemma silent_tx [silent]:
  assumes m: "silent m"
  shows "silent (tx m)"
proof -
  have s: "notifs (snd (select g d)) = notifs d" for g :: "db \<Rightarrow> unit" and d
    using silent_select [of g] by (simp add: silent_def)
  show ?thesis
    unfolding silent_def
  proof
    fix d
    obtain r1 d1 where 1: "select (\<lambda>_. ()) d = (r1, d1)" by fastforce
    obtain r2 d2 where 2: "m d1 = (r2, d2)" by fastforce
    obtain r3 d3 where 3: "select (\<lambda>_. ()) d2 = (r3, d3)" by fastforce
    from s [of "\<lambda>_. ()" d] s [of "\<lambda>_. ()" d2] silentD [OF m 2] 1 3
    have "notifs d1 = notifs d" "notifs d2 = notifs d" "notifs d3 = notifs d" by simp_all
    then show "notifs (snd (tx m d)) = notifs d"
      by (cases r1; cases r2; cases r3) (simp_all add: tx_def 1 2 3)
  qed
qed

lemma silent_if [silent]: "silent a \<Longrightarrow> silent b \<Longrightarrow> silent (if c then a else b)"
  by simp

lemma silent_case_option [silent]:
  "silent a \<Longrightarrow> (\<And>y. silent (b y)) \<Longrightarrow> silent (case x of None \<Rightarrow> a | Some y \<Rightarrow> b y)"
  by (cases x) auto

lemma silent_pieces [silent]:
  "silent (variable_existed sid k)" "silent (nextVersion sid k)" "silent (write_variable sid k v ver who)"
  "silent (insertVersion sid k v ver ct who)" "silent (conn_stmt g)"
  unfolding variable_existed_def nextVersion_def write_variable_def insertVersion_def conn_stmt_def
  by (intro silent; simp add: Let_def split: option.split)+

lemma silent_bodies [silent]:
  "silent (upsert_body sid k v who)" "silent (delete_body sid k who)" "silent (rollback_body sid k n who)"
  unfolding upsert_body_def delete_body_def rollback_body_def Let_def
  by (intro silent; simp)+

lemma silent_GetUser [silent]: "silent (GetUser uid)"
  by (rule silent_reads) simp

lemma silent_bulk [silent]: "silent (bulk_loop sid kv who out)"
  by (induction sid kv who out rule: bulk_loop.induct) (simp_all only: bulk_loop.simps silent)

lemma silent_run_op: "silent (run_op c)"
proof -
  have 1: "silent (ignore_result m)" if "silent m" for m
    unfolding ignore_result_def by (intro silent that)
  show ?thesis
    by (cases c)
      (simp_all only: run_op.simps CreateService_def UpdateServiceTags_def DeleteService_def UpsertVariable_def
        BulkUpsertVariables_def DeleteVariable_def RollbackVariable_def UpsertUserOnLogin_def SetUserRole_def
        SetPermission_def RevokePermission_def AddFavorite_def RemoveFavorite_def CreateAPIToken_def
        DeleteAPIToken_def UserByAPIToken_def touch_token_def SaveTelegramSettings_def InsertAudit_def
        PruneAudit_def RegisterConnection_def conn_ops,
      (intro 1 silent; simp add: Let_def split: option.split)+)
qed
section \<open>Writes and their events\<close>

text \<open>What the writers announce: the first for one variable, the second for the bulk and the import.\<close>

definition write_event :: "service \<Rightarrow> log_cmd \<Rightarrow> var_change \<Rightarrow> event" where
  "write_event svc c ch = var_event svc (case c of Remove _ _ \<Rightarrow> EvDelete | _ \<Rightarrow> EvUpsert) (ch_variable ch)"

definition bulk_events :: "service \<Rightarrow> var_change list \<Rightarrow> event list" where
  "bulk_events svc chs = map (\<lambda>ch. var_event svc EvUpsert (ch_variable ch)) chs"

lemma var_event_sel [simp]:
  "ev_kind (var_event svc ct v) = KindVar" "ev_service_id (var_event svc ct v) = s_id svc"
  "ev_key (var_event svc ct v) = v_key v" "ev_value (var_event svc ct v) = v_value v"
  "ev_change_type (var_event svc ct v) = ct"
  by (simp_all add: var_event_def)

lemma wrote_config:
  assumes "wrote t s sid key val ct now who v t' s'"
  shows "config_of t' a k = (if a = sid \<and> k = key then Some val else config_of t a k)"
proof -
  from assms have v: "is_var sid key v" "v_value v = val"
    and t': "variables_tbl t' = put_row v (variables_tbl t)" by (simp_all add: wrote_def)
  show ?thesis unfolding config_of_def find_variable_def [of t'] t' find_variable_put [OF v(1)] by (simp add: v(2))
qed

lemma removed_config:
  assumes "removed t s sid key old now who ver t' s'"
  shows "config_of t' a k = (if a = sid \<and> k = key then None else config_of t a k)"
proof -
  from assms have t': "variables_tbl t' = filter (\<lambda>v. \<not> is_var sid key v) (variables_tbl t)"
    by (simp add: removed_def)
  show ?thesis unfolding config_of_def find_variable_def [of t'] t' find_variable_removed by simp
qed

lemma wrote_play:
  assumes "wrote t s (s_id svc) key val ct now who v t' s'"
  shows "config_of t' a = (if a = s_id svc then play (var_event svc EvUpsert v) (config_of t a) else config_of t a)"
proof -
  from assms have "v_key v = key" "v_value v = val" by (simp_all add: wrote_def is_var_def)
  then show ?thesis using wrote_config [OF assms, of a] by (auto simp: fun_eq_iff play_apply)
qed

lemma tx_InrE':
  assumes "tx m d = (Inr x, d')"
  obtains d1 d2 where "tbl d1 = tbl d" and "seqs d1 = seqs d" and "m d1 = (Inr x, d2)" and "tbl d' = tbl d2"
proof -
  from assms obtain fs d2 fs' where "m (d\<lparr>faults := fs\<rparr>) = (Inr x, d2)" and "d' = d2\<lparr>faults := fs'\<rparr>"
    by (rule tx_InrE)
  then show ?thesis using that [of "d\<lparr>faults := fs\<rparr>" d2] by simp
qed

lemma exec_cmd_config:
  assumes "exec_cmd (s_id svc) c d = (Inr ch, d')"
  shows "config_of (tbl d') a =
     (if a = s_id svc then play (write_event svc c ch) (config_of (tbl d) a) else config_of (tbl d) a)"
proof (cases c)
  case (Put k v who)
  with assms have "tx (upsert_body (s_id svc) k v who) d = (Inr ch, d')" by (simp add: UpsertVariable_def)
  then obtain d1 d2 where 1: "tbl d1 = tbl d" "upsert_body (s_id svc) k v who d1 = (Inr ch, d2)" "tbl d' = tbl d2"
    by (rule tx_InrE')
  from upsert_body_wrote [OF 1(2)] have "wrote (tbl d1) (seqs d1) (s_id svc) k v (ch_type ch) (clock d1) who
      (ch_variable ch) (tbl d2) (seqs d2)" by (elim conjE)
  from wrote_play [OF this, of a] Put 1 show ?thesis by (simp add: write_event_def)
next
  case (Remove k who)
  with assms have "tx (delete_body (s_id svc) k who) d = (Inr ch, d')" by (simp add: DeleteVariable_def)
  then obtain d1 d2 where 1: "tbl d1 = tbl d" "delete_body (s_id svc) k who d1 = (Inr ch, d2)" "tbl d' = tbl d2"
    by (rule tx_InrE')
  from delete_body_removed [OF 1(2)] obtain old where
    "removed (tbl d1) (seqs d1) (s_id svc) k old (clock d1) who (v_version (ch_variable ch)) (tbl d2) (seqs d2)"
    and "v_key (ch_variable ch) = k" by (auto simp: is_var_def)
  with removed_config [OF this(1), of a] Remove 1 show ?thesis
    by (auto simp: write_event_def fun_eq_iff play_apply)
next
  case (Rollback k n who)
  with assms have "tx (rollback_body (s_id svc) k n who) d = (Inr ch, d')" by (simp add: RollbackVariable_def)
  then obtain d1 d2 where 1: "tbl d1 = tbl d" "rollback_body (s_id svc) k n who d1 = (Inr ch, d2)" "tbl d' = tbl d2"
    by (rule tx_InrE')
  from rollback_body_wrote [OF 1(2)] obtain old :: variable_version where "wrote (tbl d1) (seqs d1) (s_id svc) k (vv_value old)
      ChangeRollback (clock d1) who (ch_variable ch) (tbl d2) (seqs d2)" by (elim exE conjE) (rule that)
  from wrote_play [OF this, of a] Rollback 1 show ?thesis by (simp add: write_event_def)
qed

lemma bulk_loop_config:
  "bulk_loop sid kv who out d = (Inr chs, d') \<Longrightarrow> sid = s_id svc \<Longrightarrow> \<exists>chs'. chs = out @ chs' \<and>
     config_of (tbl d') a = (if a = s_id svc then play_all (bulk_events svc chs') (config_of (tbl d) a)
       else config_of (tbl d) a)"
proof (induction sid kv who out arbitrary: d rule: bulk_loop.induct)
  case (1 sid who out)
  then show ?case by (simp add: bulk_events_def)
next
  case (2 sid key val kv who out)
  from "2.prems"(1) obtain ch d1 where one: "upsert_body sid key val who d = (Inr ch, d1)"
    and rest: "bulk_loop sid kv who (out @ [ch]) d1 = (Inr chs, d')"
    by (auto elim: bind_InrE)
  from upsert_body_wrote [OF one] "2.prems"(2) have "wrote (tbl d) (seqs d) (s_id svc) key val (ch_type ch) (clock d) who
      (ch_variable ch) (tbl d1) (seqs d1)" by (elim conjE) (simp only:)
  from wrote_play [OF this, of a] "2.IH" [OF rest "2.prems"(2)] show ?case
    by (auto simp: bulk_events_def split: if_splits)
qed

lemma BulkUpsertVariables_config:
  assumes "BulkUpsertVariables (s_id svc) kv who d = (Inr chs, d')"
  shows "config_of (tbl d') a = (if a = s_id svc then play_all (bulk_events svc chs) (config_of (tbl d) a)
     else config_of (tbl d) a)"
proof -
  from assms obtain d1 d2 where 1: "tbl d1 = tbl d" "bulk_loop (s_id svc) kv who [] d1 = (Inr chs, d2)" "tbl d' = tbl d2"
    unfolding BulkUpsertVariables_def by (rule tx_InrE')
  from bulk_loop_config [OF 1(2) refl, of a] 1 show ?thesis by simp
qed

section \<open>The snapshot\<close>

lemma put_variables_apply:
  "fold (\<lambda>v m. m(pb_key v \<mapsto> pb_value v)) vs m k =
     (case find (\<lambda>v. pb_key v = k) (rev vs) of None \<Rightarrow> m k | Some v \<Rightarrow> Some (pb_value v))"
  by (induction vs arbitrary: m) (auto simp: find_append split: option.split)

lemma find_mem_unique:
  assumes "distinct (map g xs)" and "x \<in> set xs" and "g x = k"
  shows "find (\<lambda>x. g x = k) xs = Some x"
  using assms by (induction xs) auto

lemma snapshot_config:
  assumes "vars_inv (tbl d)" and "ListVariables sid d = (Inr vs, d')"
  shows "put_variables (map pb_of_variable vs) = config_of (tbl d) sid"
proof
  fix k
  let ?rows = "filter (\<lambda>v. v_service v = sid) (variables_tbl (tbl d))"
  from assms(2) have vs: "set vs = set ?rows" and mvs: "distinct (map v_key vs) = distinct (map v_key ?rows)"
    unfolding ListVariables_def by (auto elim!: select_InrE)
  have "distinct (map (\<lambda>v. (v_service v, v_key v)) ?rows)"
    using assms(1) by (simp add: vars_inv_def distinct_map_filter)
  then have "distinct (map v_key ?rows)"
    by (auto simp: distinct_map inj_on_def)
  with mvs have dist: "distinct (map v_key (rev vs))" by (simp add: rev_map [symmetric])
  have find: "find (\<lambda>v. v_key v = k) (rev vs) = find_variable (tbl d) sid k"
  proof (cases "find_variable (tbl d) sid k")
    case None
    then have "\<forall>v \<in> set ?rows. v_key v \<noteq> k"
      by (auto simp: find_variable_def find_eq_None is_var_def)
    then have "find (\<lambda>v. v_key v = k) (rev vs) = None" unfolding find_eq_None set_rev vs .
    with None show ?thesis by (simp only:)
  next
    case (Some v)
    then have "v \<in> set ?rows" and key: "v_key v = k"
      by (auto simp: find_variable_def is_var_def dest!: find_SomeD)
    then have "v \<in> set (rev vs)" unfolding set_rev vs by (simp only:)
    from find_mem_unique [OF dist this key] Some show ?thesis by (simp only:)
  qed
  have key: "pb_key (pb_of_variable v) = v_key v" "pb_value (pb_of_variable v) = v_value v" for v
    by (simp_all add: pb_of_variable_def)
  have "find (\<lambda>v. pb_key v = k) (rev (map pb_of_variable vs)) = map_option pb_of_variable (find_variable (tbl d) sid k)"
    by (simp only: rev_map find_map comp_def key find)
  then show "put_variables (map pb_of_variable vs) k = config_of (tbl d) sid k"
    unfolding put_variables_def put_variables_apply config_of_def
    by (cases "find_variable (tbl d) sid k") (simp_all add: key)
qed

end
