(* ===== verification/Export_Import.thy ===== *)
theory Export_Import
  imports Export_Document Http_Writes Write_Effects
begin

text \<open>
  \<open>GET /api/export\<close> and \<open>POST /api/import\<close> as a whole: what an export holds of the database, what an
  import makes of a database, and that an import of an export brings the exported configurations.
\<close>

section \<open>Importing\<close>

definition importable :: "(string \<times> string) list \<Rightarrow> config" where
  "importable kvs = map_of kvs |` {k. keyRe k}"

lemma upsert_succeeds:
  assumes "faults d = []" and "service_exists (tbl d) sid"
  shows "\<exists>ch d'. UpsertVariable sid k v who d = (Inr ch, d')"
proof -
  have "\<exists>ch. fst (UpsertVariable sid k v who d) = Inr ch"
    using assms by (simp add: UpsertVariable_def upsert_body_def variable_existed_def nextVersion_def
        write_variable_def insertVersion_def run_simps Let_def nextval_def with_tbl_def split: option.splits)
  then show ?thesis by (metis prod.collapse)
qed

text \<open>One variable: it is current afterwards, nothing else of any service changes, and the announcement
  leaves the tables alone.\<close>

definition calm_inv :: "world \<Rightarrow> bool" where
  "calm_inv w \<longleftrightarrow> faults (w_db w) = [] \<and> store_inv (tbl (w_db w)) (seqs (w_db w))"

lemma import_one:
  assumes "calm_inv w" and "service_exists (tbl (w_db w)) (s_id svc)"
  obtains ch w1 where
    "call_or e (UpsertVariable (s_id svc) k v who) w = (Inr ch, w1)"
    "publishVar (Some svc) EvUpsert (ch_variable ch) w1 = (Inr (), snd (publishVar (Some svc) EvUpsert (ch_variable ch) w1))"
    "calm_inv (snd (publishVar (Some svc) EvUpsert (ch_variable ch) w1))"
    "services_tbl (tbl (w_db (snd (publishVar (Some svc) EvUpsert (ch_variable ch) w1)))) = services_tbl (tbl (w_db w))"
    "\<And>a. config_of (tbl (w_db (snd (publishVar (Some svc) EvUpsert (ch_variable ch) w1)))) a =
       (if a = s_id svc then (config_of (tbl (w_db w)) a)(k \<mapsto> v) else config_of (tbl (w_db w)) a)"
proof -
  from upsert_succeeds [of "w_db w" "s_id svc" k v who] assms obtain ch d'
    where up: "UpsertVariable (s_id svc) k v who (w_db w) = (Inr ch, d')" by (auto simp: calm_inv_def)
  then have cmd: "exec_cmd (s_id svc) (Put k v who) (w_db w) = (Inr ch, d')" by simp
  note wrote = exec_cmd_wrote [OF cmd]
  have "preserves store_inv (UpsertVariable (s_id svc) k v who)" by (rule pres)
  from preservesD [OF this up] assms(1) have inv: "store_inv (tbl d') (seqs d')" by (simp add: calm_inv_def)
  have calm: "faults d' = []" using wrote(5) assms(1) by (simp add: calm_inv_def)
  let ?w1 = "w\<lparr>w_db := d'\<rparr>" and ?ev = "var_event svc EvUpsert (ch_variable ch)"
  have pub: "publishVar (Some svc) EvUpsert (ch_variable ch) ?w1 = (Inr (), ?w1\<lparr>w_db := snd (Publish ?ev d')\<rparr>)"
    by (simp add: publishVar_def wbind_def call_run wret_def)
  obtain r2 d2 where p: "Publish ?ev d' = (r2, d2)" by fastforce
  then have d2: "tbl d2 = tbl d'" "seqs d2 = seqs d'" by (auto elim: Publish_cases)
  from p calm have "faults d2 = []" by (auto simp: Publish_def pg_notify_def stmt_run split: if_splits)
  have change: "v_key (ch_variable ch) = k" "v_value (ch_variable ch) = v"
    using UpsertVariable_wrote [OF up] by (auto simp: wrote_def is_var_def)
  have conf: "config_of (tbl d') a =
      (if a = s_id svc then (config_of (tbl (w_db w)) a)(k \<mapsto> v) else config_of (tbl (w_db w)) a)" for a
    using exec_cmd_config [OF cmd, of a] by (auto simp: write_event_def play_apply change fun_eq_iff)
  show ?thesis
  proof (rule that [of ch ?w1])
    show "call_or e (UpsertVariable (s_id svc) k v who) w = (Inr ch, ?w1)"
      by (simp add: call_or_def wbind_def call_run up wret_def)
  qed (use pub p d2 inv \<open>faults d2 = []\<close> wrote(2) conf in \<open>simp_all add: calm_inv_def\<close>)
qed

lemma import_variables_effect:
  "calm_inv w \<Longrightarrow> service_exists (tbl (w_db w)) (s_id svc) \<Longrightarrow> distinct (map fst kvs) \<Longrightarrow>
   \<exists>w'. import_variables svc skey kvs who res w =
       (Inr (res\<lparr>variables_imported := variables_imported res + length (filter (\<lambda>kv. keyRe (fst kv)) kvs)\<rparr>), w') \<and>
     calm_inv w' \<and> services_tbl (tbl (w_db w')) = services_tbl (tbl (w_db w)) \<and>
     (\<forall>a. config_of (tbl (w_db w')) a =
       (if a = s_id svc then config_of (tbl (w_db w)) a ++ importable kvs else config_of (tbl (w_db w)) a))"
proof (induction kvs arbitrary: w res)
  case Nil
  then show ?case by (simp add: wret_def importable_def)
next
  case (Cons kv kvs)
  obtain k v where kv: "kv = (k, v)" by fastforce
  show ?case
  proof (cases "keyRe k")
    case False
    then have same: "importable (kv # kvs) = importable kvs"
      "filter (\<lambda>kv. keyRe (fst kv)) (kv # kvs) = filter (\<lambda>kv. keyRe (fst kv)) kvs"
      "import_variables svc skey (kv # kvs) who res w = import_variables svc skey kvs who res w"
      by (simp_all add: kv importable_def restrict_map_def fun_eq_iff)
    have "distinct (map fst kvs)" using Cons.prems(3) by simp
    from Cons.IH [OF Cons.prems(1,2) this] show ?thesis unfolding same .
  next
    case True
    let ?e = "writeErr 500 (''failed importing '' @ skey @ ''/'' @ k)"
    from import_one [OF Cons.prems(1,2), of ?e k v who] obtain ch w1 w2 where
      up: "call_or ?e (UpsertVariable (s_id svc) k v who) w = (Inr ch, w1)" and
      pub: "publishVar (Some svc) EvUpsert (ch_variable ch) w1 = (Inr (), w2)" and
      w2: "calm_inv w2" "services_tbl (tbl (w_db w2)) = services_tbl (tbl (w_db w))" and
      conf: "\<And>a. config_of (tbl (w_db w2)) a =
         (if a = s_id svc then (config_of (tbl (w_db w)) a)(k \<mapsto> v) else config_of (tbl (w_db w)) a)"
      by metis
    let ?res = "res\<lparr>variables_imported := variables_imported res + 1\<rparr>"
    have run: "import_variables svc skey (kv # kvs) who res w = import_variables svc skey kvs who ?res w2"
      using up pub True by (simp add: kv wbind_def)
    have ex: "service_exists (tbl (w_db w2)) (s_id svc)"
      using Cons.prems(2) w2(2) service_exists_cong [of "tbl (w_db w2)" "tbl (w_db w)"] by simp
    have "distinct (map fst kvs)" and new: "map_of kvs k = None"
      using Cons.prems(3) kv by (auto simp: map_of_eq_None_iff)
    from Cons.IH [OF w2(1) ex this(1), of ?res] obtain w' where
      w': "import_variables svc skey kvs who ?res w2 =
         (Inr (?res\<lparr>variables_imported := variables_imported ?res + length (filter (\<lambda>kv. keyRe (fst kv)) kvs)\<rparr>), w')"
        "calm_inv w'" "services_tbl (tbl (w_db w')) = services_tbl (tbl (w_db w2))"
        "\<forall>a. config_of (tbl (w_db w')) a =
          (if a = s_id svc then config_of (tbl (w_db w2)) a ++ importable kvs else config_of (tbl (w_db w2)) a)"
      by blast
    have "m(k \<mapsto> v) ++ importable kvs = m ++ importable (kv # kvs)" for m
      using True new by (auto simp: kv importable_def fun_eq_iff map_add_def restrict_map_def split: option.split)
    with w' w2 conf True show ?thesis unfolding run by (intro exI [of _ w']) (simp add: kv)
  qed
qed


text \<open>Finding or creating the service.\<close>

lemma new_service_empty:
  assumes "store_inv t s" and "\<not> service_exists t sid"
  shows "config_of t sid = Map.empty"
proof -
  have "\<forall>v \<in> set (variables_tbl t). service_exists t (v_service v)"
    using assms(1) by (simp add: store_inv_def vars_inv_def)
  with assms(2) have "find_variable t sid k = None" for k
    by (auto simp: find_variable_def find_eq_None is_var_def)
  then show ?thesis by (simp add: config_of_def fun_eq_iff)
qed

definition config_named :: "tables \<Rightarrow> string \<Rightarrow> config" where
  "config_named t key = (case find_service_key t key of None \<Rightarrow> Map.empty | Some svc \<Rightarrow> config_of t (s_id svc))"

lemma calm_services: "calm_inv w \<Longrightarrow> services_inv (tbl (w_db w)) (seqs (w_db w))"
  by (simp add: calm_inv_def store_inv_def)

lemma import_service_effect:
  assumes "calm_inv w"
  shows "\<exists>svc res' w'. import_service es who res w = (Inr (svc, res'), w') \<and> calm_inv w' \<and>
     services_created res' + services_existing res' = services_created res + services_existing res + 1 \<and>
     variables_imported res' = variables_imported res \<and>
     find_service_key (tbl (w_db w')) (es_key es) = Some svc \<and> config_of (tbl (w_db w')) = config_of (tbl (w_db w)) \<and>
     config_of (tbl (w_db w')) (s_id svc) = config_named (tbl (w_db w)) (es_key es) \<and>
     (\<forall>k. k \<noteq> es_key es \<longrightarrow> find_service_key (tbl (w_db w')) k = find_service_key (tbl (w_db w)) k) \<and>
     (case find_service_key (tbl (w_db w)) (es_key es) of
        Some old \<Rightarrow> svc = old
      | None \<Rightarrow> s_name svc = (if es_name es = [] then es_key es else es_name es) \<and> s_desc svc = es_desc es)"
proof -
  have calm: "faults (w_db w) = []" using assms by (simp add: calm_inv_def)
  have inv: "store_inv (tbl (w_db w)) (seqs (w_db w))" using assms by (simp add: calm_inv_def)
  show ?thesis
  proof (cases "find_service_key (tbl (w_db w)) (es_key es)")
    case (Some svc)
    then have "GetServiceByKey (es_key es) (w_db w) = (Inr svc, w_db w)"
      using calm by (simp add: GetServiceByKey_def run_simps find_service_key_def)
    then have "import_service es who res w = (Inr (svc, res\<lparr>services_existing := services_existing res + 1\<rparr>), w)"
      by (simp add: import_service_def wbind_def call_run wret_def)
    with Some assms show ?thesis
      by (intro exI [of _ svc] exI [of _ "res\<lparr>services_existing := services_existing res + 1\<rparr>"] exI [of _ w])
        (simp add: config_named_def)
  next
    case None
    then have get: "GetServiceByKey (es_key es) (w_db w) = (Inl ErrNotFound, w_db w)"
      using calm by (simp add: GetServiceByKey_def run_simps find_service_key_def or_not_found_def)
    let ?name = "if es_name es = [] then es_key es else es_name es"
    obtain r d' where made: "CreateService (es_key es) ?name (es_desc es) who (w_db w) = (r, d')" by fastforce
    have "\<exists>svc. r = Inr svc" "faults d' = []"
      using made calm None by (auto simp: CreateService_def stmt_run Let_def with_tbl_def nextval_def)
    then obtain svc where svc: "r = Inr svc" by blast
    note new = CreateService_result [OF made [unfolded svc]]
    have "preserves store_inv (CreateService (es_key es) ?name (es_desc es) who)" by (rule pres)
    from preservesD [OF this made inv] have inv': "store_inv (tbl d') (seqs d')" by simp
    have key: "find_service_key (tbl d') k = (if k = es_key es then Some svc else find_service_key (tbl (w_db w)) k)" for k
      using new None by (auto simp: find_service_key_def find_append split: option.split)
    have conf: "config_of (tbl d') = config_of (tbl (w_db w))"
      using new by (simp add: config_of_def find_variable_def fun_eq_iff)
    have "\<not> service_exists (tbl (w_db w)) (s_id svc)"
      using calm_services [OF assms] new by (auto simp: service_exists_iff services_inv_def)
    from new_service_empty [OF inv this]
    have empty: "config_of (tbl (w_db w)) (s_id svc) = config_named (tbl (w_db w)) (es_key es)"
      by (simp add: config_named_def None)
    have "import_service es who res w =
        (Inr (svc, res\<lparr>services_created := services_created res + 1\<rparr>), w\<lparr>w_db := d'\<rparr>)"
      by (simp add: import_service_def wbind_def call_run wret_def get call_or_def made svc)
    then show ?thesis using inv' \<open>faults d' = []\<close> key conf empty new None
      by (intro exI [of _ svc] exI [of _ "res\<lparr>services_created := services_created res + 1\<rparr>"] exI [of _ "w\<lparr>w_db := d'\<rparr>"])
        (simp add: calm_inv_def)
  qed
qed

text \<open>One service with its variables, seen by keys.\<close>

lemma keys_ids:
  assumes "services_inv t s" and "find_service_key t k = Some a" and "find_service_key t k' = Some b" and "k \<noteq> k'"
  shows "s_id a \<noteq> s_id b"
proof -
  from assms have "a \<in> set (services_tbl t)" "s_key a = k" "b \<in> set (services_tbl t)" "s_key b = k'"
    by (simp_all add: find_service_key_Some)
  moreover have "inj_on s_id (set (services_tbl t))"
    using assms(1) by (simp add: services_inv_def distinct_map)
  ultimately show ?thesis using assms(4) by (metis inj_onD)
qed

definition brought :: "export_service \<Rightarrow> tables \<Rightarrow> tables \<Rightarrow> bool" where
  "brought es t t' \<longleftrightarrow> config_named t' (es_key es) = config_named t (es_key es) ++ importable (es_vars es) \<and>
     (\<exists>svc. find_service_key t' (es_key es) = Some svc \<and>
        (case find_service_key t (es_key es) of Some old \<Rightarrow> svc = old
         | None \<Rightarrow> s_name svc = (if es_name es = [] then es_key es else es_name es) \<and> s_desc svc = es_desc es))"

definition untouched :: "string \<Rightarrow> tables \<Rightarrow> tables \<Rightarrow> bool" where
  "untouched k t t' \<longleftrightarrow> find_service_key t' k = find_service_key t k \<and> config_named t' k = config_named t k"

definition good_names :: "(string \<times> string) list \<Rightarrow> nat" where
  "good_names kvs = length (filter (\<lambda>kv. keyRe (fst kv)) kvs)"

lemma import_step:
  assumes "calm_inv w" and "distinct (map fst (es_vars es))"
  shows "\<exists>res' w'. wbind (import_service es who res) (\<lambda>(svc, res1).
       import_variables svc (es_key es) (es_vars es) who res1) w = (Inr res', w') \<and> calm_inv w' \<and>
     services_created res' + services_existing res' = services_created res + services_existing res + 1 \<and>
     variables_imported res' = variables_imported res + good_names (es_vars es) \<and>
     brought es (tbl (w_db w)) (tbl (w_db w')) \<and>
     (\<forall>k. k \<noteq> es_key es \<longrightarrow> untouched k (tbl (w_db w)) (tbl (w_db w')))"
proof -
  from import_service_effect [OF assms(1), of es who res] obtain svc res1 w1 where
    1: "import_service es who res w = (Inr (svc, res1), w1)" "calm_inv w1"
      "services_created res1 + services_existing res1 = services_created res + services_existing res + 1"
      "variables_imported res1 = variables_imported res"
      "find_service_key (tbl (w_db w1)) (es_key es) = Some svc" "config_of (tbl (w_db w1)) = config_of (tbl (w_db w))"
      "config_of (tbl (w_db w1)) (s_id svc) = config_named (tbl (w_db w)) (es_key es)"
      "\<forall>k. k \<noteq> es_key es \<longrightarrow> find_service_key (tbl (w_db w1)) k = find_service_key (tbl (w_db w)) k"
    and row: "case find_service_key (tbl (w_db w)) (es_key es) of Some old \<Rightarrow> svc = old
      | None \<Rightarrow> s_name svc = (if es_name es = [] then es_key es else es_name es) \<and> s_desc svc = es_desc es"
    by (elim exE conjE) (rule that)
  note inv1 = calm_services [OF 1(2)]
  from 1(5) inv1 have "service_exists (tbl (w_db w1)) (s_id svc)"
    by (auto simp: find_service_key_Some service_exists_iff)
  from import_variables_effect [OF 1(2) this assms(2), of "es_key es" who res1] obtain w2 where
    2: "import_variables svc (es_key es) (es_vars es) who res1 w1 =
        (Inr (res1\<lparr>variables_imported := variables_imported res1 + good_names (es_vars es)\<rparr>), w2)" "calm_inv w2"
      "services_tbl (tbl (w_db w2)) = services_tbl (tbl (w_db w1))"
      "\<And>a. config_of (tbl (w_db w2)) a = (if a = s_id svc then config_of (tbl (w_db w1)) a ++ importable (es_vars es)
         else config_of (tbl (w_db w1)) a)"
    unfolding good_names_def by blast
  have key2: "find_service_key (tbl (w_db w2)) k = find_service_key (tbl (w_db w1)) k" for k
    by (simp add: find_service_key_def 2(3))
  have "brought es (tbl (w_db w)) (tbl (w_db w2))"
    using row 1(5,7) 2(4) by (simp add: brought_def config_named_def key2)
  moreover have "untouched k (tbl (w_db w)) (tbl (w_db w2))" if "k \<noteq> es_key es" for k
  proof -
    have same: "find_service_key (tbl (w_db w2)) k = find_service_key (tbl (w_db w)) k" using that 1(8) key2 by simp
    show ?thesis
    proof (cases "find_service_key (tbl (w_db w)) k")
      case None
      with same show ?thesis by (simp add: untouched_def config_named_def)
    next
      case (Some other)
      with same key2 have "find_service_key (tbl (w_db w1)) k = Some other" by simp
      from keys_ids [OF inv1 this 1(5) that] have "s_id other \<noteq> s_id svc" .
      with Some same 2(4) 1(6) show ?thesis by (simp add: untouched_def config_named_def)
    qed
  qed
  ultimately show ?thesis using 1(1,3,4) 2(1,2)
    by (intro exI [of _ "res1\<lparr>variables_imported := variables_imported res1 + good_names (es_vars es)\<rparr>"] exI [of _ w2])
      (simp add: wbind_def)
qed

lemma import_services_effect:
  "calm_inv w \<Longrightarrow> \<forall>es \<in> set ess. es_key es \<noteq> [] \<and> distinct (map fst (es_vars es)) \<Longrightarrow> distinct (map es_key ess) \<Longrightarrow>
   \<exists>res' w'. import_services ess who res w = (Inr res', w') \<and> calm_inv w' \<and>
     services_created res' + services_existing res' = services_created res + services_existing res + length ess \<and>
     variables_imported res' = variables_imported res + (\<Sum>es\<leftarrow>ess. good_names (es_vars es)) \<and>
     (\<forall>es \<in> set ess. brought es (tbl (w_db w)) (tbl (w_db w'))) \<and>
     (\<forall>k. k \<notin> es_key ` set ess \<longrightarrow> untouched k (tbl (w_db w)) (tbl (w_db w')))"
proof (induction ess arbitrary: w res)
  case Nil
  then show ?case by (simp add: wret_def untouched_def)
next
  case (Cons es ess)
  have es: "es_key es \<noteq> []" "distinct (map fst (es_vars es))" using Cons.prems(2) by simp_all
  from import_step [OF Cons.prems(1) es(2), of who res] obtain res1 w1 where
    1: "wbind (import_service es who res) (\<lambda>(svc, res1). import_variables svc (es_key es) (es_vars es) who res1) w
        = (Inr res1, w1)" "calm_inv w1"
      "services_created res1 + services_existing res1 = services_created res + services_existing res + 1"
      "variables_imported res1 = variables_imported res + good_names (es_vars es)"
      "brought es (tbl (w_db w)) (tbl (w_db w1))"
      "\<And>k. k \<noteq> es_key es \<Longrightarrow> untouched k (tbl (w_db w)) (tbl (w_db w1))"
    by blast
  have rest: "\<forall>es \<in> set ess. es_key es \<noteq> [] \<and> distinct (map fst (es_vars es))" "distinct (map es_key ess)"
    and new: "es_key es \<notin> es_key ` set ess" using Cons.prems(2,3) by simp_all
  from Cons.IH [OF 1(2) rest, of res1] obtain res2 w2 where
    2: "import_services ess who res1 w1 = (Inr res2, w2)" "calm_inv w2"
      "services_created res2 + services_existing res2 = services_created res1 + services_existing res1 + length ess"
      "variables_imported res2 = variables_imported res1 + (\<Sum>es\<leftarrow>ess. good_names (es_vars es))"
      "\<And>es. es \<in> set ess \<Longrightarrow> brought es (tbl (w_db w1)) (tbl (w_db w2))"
      "\<And>k. k \<notin> es_key ` set ess \<Longrightarrow> untouched k (tbl (w_db w1)) (tbl (w_db w2))"
    by blast
  have run: "import_services (es # ess) who res w = (Inr res2, w2)"
    using 1(1) 2(1) es(1) by (auto simp: wbind_def split: prod.splits sum.splits)
  have b1: "brought es (tbl (w_db w)) (tbl (w_db w2))"
    using 1(5) 2(6) [OF new] by (simp add: brought_def untouched_def)
  have b2: "brought x (tbl (w_db w)) (tbl (w_db w2))" if "x \<in> set ess" for x
  proof -
    have "es_key x \<noteq> es_key es" using that new by (metis imageI)
    from 1(6) [OF this] 2(5) [OF that] show ?thesis by (simp add: brought_def untouched_def)
  qed
  have "untouched k (tbl (w_db w)) (tbl (w_db w2))" if "k \<notin> es_key ` set (es # ess)" for k
    using that 1(6) [of k] 2(6) [of k] by (simp add: untouched_def)
  then show ?case using run 1(3,4) 2(2,3,4) b1 b2 by (intro exI [of _ res2] exI [of _ w2]) simp
qed

section \<open>Exporting\<close>

definition vars_of :: "db \<Rightarrow> int \<Rightarrow> variable list" where
  "vars_of d sid = sort_by (\<lambda>a b. collate d (v_key a) (v_key b)) (filter (\<lambda>v. v_service v = sid) (variables_tbl (tbl d)))"

definition export_row :: "db \<Rightarrow> service \<Rightarrow> export_service" where
  "export_row d svc = export_of svc (vars_of d (s_id svc))"

lemma export_services_run:
  "faults (w_db w) = [] \<Longrightarrow> export_services svcs w = (Inr (map (export_row (w_db w)) svcs), w)"
proof (induction svcs)
  case (Cons svc svcs)
  have "ListVariables (s_id svc) (w_db w) = (Inr (vars_of (w_db w) (s_id svc)), w_db w)"
    using Cons.prems by (simp add: ListVariables_def run_simps vars_of_def)
  with Cons show ?case by (simp add: wbind_def call_or_def call_run wret_def export_row_def)
qed (simp add: wret_def)

lemma export_vars_map:
  "map_of (fold (\<lambda>v m. AList.update (v_key v) (v_value v) m) vars m) = fold (\<lambda>v m. m(v_key v \<mapsto> v_value v)) vars (map_of m)"
  "distinct (map fst m) \<Longrightarrow> distinct (map fst (fold (\<lambda>v m. AList.update (v_key v) (v_value v) m) vars m))"
  by (induction vars arbitrary: m) (simp_all add: update_conv' distinct_update)

lemma export_row_config:
  assumes "vars_inv (tbl d)" and "faults d = []"
  shows "map_of (es_vars (export_row d svc)) = config_of (tbl d) (s_id svc)"
proof -
  have "ListVariables (s_id svc) d = (Inr (vars_of d (s_id svc)), d)"
    using assms(2) by (simp add: ListVariables_def run_simps vars_of_def)
  from snapshot_config [OF assms(1) this]
  have "fold (\<lambda>v m. m(v_key v \<mapsto> v_value v)) (vars_of d (s_id svc)) Map.empty = config_of (tbl d) (s_id svc)"
    by (simp add: put_variables_def pb_of_variable_def fold_map comp_def)
  then show ?thesis by (simp add: export_row_def export_of_def export_vars_map)
qed

text \<open>The texts of a database in UTF-8 are valid.\<close>

definition texts_ok :: "tables \<Rightarrow> bool" where
  "texts_ok t \<longleftrightarrow> (\<forall>svc \<in> set (services_tbl t). utf8_valid (s_key svc) \<and> utf8_valid (s_name svc) \<and> utf8_valid (s_desc svc)) \<and>
     (\<forall>v \<in> set (variables_tbl t). utf8_valid (v_key v) \<and> utf8_valid (v_value v))"

lemma set_export_vars:
  "set (fold (\<lambda>v m. AList.update (v_key v) (v_value v) m) vars m) \<subseteq> set m \<union> (\<lambda>v. (v_key v, v_value v)) ` set vars"
proof (induction vars arbitrary: m)
  case (Cons v vars)
  have "set (AList.update k x m) \<subseteq> insert (k, x) (set m)" for k x and m :: "(string \<times> string) list"
    by (induction m) auto
  with Cons [of "AList.update (v_key v) (v_value v) m"] show ?case by fastforce
qed simp

lemma export_row_ok:
  assumes "texts_ok (tbl d)" and "svc \<in> set (services_tbl (tbl d))"
  shows "service_ok (export_row d svc)"
proof -
  have "set (vars_of d (s_id svc)) \<subseteq> set (variables_tbl (tbl d))" by (auto simp: vars_of_def)
  with set_export_vars [of "vars_of d (s_id svc)" "[]"] assms(1)
  have "\<forall>(k, v) \<in> set (es_vars (export_row d svc)). utf8_valid k \<and> utf8_valid v"
    by (fastforce simp: export_row_def export_of_def texts_ok_def)
  moreover have "distinct (map fst (es_vars (export_row d svc)))"
    by (simp add: export_row_def export_of_def export_vars_map)
  ultimately show ?thesis using assms by (simp add: service_ok_def export_row_def export_of_def texts_ok_def)
qed

definition listed :: "db \<Rightarrow> service list" where
  "listed d = sort_by (\<lambda>a b. collate d (s_name a) (s_name b)) (services_tbl (tbl d))"

lemma export_document:
  assumes "run_web (handleExport cfg rq) w = (r, w')" and "rs_body r = ExportBody d" and "faults (w_db w) = []"
  shows "d = \<lparr>ed_version = 1, ed_contour = hc_contour cfg, ed_at = clock (w_db w),
     ed_services = map (export_row (w_db w)) (listed (w_db w))\<rparr>"
proof -
  have "ListServices (w_db w) = (Inr (listed (w_db w)), w_db w)"
    using assms(3) by (simp add: ListServices_def run_simps listed_def)
  then show ?thesis
    using assms export_services_run [OF assms(3)]
    by (auto simp: run_web_def handleExport_def requireAdmin_def requireUser_def wbind_def or_respond_def call_or_def
        call_run wret_def respond_def get_world_def writeJSON_def writeErr_def unauthenticated_def
        split: option.splits if_splits prod.splits)
qed

text \<open>The record of the import in the audit log leaves the services as they are.\<close>

lemma recorded_keeps:
  "brought es t (tbl (w_db (Record a b c ds w))) \<longleftrightarrow> brought es t (tbl (w_db w))"
  "untouched k t (tbl (w_db (Record a b c ds w))) \<longleftrightarrow> untouched k t (tbl (w_db w))"
proof -
  let ?t = "tbl (w_db w)" and ?t' = "tbl (w_db (Record a b c ds w))"
  obtain x d' where "InsertAudit a b c ds (w_db w) = (x, d')" by fastforce
  moreover have "w_db (Record a b c ds w) = snd (InsertAudit a b c ds (w_db w))" by simp
  ultimately have same: "services_tbl ?t' = services_tbl ?t" "variables_tbl ?t' = variables_tbl ?t"
    by (auto elim: InsertAudit_cases)
  then have "find_service_key ?t' = find_service_key ?t" "config_named ?t' = config_named ?t"
    by (auto simp: find_service_key_def config_named_def config_of_def find_variable_def fun_eq_iff split: option.split)
  then show "brought es t ?t' \<longleftrightarrow> brought es t ?t" "untouched k t ?t' \<longleftrightarrow> untouched k t ?t"
    by (simp_all add: brought_def untouched_def)
qed

lemma import_run:
  assumes import: "run_web (handleImport cfg time_of rq) w = (r, w')"
    and decoded: "decode_import time_of rq = Some d" and some: "ed_services d \<noteq> []"
    and admin: "hr_user rq = Some u" "u_role u = RoleAdmin" and calm: "calm_inv w"
    and services: "\<forall>es \<in> set (ed_services d). es_key es \<noteq> [] \<and> distinct (map fst (es_vars es))"
      "distinct (map es_key (ed_services d))"
  obtains res where "r = writeJSON 200 (ImportBody res)"
    and "services_created res + services_existing res = length (ed_services d)"
    and "\<And>es. es \<in> set (ed_services d) \<Longrightarrow> brought es (tbl (w_db w)) (tbl (w_db w'))"
    and "\<And>k. k \<notin> es_key ` set (ed_services d) \<Longrightarrow> untouched k (tbl (w_db w)) (tbl (w_db w'))"
proof -
  from import_services_effect [OF calm services, of "u_email u" "\<lparr>services_created = 0, services_existing = 0, variables_imported = 0\<rparr>"]
  obtain res w3 where run: "import_services (ed_services d) (u_email u)
        \<lparr>services_created = 0, services_existing = 0, variables_imported = 0\<rparr> w = (Inr res, w3)"
    and counted: "services_created res + services_existing res = length (ed_services d)"
    and brought: "\<And>es. es \<in> set (ed_services d) \<Longrightarrow> brought es (tbl (w_db w)) (tbl (w_db w3))"
    and untouched: "\<And>k. k \<notin> es_key ` set (ed_services d) \<Longrightarrow> untouched k (tbl (w_db w)) (tbl (w_db w3))"
    by auto
  have "r = writeJSON 200 (ImportBody res) \<and> w' = Record (u_email u) ''config.import'' (''contour:'' @ hc_contour cfg)
      [(''services_created'', DInt (int (services_created res))), (''services_existing'', DInt (int (services_existing res))),
       (''variables_imported'', DInt (int (variables_imported res)))] w3"
    using import decoded some run admin
    by (simp add: run_web_def handleImport_def requireAdmin_def requireUser_def wbind_def or_respond_def wret_def
        record_action_def act_def)
  then have r: "r = writeJSON 200 (ImportBody res)" and w': "\<exists>a b c ds. w' = Record a b c ds w3" by blast+
  from w' recorded_keeps have same: "brought es t (tbl (w_db w')) \<longleftrightarrow> brought es t (tbl (w_db w3))"
    "untouched k t (tbl (w_db w')) \<longleftrightarrow> untouched k t (tbl (w_db w3))" for es k t by blast+
  show thesis by (rule that [OF r counted]) (simp_all add: same brought untouched)
qed

text \<open>What the import reads of a service of the export.\<close>

definition exported :: "db \<Rightarrow> service \<Rightarrow> export_service" where
  "exported d svc = sort_vars (export_row d svc)"

lemma exported_simps [simp]:
  "es_key (exported d svc) = s_key svc" "es_name (exported d svc) = s_name svc" "es_desc (exported d svc) = s_desc svc"
  by (simp_all add: exported_def sort_vars_def export_row_def export_of_def)

lemma exported_vars:
  assumes "vars_inv (tbl d)" and "faults d = []" and "texts_ok (tbl d)" and "svc \<in> set (services_tbl (tbl d))"
  shows "importable (es_vars (exported d svc)) = config_of (tbl d) (s_id svc) |` {k. keyRe k}"
    and "distinct (map fst (es_vars (exported d svc)))"
  using sort_vars_facts [OF export_row_ok [OF assms(3,4)]] export_row_config [OF assms(1,2), of svc]
  by (simp_all add: importable_def exported_def)

lemma exported_reading:
  assumes d: "d = \<lparr>ed_version = 1, ed_contour = c, ed_at = now, ed_services = map (export_row e) svcs\<rparr>"
    and texts: "texts_ok (tbl e)" "utf8_valid c" "set svcs \<subseteq> set (services_tbl (tbl e))"
    and time: "utf8_valid (time_text (ed_at d))" "time_of (JStr (time_text (ed_at d))) = Some (ed_at d)"
    and body: "hr_body rq = export_text time_text d" "length (hr_body rq) \<le> max_import"
  obtains d' where "decode_import time_of rq = Some d'" and "ed_services d' = map (exported e) svcs"
proof -
  have "service_ok (export_row e svc)" if "svc \<in> set svcs" for svc
    using export_row_ok [OF texts(1)] that texts(3) by blast
  then have "doc_ok d" using texts(2) by (simp add: d doc_ok_def int64_min_def int64_max_def)
  from import_reads_export [of d time_text time_of, OF this time body] show thesis
    by (rule that) (simp add: d exported_def)
qed

text \<open>C15. An export can be imported. If a database that answers is exported and the document is imported into any database that
  answers, by an admin, then the import is answered with status 200 and counts every service; each exported
  service is there afterwards under its key, created with its name and description if it was not there; its
  configuration is that which it had in the second database, overridden by the exported one (but for keys
  that the API does not accept); and no service with another key changes. Texts have to be valid UTF-8, keys
  of services not empty, and the document not longer than 10 MiB.\<close>

theorem export_import_roundtrip:
  assumes export: "run_web (handleExport cfg rq) w = (r, w')" "rs_body r = ExportBody d"
    and source: "reachable (w_db w)" "faults (w_db w) = []" "services_tbl (tbl (w_db w)) \<noteq> []"
    and texts: "texts_ok (tbl (w_db w))" "utf8_valid (hc_contour cfg)" "\<forall>svc \<in> set (services_tbl (tbl (w_db w))). s_key svc \<noteq> []"
    and time: "utf8_valid (time_text (ed_at d))" "time_of (JStr (time_text (ed_at d))) = Some (ed_at d)"
    and body: "hr_body rq2 = export_text time_text d" "length (hr_body rq2) \<le> max_import"
    and admin: "hr_user rq2 = Some u" "u_role u = RoleAdmin"
    and target: "reachable (w_db w2)" "faults (w_db w2) = []"
    and import: "run_web (handleImport cfg2 time_of rq2) w2 = (r2, w2')"
  shows "\<exists>res. r2 = writeJSON 200 (ImportBody res) \<and>
     services_created res + services_existing res = length (services_tbl (tbl (w_db w))) \<and>
     (\<forall>svc \<in> set (services_tbl (tbl (w_db w))).
        config_named (tbl (w_db w2')) (s_key svc) =
          config_named (tbl (w_db w2)) (s_key svc) ++ (config_of (tbl (w_db w)) (s_id svc) |` {k. keyRe k}) \<and>
        (\<exists>svc2. find_service_key (tbl (w_db w2')) (s_key svc) = Some svc2 \<and>
           (case find_service_key (tbl (w_db w2)) (s_key svc) of Some old \<Rightarrow> svc2 = old
            | None \<Rightarrow> s_name svc2 = (if s_name svc = [] then s_key svc else s_name svc) \<and> s_desc svc2 = s_desc svc))) \<and>
     (\<forall>k. k \<notin> s_key ` set (services_tbl (tbl (w_db w))) \<longrightarrow>
        find_service_key (tbl (w_db w2')) k = find_service_key (tbl (w_db w2)) k \<and>
        config_named (tbl (w_db w2')) k = config_named (tbl (w_db w2)) k)"
proof -
  let ?e = "w_db w"
  have inv: "store_inv (tbl ?e) (seqs ?e)" by (rule reachable_inv [OF source(1)])
  have svcs: "set (listed ?e) = set (services_tbl (tbl ?e))" "length (listed ?e) = length (services_tbl (tbl ?e))"
    "distinct (map s_key (listed ?e))"
    using inv by (auto simp: listed_def store_inv_def services_inv_def)
  have "set (listed ?e) \<subseteq> set (services_tbl (tbl ?e))" using svcs(1) by simp
  from exported_reading [where time_text = time_text and time_of = time_of,
      OF export_document [OF export source(2)] texts(1,2) this time body]
  obtain d' where decoded: "decode_import time_of rq2 = Some d'" and ess: "ed_services d' = map (exported ?e) (listed ?e)" .
  have vars_inv: "vars_inv (tbl ?e)" using inv by (simp add: store_inv_def)
  note vars = exported_vars [OF vars_inv source(2) texts(1)]
  have calm: "calm_inv w2" using reachable_inv [OF target(1)] target(2) by (simp add: calm_inv_def)
  have some: "ed_services d' \<noteq> []" using source(3) svcs(2) by (auto simp: ess)
  have "\<forall>es \<in> set (ed_services d'). es_key es \<noteq> [] \<and> distinct (map fst (es_vars es))"
    "distinct (map es_key (ed_services d'))"
    using vars(2) texts(3) svcs by (auto simp: ess comp_def)
  from import_run [OF import decoded some admin calm this] obtain res where r2: "r2 = writeJSON 200 (ImportBody res)"
    and counted: "services_created res + services_existing res = length (ed_services d')"
    and brought: "\<And>es. es \<in> set (ed_services d') \<Longrightarrow> brought es (tbl (w_db w2)) (tbl (w_db w2'))"
    and untouched: "\<And>k. k \<notin> es_key ` set (ed_services d') \<Longrightarrow> untouched k (tbl (w_db w2)) (tbl (w_db w2'))"
    by blast
  show ?thesis
  proof (rule exI [of _ res], intro conjI allI ballI impI)
    fix svc assume svc: "svc \<in> set (services_tbl (tbl ?e))"
    then have "brought (exported ?e svc) (tbl (w_db w2)) (tbl (w_db w2'))" by (intro brought) (simp add: ess svcs)
    from this [unfolded brought_def exported_simps vars(1) [OF svc]]
    show "config_named (tbl (w_db w2')) (s_key svc) =
        config_named (tbl (w_db w2)) (s_key svc) ++ (config_of (tbl ?e) (s_id svc) |` {k. keyRe k})"
      and "\<exists>svc2. find_service_key (tbl (w_db w2')) (s_key svc) = Some svc2 \<and>
           (case find_service_key (tbl (w_db w2)) (s_key svc) of Some old \<Rightarrow> svc2 = old
            | None \<Rightarrow> s_name svc2 = (if s_name svc = [] then s_key svc else s_name svc) \<and> s_desc svc2 = s_desc svc)"
      by blast+
  next
    fix k assume "k \<notin> s_key ` set (services_tbl (tbl ?e))"
    then have "untouched k (tbl (w_db w2)) (tbl (w_db w2'))" by (intro untouched) (auto simp: ess svcs)
    then show "find_service_key (tbl (w_db w2')) k = find_service_key (tbl (w_db w2)) k"
      "config_named (tbl (w_db w2')) k = config_named (tbl (w_db w2)) k" by (simp_all add: untouched_def)
  qed (use r2 counted svcs(2) in \<open>simp_all add: ess\<close>)
qed

text \<open>A database with one service and one variable, imported into an empty one.\<close>

definition small_db :: db where
  "small_db = run_ops [OpCreateService ''s'' ''S'' '''' ''a'', OpUpsertVariable 1 ''a'' ''z'' ''a'']
     (init_db (\<lambda>_ _. True) (\<lambda>_ _. True))"

definition demo_admin :: user where
  "demo_admin = \<lparr>u_id = 1, u_subject = ''s'', u_email = ''ann@x'', u_name = ''Ann'', u_role = RoleAdmin,
     u_created = 0\<rparr>"

definition demo_source :: world where
  "demo_source = office\<lparr>w_db := small_db\<rparr>"

definition demo_target :: world where
  "demo_target = office\<lparr>w_db := init_db (\<lambda>_ _. True) (\<lambda>_ _. True)\<rparr>"

definition demo_time :: "json \<Rightarrow> int option" where
  "demo_time v = (if v = JStr ''0'' then Some 0 else None)"

definition admin_request :: "string \<Rightarrow> http_request" where
  "admin_request body = \<lparr>hr_vals = [], hr_q = [], hr_body = body, hr_user = Some demo_admin, hr_rand = [], hr_content = Whole\<rparr>"

definition demo_export :: export_doc where
  "demo_export = \<lparr>ed_version = 1, ed_contour = ''local'', ed_at = 0,
     ed_services = [\<lparr>es_key = ''s'', es_name = ''S'', es_desc = '''', es_vars = [(''a'', ''z'')]\<rparr>]\<rparr>"

lemma small_tables:
  "map (\<lambda>s. (s_id s, s_key s, s_name s, s_desc s)) (services_tbl (tbl small_db)) = [(1, ''s'', ''S'', '''')] \<and>
   map (\<lambda>v. (v_service v, v_key v, v_value v)) (variables_tbl (tbl small_db)) = [(1, ''a'', ''z'')] \<and>
   faults small_db = [] \<and> clock small_db = 0"
  by code_simp

lemma small_rows:
  obtains svc v where "services_tbl (tbl small_db) = [svc]" "s_id svc = 1" "s_key svc = ''s''" "s_name svc = ''S''" "s_desc svc = ''''"
    "variables_tbl (tbl small_db) = [v]" "v_service v = 1" "v_key v = ''a''" "v_value v = ''z''"
  using small_tables by (auto simp: map_eq_Cons_conv)

lemma export_import_roundtrip_witness:
  "config_named (tbl (w_db (snd (run_web (handleImport (en_cfg demo_env) demo_time
     (admin_request (export_text (\<lambda>_. ''0'') demo_export))) demo_target)))) ''s'' ''a'' = Some ''z''"
proof -
  obtain svc v where row: "services_tbl (tbl small_db) = [svc]" "s_id svc = 1" "s_key svc = ''s''" "s_name svc = ''S''" "s_desc svc = ''''"
    and var: "variables_tbl (tbl small_db) = [v]" "v_service v = 1" "v_key v = ''a''" "v_value v = ''z''" by (rule small_rows)
  have calm: "faults small_db = []" "clock small_db = 0" using small_tables by simp_all
  have db: "w_db demo_source = small_db" "w_db demo_target = init_db (\<lambda>_ _. True) (\<lambda>_ _. True)"
    by (simp_all add: demo_source_def demo_target_def)
  have rq: "hr_body (admin_request b) = b" "hr_user (admin_request b) = Some demo_admin" "u_role demo_admin = RoleAdmin" for b
    by (simp_all add: admin_request_def demo_admin_def)
  have cfg: "hc_contour (en_cfg demo_env) = ''local''" by (simp add: demo_env_def)
  obtain r w' where export: "run_web (handleExport (en_cfg demo_env) (admin_request [])) demo_source = (r, w')" by fastforce
  have list: "ListServices small_db = (Inr [svc], small_db)" using calm by (simp add: ListServices_def run_simps row)
  have "\<exists>d. rs_body r = ExportBody d"
    using export list export_services_run [of demo_source "[svc]"] calm(1)
    by (auto simp: run_web_def handleExport_def requireAdmin_def requireUser_def wbind_def or_respond_def call_or_def
        call_run wret_def respond_def get_world_def writeJSON_def db rq)
  then obtain d where d: "rs_body r = ExportBody d" by blast
  have listed: "listed small_db = [svc]" by (simp add: listed_def row)
  have "d = demo_export" using export_document [OF export d] calm
    by (simp add: db cfg demo_export_def listed row export_row_def export_of_def vars_of_def var)
  with d have body: "rs_body r = ExportBody demo_export" by simp
  obtain r2 w2' where import: "run_web (handleImport (en_cfg demo_env) demo_time
     (admin_request (export_text (\<lambda>_. ''0'') demo_export))) demo_target = (r2, w2')" by fastforce
  let ?t = "tbl (w_db demo_source)"
  have source: "reachable (w_db demo_source)" "faults (w_db demo_source) = []" "services_tbl ?t \<noteq> []"
    using reachable_run_ops [OF reachable.init] calm by (simp_all add: db row) (simp add: small_db_def)
  have texts: "texts_ok ?t" "utf8_valid (hc_contour (en_cfg demo_env))" "\<forall>svc \<in> set (services_tbl ?t). s_key svc \<noteq> []"
    by (simp_all add: db row var texts_ok_def cfg)
  have time: "utf8_valid ''0''" "demo_time (JStr ''0'') = Some (ed_at demo_export)"
    by (simp_all add: demo_time_def demo_export_def)
  have short: "length (hr_body (admin_request (export_text (\<lambda>_. ''0'') demo_export))) \<le> max_import"
  proof -
    have "length (export_text (\<lambda>_. ''0'') demo_export) \<le> 300" by code_simp
    then show ?thesis by (simp add: rq max_import_def)
  qed
  have target: "reachable (w_db demo_target)" "faults (w_db demo_target) = []"
    unfolding db by (rule reachable.init, simp add: init_db_def)
  have conf: "config_of ?t (s_id svc) ''a'' = Some ''z''" and key: "keyRe ''a''"
    by (simp_all add: db config_of_def find_variable_def var is_var_def row) code_simp
  have "svc \<in> set (services_tbl ?t)" by (simp add: db row)
  with export_import_roundtrip [OF export body source texts time rq(1) short rq(2,3) target import]
  have "config_named (tbl (w_db w2')) (s_key svc) =
      config_named (tbl (w_db demo_target)) (s_key svc) ++ (config_of ?t (s_id svc) |` {k. keyRe k})" by blast
  then show ?thesis using conf key by (simp add: import row map_add_def restrict_map_def)
qed

end
