(* ===== verification/Auth_Properties.thy ===== *)
theory Auth_Properties
  imports Http_Writes
begin

text \<open>
  The properties of \<open>internal/auth\<close>: who is let in, what completes a login, and that sessions
  and API tokens once issued bring their users back.
\<close>

section \<open>Who is let in\<close>

text \<open>C16. A request is authenticated only as a user of the database as it is now: with the name and
  the role of the row, never those in the cookie. The session names the id of the user, or the
  hash of the bearer token is the hash of a token that the user owns.\<close>

theorem authentication_is_current:
  assumes "Middleware e rq w = (Some u, w')"
  shows "u \<in> set (users_tbl (tbl (w_db w))) \<and>
     ((\<exists>s. codec_read (ae_codec e) (ar_cookies rq) = Some s \<and> u_id u = se_user s) \<or>
      (\<exists>tok x. bearer_token (ar_authorization rq) = Some tok \<and> x \<in> set (tokens_tbl (tbl (w_db w))) \<and>
         t_hash x = HashAPIToken e tok \<and> t_user x = u_id u))"
proof -
  have user: "find_user t i = Some v \<Longrightarrow> v \<in> set (users_tbl t) \<and> u_id v = i" for t i v
    by (auto simp: find_user_def dest: find_SomeD)
  from Middleware_sound [OF assms] show ?thesis
  proof (elim disjE exE conjE)
    fix s
    assume "codec_read (ae_codec e) (ar_cookies rq) = Some s" "find_user (tbl (w_db w)) (se_user s) = Some u"
    with user show ?thesis by blast
  next
    fix tok x
    assume *: "bearer_token (ar_authorization rq) = Some tok"
      "find (\<lambda>x. t_hash x = HashAPIToken e tok) (tokens_tbl (tbl (w_db w))) = Some x"
      "find_user (tbl (w_db w)) (t_user x) = Some u"
    from find_SomeD [OF *(2)] user [OF *(3)] *(1) show ?thesis by auto
  qed
qed

theorem authentication_is_current_witness:
  "\<exists>u. fst (Middleware (en_auth demo_env) (nr_auth bob_put) office) = Some u \<and>
     u \<in> set (users_tbl (tbl (w_db office)))"
proof -
  have "fst (Middleware (en_auth demo_env) (nr_auth bob_put) office) \<noteq> None" by code_simp
  then obtain u where "fst (Middleware (en_auth demo_env) (nr_auth bob_put) office) = Some u" by blast
  with authentication_is_current [of "en_auth demo_env" "nr_auth bob_put" office u] show ?thesis
    by (cases "Middleware (en_auth demo_env) (nr_auth bob_put) office") auto
qed

section \<open>What completes a login\<close>

text \<open>What a cookie of the login flow holds: nothing if it is missing or cannot be decoded.\<close>

definition flow_cookie :: "auth_env \<Rightarrow> auth_request \<Rightarrow> string \<Rightarrow> string option" where
  "flow_cookie e rq name = Option.bind (map_of (ar_cookies rq) name) (dec_string (ae_codec e) name)"

lemma getFlow_cookie: "getFlow e rq name = (case flow_cookie e rq name of None \<Rightarrow> [] | Some v \<Rightarrow> v)"
  by (simp add: getFlow_def flow_cookie_def split: option.split)

text \<open>
  The callbacks that complete a login, and the claims that they complete it with. The nonce of the id token
  has to be that of the nonce cookie; but a browser without that cookie passes with a token without a nonce.
\<close>

definition accepted :: "auth_env \<Rightarrow> auth_request \<Rightarrow> claims \<Rightarrow> bool" where
  "accepted e rq c \<longleftrightarrow>
     flow_cookie e rq ''oidc_state'' = Some (ar_state rq) \<and> ar_state rq \<noteq> [] \<and>
     (\<exists>rawID nonce. ae_exchange e (ar_code rq) = Some (Some rawID) \<and> ae_verify e rawID = Some (nonce, Some c) \<and>
        (flow_cookie e rq ''oidc_nonce'' = Some nonce \<or> flow_cookie e rq ''oidc_nonce'' = None \<and> nonce = []))"

lemma accepted_iff:
  "accepted e rq c \<longleftrightarrow> getFlow e rq ''oidc_state'' \<noteq> [] \<and> ar_state rq = getFlow e rq ''oidc_state'' \<and>
     (\<exists>rawID. ae_exchange e (ar_code rq) = Some (Some rawID) \<and>
        ae_verify e rawID = Some (getFlow e rq ''oidc_nonce'', Some c))"
  by (auto simp: accepted_def getFlow_cookie split: option.splits)

lemma callback_accepted:
  assumes "\<not> DevMode e" and "accepted e rq c"
  shows "CallbackHandler e rq w =
     finishLogin e (cl_sub c) (cl_email c) (if cl_name c = [] then cl_preferred c else cl_name c) w"
  using assms unfolding accepted_iff by (auto simp: CallbackHandler_def)

lemma callback_refused:
  assumes "\<not> DevMode e" and "\<And>c. \<not> accepted e rq c"
  shows "set_cookies (fst (CallbackHandler e rq w)) = [] \<and> snd (CallbackHandler e rq w) = w"
  using assms unfolding accepted_iff
  by (auto simp: CallbackHandler_def login_error_def split: option.split)

text \<open>C17. Outside the development mode, a callback completes a login exactly if the state of the request
  is the nonempty one in the state cookie, the id token of the code was verified, and its nonce is that of the
  nonce cookie, or there is no readable nonce cookie and the token has no nonce; the user is then the one
  of its claims. Every other callback changes nothing and sets no cookie.\<close>

theorem callback_is_guarded:
  assumes "\<not> DevMode e"
  shows "if \<exists>c. accepted e rq c
     then \<exists>c. accepted e rq c \<and> CallbackHandler e rq w =
       finishLogin e (cl_sub c) (cl_email c) (if cl_name c = [] then cl_preferred c else cl_name c) w
     else set_cookies (fst (CallbackHandler e rq w)) = [] \<and> snd (CallbackHandler e rq w) = w"
  using callback_accepted [OF assms, of rq _ w] callback_refused [OF assms, of rq w] by auto

definition demo_login :: auth_env where
  "demo_login = (en_auth demo_env)\<lparr>ae_verify := (\<lambda>i. Some (''n'',
     Some \<lparr>cl_sub = ''s9'', cl_email = i, cl_name = [], cl_preferred = ''Eve''\<rparr>))\<rparr>"

definition demo_callback :: auth_request where
  "demo_callback = \<lparr>ar_cookies = [(''oidc_state'', ''oidc_statest''), (''oidc_nonce'', ''oidc_noncen'')],
     ar_authorization = [], ar_state = ''st'', ar_code = ''eve@x'', ar_rand = ([], [])\<rparr>"

theorem callback_is_guarded_witness:
  "\<exists>c. accepted demo_login demo_callback c \<and> cl_sub c = ''s9'' \<and>
     set_cookies (fst (CallbackHandler demo_login (demo_callback\<lparr>ar_state := ''other''\<rparr>) office)) = []"
proof -
  have "\<not> DevMode demo_login" and sets: "set_cookies (fst (CallbackHandler demo_login demo_callback office)) \<noteq> []"
    by code_simp+
  with callback_is_guarded [OF this(1), of demo_callback office] obtain c where c: "accepted demo_login demo_callback c"
    by (auto split: if_splits)
  then have "cl_sub c = ''s9''" by (auto simp: accepted_def demo_login_def)
  moreover have "\<not> accepted demo_login (demo_callback\<lparr>ar_state := ''other''\<rparr>) c" for c
  proof -
    have "flow_cookie demo_login (demo_callback\<lparr>ar_state := ''other''\<rparr>) ''oidc_state'' = Some ''st''" by code_simp
    then show ?thesis by (simp add: accepted_def demo_callback_def)
  qed
  ultimately show ?thesis
    using c callback_is_guarded [OF \<open>\<not> DevMode demo_login\<close>, of "demo_callback\<lparr>ar_state := ''other''\<rparr>" office] by auto
qed

section \<open>Sessions bring their users back\<close>

lemma GetUser_calm:
  "faults d = [] \<Longrightarrow> find_user (tbl d) uid = Some u \<Longrightarrow> GetUser uid d = (Inr u, d)"
  by (simp add: GetUser_def run_simps)

lemma UpsertUserOnLogin_found:
  assumes "users_inv (tbl d) (seqs d)" and "UpsertUserOnLogin sub email name b d = (Inr u, d')"
  shows "find_user (tbl d') (u_id u) = Some u \<and> u_subject u = sub \<and> u_email u = email"
  using assms(2)
proof (cases rule: UpsertUserOnLogin_cases)
  case (updated old new)
  have new: "u_id new = u_id old" "u_subject new = sub" "u_email new = email" "old \<in> set (users_tbl (tbl d))"
    "u_subject old = sub"
    using find_SomeD [OF updated(2)] updated(3) by auto
  have inv: "users_inv (tbl d') (seqs d')"
    using preservesD [OF preserves_UpsertUserOnLogin_users assms(2,1)] by simp
  have "new \<in> set (users_tbl (tbl d'))"
    using new unfolding updated(5) by (auto simp: in_set_update_where)
  with inv new updated(1) show ?thesis by (simp add: users_inv_def find_user_def find_key_Some)
next
  case (created new)
  have inv: "users_inv (tbl d') (seqs d')"
    using preservesD [OF preserves_UpsertUserOnLogin_users assms(2,1)] by simp
  have "new \<in> set (users_tbl (tbl d'))" using created by simp
  with inv created show ?thesis by (simp add: users_inv_def find_user_def find_key_Some)
qed simp

text \<open>
  A session comes back: the cookie of a login authenticates a later request as the user who logged in,
  at any server whose codec decodes what that of the login encoded, as long as the database
  answers and nothing changed in between.
\<close>

lemma session_comes_back:
  assumes "reachable (w_db w)" and "faults (w_db w) = []"
    and codec: "\<And>s v. enc_session (ae_codec e) sessionCookie s = Some v \<Longrightarrow> dec_session (ae_codec e') sessionCookie v = Some s"
    and run: "finishLogin e sub email name w = (r, w')" and cookie: "set_cookies r = [ck]"
    and later: "map_of (ar_cookies rq) (ck_name ck) = Some (ck_value ck)"
  shows "\<exists>u. Middleware e' rq w' = (Some u, w') \<and> u_subject u = sub \<and>
     u_email u = ToLower (ae_lower e) (TrimSpace email)"
proof -
  let ?email = "ToLower (ae_lower e) (TrimSpace email)"
  obtain x d1 where up: "UpsertUserOnLogin sub ?email name (ae_bootstrap e) (w_db w) = (x, d1)" by fastforce
  from run cookie up obtain u where x: "x = Inr u"
    by (auto simp: finishLogin_def Let_def run_db_eq login_error_def split: sum.splits)
  let ?s = "\<lparr>se_user = u_id u, se_email = u_email u, se_name = u_name u, se_role = u_role u\<rparr>"
  from run cookie up x have ck: "codec_write (ae_codec e) ?s (seconds (w\<lparr>w_db := d1\<rparr>)) = Some ck"
    and w': "w' = w\<lparr>w_db := snd (InsertAudit (u_email u) ''login'' (''user:'' @ u_email u) [] d1)\<rparr>"
    by (auto simp: finishLogin_def Let_def run_db_eq login_error_def split: option.splits)
  have "users_inv (tbl (w_db w)) (seqs (w_db w))" using reachable_inv [OF assms(1)] by (simp add: store_inv_def)
  from UpsertUserOnLogin_found [OF this up [unfolded x]]
  have u: "find_user (tbl d1) (u_id u) = Some u" "u_subject u = sub" "u_email u = ?email" by simp_all
  have "calm (UpsertUserOnLogin sub ?email name (ae_bootstrap e))"
    unfolding UpsertUserOnLogin_def by (rule calm_stmt) (auto simp: Let_def split: option.splits)
  from calmD [OF this up assms(2)] have calm: "faults d1 = []" .
  have d2: "users_tbl (tbl (w_db w')) = users_tbl (tbl d1)" "faults (w_db w') = []"
    using calm by (simp_all add: w' InsertAudit_def stmt_run Let_def)
  have "find_user (tbl (w_db w')) (u_id u) = Some u" using u(1) by (simp add: find_user_def d2(1))
  from GetUser_calm [OF d2(2) this] have get: "GetUser (u_id u) (w_db w') = (Inr u, w_db w')" .
  from ck have "ck_name ck = sessionCookie" and "enc_session (ae_codec e) sessionCookie ?s = Some (ck_value ck)"
    by (auto simp: codec_write_def split: option.splits)
  with codec later have "codec_read (ae_codec e') (ar_cookies rq) = Some ?s"
    by (simp add: codec_read_def)
  then have "Middleware e' rq w' = (Some u, w')" by (simp add: Middleware_def run_db_eq get)
  with u show ?thesis by blast
qed

text \<open>In particular at the server of the login.\<close>

theorem login_session_roundtrip:
  assumes "reachable (w_db w)" and "faults (w_db w) = []"
    and codec: "\<forall>n s v. enc_session (ae_codec e) n s = Some v \<longrightarrow> dec_session (ae_codec e) n v = Some s"
    and run: "finishLogin e sub email name w = (r, w')" and cookie: "set_cookies r = [ck]"
    and later: "map_of (ar_cookies rq) (ck_name ck) = Some (ck_value ck)"
  shows "\<exists>u. Middleware e rq w' = (Some u, w') \<and> u_subject u = sub \<and>
     u_email u = ToLower (ae_lower e) (TrimSpace email)"
  using session_comes_back [OF assms(1,2) _ run cookie later] codec by blast

text \<open>An example codec that keeps the whole session: every field with its length in front.\<close>

definition field_out :: "string \<Rightarrow> string" where
  "field_out s = replicate (length s) (CHR ''x'') @ CHR ''.'' # s"

definition field_in :: "string \<Rightarrow> string \<times> string" where
  "field_in v = (let n = length (takeWhile (\<lambda>c. c = CHR ''x'') v) in (take n (drop (n + 1) v), drop (n + 1 + n) v))"

lemma field_in_out [simp]: "field_in (field_out s @ r) = (s, r)"
proof -
  have "takeWhile (\<lambda>c. c = CHR ''x'') (replicate n (CHR ''x'') @ CHR ''.'' # t) = replicate n (CHR ''x'')" for n t
    by (induction n) simp_all
  then show ?thesis by (simp add: field_in_def field_out_def Let_def)
qed

definition full_codec :: codec where
  "full_codec = demo_codec\<lparr>
     enc_session := (\<lambda>_ s. if int64_min \<le> se_user s \<and> se_user s \<le> int64_max
       then Some (field_out (FormatInt (se_user s)) @ field_out (se_email s) @ field_out (se_name s) @
         field_out (se_role s)) else None),
     dec_session := (\<lambda>_ v. let (a, v1) = field_in v; (b, v2) = field_in v1; (c, v3) = field_in v2;
       (d, v4) = field_in v3 in map_option (\<lambda>n. \<lparr>se_user = n, se_email = b, se_name = c, se_role = d\<rparr>) (ParseInt a))\<rparr>"

lemma full_codec: "enc_session full_codec n s = Some v \<Longrightarrow> dec_session full_codec n v = Some s"
  using field_in_out [of "se_role s" "[]"] by (auto simp: full_codec_def ParseInt_FormatInt split: if_splits)

definition fresh_world :: world where
  "fresh_world = \<lparr>w_db = init_db (\<lambda>_ _. True) (\<lambda>_ _. True), contour = ''local'', started = False,
     tg_cur = zero_settings, tg_bot = None, outbox = [], tg_api = (\<lambda>_. Answer 200 []), tg_url_error = (\<lambda>u. u)\<rparr>"

lemma reachable_fresh: "reachable (w_db fresh_world)"
  by (simp add: fresh_world_def reachable.init)

definition demo_full :: auth_env where
  "demo_full = (en_auth demo_env)\<lparr>ae_codec := full_codec\<rparr>"

theorem login_session_roundtrip_witness:
  "\<exists>u w' rq. Middleware demo_full rq w' = (Some u, w') \<and> u_subject u = ''s1'' \<and> u_email u = ''ann@x''"
proof -
  obtain r w' where run: "finishLogin demo_full ''s1'' ''ann@x'' ''Ann'' fresh_world = (r, w')" by fastforce
  have "length (set_cookies (fst (finishLogin demo_full ''s1'' ''ann@x'' ''Ann'' fresh_world))) = 1" by code_simp
  then obtain ck where ck: "set_cookies r = [ck]" by (auto simp: run length_Suc_conv)
  have lower: "ToLower (ae_lower demo_full) (TrimSpace ''ann@x'') = ''ann@x''" by code_simp
  have ok: "faults (w_db fresh_world) = []" by code_simp
  have codec: "\<forall>n s v. enc_session (ae_codec demo_full) n s = Some v \<longrightarrow> dec_session (ae_codec demo_full) n v = Some s"
    using full_codec by (simp add: demo_full_def)
  define rq where "rq = \<lparr>ar_cookies = [(ck_name ck, ck_value ck)], ar_authorization = [], ar_state = [],
    ar_code = [], ar_rand = ([], [])\<rparr>"
  have "map_of (ar_cookies rq) (ck_name ck) = Some (ck_value ck)" by (simp add: rq_def)
  from login_session_roundtrip [OF reachable_fresh ok codec run ck this] show ?thesis unfolding lower by blast
qed

section \<open>Tokens bring their users back\<close>

lemma hex_digit_visible: "n < 16 \<Longrightarrow> 33 \<le> byte (hex_digit n) \<and> byte (hex_digit n) < 127"
  by (simp add: hex_digit_def)

lemma new_token_visible: "TrimSpace (new_token rq) = new_token rq"
proof (rule TrimSpace_visible)
  have "33 \<le> byte (hex_digit (byte c div 16)) \<and> byte (hex_digit (byte c div 16)) < 127" for c
    by (rule hex_digit_visible) (use byte_less [of c] in linarith)
  then show "list_all (\<lambda>c. 33 \<le> byte c \<and> byte c < 127) (new_token rq)"
    by (auto simp: new_token_def hex_encode_def list_all_iff hex_digit_visible)
qed

lemma bearer_of_token: "bearer_token (''Bearer '' @ new_token rq) = Some (new_token rq)"
  using new_token_visible [of rq] has_prefix_append [of "''Bearer ''" "new_token rq"]
  by (simp add: bearer_token_def TrimPrefix_def del: has_prefix_append)

lemma UserByAPIToken_created:
  assumes "faults d = []" and "CreateAPIToken uid name h d = (Inr tok, d1)"
  shows "\<exists>u d2. UserByAPIToken h d1 = (Inr u, d2) \<and> u_id u = uid"
  using assms(2)
proof (cases rule: CreateAPIToken_cases)
  case (created row)
  have calm: "faults d1 = []"
    using assms by (auto simp: CreateAPIToken_def run_simps Let_def split: if_splits)
  from created(7) obtain u where u: "find_user (tbl d) uid = Some u"
    by (cases "find_user (tbl d) uid") (auto simp: user_exists_def find_user_def find_eq_None)
  have "find (\<lambda>x. t_hash x = h) (tokens_tbl (tbl d1)) = Some row"
    using created(3,8,9) find_eq_None [of "\<lambda>x. t_hash x = h" "tokens_tbl (tbl d)"]
    by (auto simp: find_append split: option.split)
  moreover have "u_id u = uid" using u by (auto simp: find_user_def dest: find_SomeD)
  ultimately show ?thesis
    using created(2,9) u calm
    by (auto simp: UserByAPIToken_def touch_token_def GetUser_def run_simps or_not_found_def find_user_def)
qed simp

text \<open>C19. A token comes back: a bearer request with the token that POST /api/tokens returned is
  authenticated as the user who created it, as long as the database answers and nothing changed in
  between; the database holds only its hash.\<close>

theorem api_token_roundtrip:
  assumes run: "run_web (handleCreateToken (HashAPIToken e) rq) w = (r, w')" and "faults (w_db w) = []"
    and "hr_user rq = Some u" and body: "rs_body r = TokenBody i name created tok"
    and later: "codec_read (ae_codec e) (ar_cookies rq') = None" "ar_authorization rq' = ''Bearer '' @ tok"
  shows "\<exists>v. fst (Middleware e rq' w') = Some v \<and> u_id v = u_id u"
proof -
  obtain n row d' where tok: "tok = new_token rq" and w': "w' = w\<lparr>w_db := d'\<rparr>"
    and made: "CreateAPIToken (u_id u) n (HashAPIToken e tok) (w_db w) = (Inr row, d')"
    using run body assms(3) unfolding handleCreateToken_def run_web_def requireUser_def
    by (auto simp: wret_def writeErr_def internal_error_def unauthenticated_def
        elim!: wbindE or_respondE call_orE split: prod.splits sum.splits)
  from UserByAPIToken_created [OF assms(2) made] obtain v d2
    where "UserByAPIToken (HashAPIToken e tok) d' = (Inr v, d2)" "u_id v = u_id u" by blast
  moreover have "bearer_token (ar_authorization rq') = Some tok" unfolding later(2) tok by (rule bearer_of_token)
  ultimately show ?thesis using later(1) by (simp add: Middleware_def token_user_def run_db_eq w')
qed

definition ann_world :: world where
  "ann_world = fresh_world\<lparr>w_db := snd (UpsertUserOnLogin ''s1'' ''ann@x'' ''Ann'' '''' (w_db fresh_world))\<rparr>"

definition ann_create :: http_request where
  "ann_create = \<lparr>hr_vals = [], hr_q = [],
     hr_body = ''{'' @ [quote] @ ''name'' @ [quote] @ '':'' @ [quote] @ ''ci'' @ [quote] @ ''}'',
     hr_user = find (\<lambda>u. u_id u = 1) (users_tbl (tbl (w_db ann_world))), hr_rand = [], hr_content = Whole\<rparr>"

theorem api_token_roundtrip_witness:
  "\<exists>rq' w' v. codec_read (ae_codec (en_auth demo_env)) (ar_cookies rq') = None \<and>
     fst (Middleware (en_auth demo_env) rq' w') = Some v \<and> u_id v = 1"
proof -
  let ?e = "en_auth demo_env"
  have user: "map_option u_id (hr_user ann_create) = Some 1" and ok: "faults (w_db ann_world) = []" by code_simp+
  from user obtain u where u: "hr_user ann_create = Some u" "u_id u = 1" by auto
  have "decodeJSON ann_create create_token_fields [] = Some ''ci''" and trim: "TrimSpace ''ci'' = ''ci''"
    and token: "new_token ann_create = ''dyn_''" by code_simp+
  then have name: "(case decodeJSON ann_create create_token_fields [] of
      None \<Rightarrow> None | Some n \<Rightarrow> if TrimSpace n = [] then None else Some n) = Some ''ci''" by simp
  have "case CreateAPIToken 1 ''ci'' (HashAPIToken ?e ''dyn_'') (w_db ann_world) of (Inr x, d') \<Rightarrow> True | _ \<Rightarrow> False"
    by code_simp
  then obtain row d' where made: "CreateAPIToken 1 ''ci'' (HashAPIToken ?e ''dyn_'') (w_db ann_world) = (Inr row, d')"
    by (auto split: prod.splits sum.splits)
  obtain r w' where run: "run_web (handleCreateToken (HashAPIToken ?e) ann_create) ann_world = (r, w')" by fastforce
  then obtain i n c tok where body: "rs_body r = TokenBody i n c tok"
    using made unfolding handleCreateToken_def name or_respond_def
    by (auto simp: run_web_def requireUser_def or_respond_def u trim token wbind_def wret_def call_or_def call_run
        writeJSON_def)
  define rq' where "rq' = \<lparr>ar_cookies = [], ar_authorization = ''Bearer '' @ tok, ar_state = [],
    ar_code = [], ar_rand = ([], [])\<rparr>"
  have cookie: "codec_read (ae_codec ?e) (ar_cookies rq') = None" by (simp add: rq'_def codec_read_def)
  have "ar_authorization rq' = ''Bearer '' @ tok" by (simp add: rq'_def)
  from api_token_roundtrip [OF run ok u(1) body cookie this] cookie u(2) show ?thesis by auto
qed

end
