(* ===== verification/Go_Env.thy ===== *)
theory Go_Env
  imports Go_Strings
begin

text \<open>
  The environment of a process, as the programs under \<open>cmd\<close> and the configuration of the server
  read it: a list of strings of the form KEY=value, of which the part before the first equals sign
  is the key.
\<close>

definition split_entry :: "string \<Rightarrow> (string \<times> string) option" where
  "split_entry kv = (case IndexByte kv (CHR ''='') of None \<Rightarrow> None
     | Some i \<Rightarrow> Some (take i kv, drop (Suc i) kv))"

lemma split_entry_Some: "split_entry kv = Some (k, v) \<longleftrightarrow> kv = k @ CHR ''='' # v \<and> CHR ''='' \<notin> set k"
proof
  assume "split_entry kv = Some (k, v)"
  then show "kv = k @ CHR ''='' # v \<and> CHR ''='' \<notin> set k"
    using IndexByte_Some [of kv "CHR ''=''"] by (auto simp: split_entry_def split: option.splits)
next
  assume "kv = k @ CHR ''='' # v \<and> CHR ''='' \<notin> set k"
  then have kv: "kv = k @ CHR ''='' # v" and no: "CHR ''='' \<notin> set k" by auto
  from no have "IndexByte kv (CHR ''='') = Some (length k)" unfolding kv by (induction k) auto
  then show "split_entry kv = Some (k, v)" by (simp add: split_entry_def kv)
qed

text \<open>\<open>os.Getenv\<close>: the first entry of the key, the empty string without one.\<close>

fun Getenv :: "string list \<Rightarrow> string \<Rightarrow> string" where
  "Getenv [] key = []"
| "Getenv (kv # kvs) key = (case split_entry kv of
       None \<Rightarrow> Getenv kvs key
     | Some (k, v) \<Rightarrow> if k = key then v else Getenv kvs key)"

text \<open>A variable with a default for the case that it is unset or empty.\<close>

definition env_or :: "string list \<Rightarrow> string \<Rightarrow> string \<Rightarrow> string" where
  "env_or environ key def = (let v = Getenv environ key in if v \<noteq> [] then v else def)"

lemma env_or_nonempty: "def \<noteq> [] \<Longrightarrow> env_or environ key def \<noteq> []"
  by (simp add: env_or_def Let_def)

text \<open>
  The defaults of a client: every variable whose name passes a test. A later entry of a name
  overwrites an earlier one.
\<close>

fun env_defaults :: "(string \<Rightarrow> bool) \<Rightarrow> string list \<Rightarrow> (string \<rightharpoonup> string) \<Rightarrow> (string \<rightharpoonup> string)" where
  "env_defaults ok [] out = out"
| "env_defaults ok (kv # kvs) out = (case split_entry kv of
       None \<Rightarrow> env_defaults ok kvs out
     | Some (k, v) \<Rightarrow> env_defaults ok kvs (if ok k then out(k \<mapsto> v) else out))"

lemma env_defaults_dom: "env_defaults ok kvs out k = Some v \<Longrightarrow> out k = Some v \<or> ok k"
proof (induction kvs arbitrary: out)
  case (Cons kv kvs)
  show ?case
  proof (cases "split_entry kv")
    case None
    with Cons show ?thesis by simp
  next
    case (Some e)
    obtain k' v' where e: "e = (k', v')" by fastforce
    have "(if ok k' then out(k' \<mapsto> v') else out) k = Some v \<or> ok k"
      using Cons.prems by (intro Cons.IH) (simp add: Some e)
    then show ?thesis by (auto split: if_splits)
  qed
qed simp

text \<open>The characters of upper snake case.\<close>

definition upper_snake :: "string \<Rightarrow> bool" where
  "upper_snake k \<longleftrightarrow> list_all (\<lambda>c. is_upper c \<or> is_digit c \<or> c = CHR ''_'') k"

end
