(* ===== verification/Server_Config.thy ===== *)
theory Server_Config
  imports Go_Env
begin

text \<open>
  \<open>internal/config/config.go\<close>: the configuration of the server, read from the environment.
\<close>

record server_config =
  DatabaseURL :: string
  ContourName :: string
  HTTPAddr :: string
  GRPCAddr :: string
  OIDCIssuer :: string
  OIDCClientID :: string
  OIDCClientSecret :: string
  OIDCRedirectURL :: string
  SessionSecret :: string
  BootstrapAdmin :: string
  CookieSecure :: bool
  AuditMaxEntries :: int
  DevAuthEmail :: string

definition getDefault :: "string list \<Rightarrow> string \<Rightarrow> string \<Rightarrow> string" where
  "getDefault environ key def = (let v = Getenv environ key in if v \<noteq> [] then v else def)"

definition getDefaultInt :: "string list \<Rightarrow> string \<Rightarrow> int \<Rightarrow> int" where
  "getDefaultInt environ key def = (let v = Getenv environ key in
     if v \<noteq> [] then (case ParseInt (TrimSpace v) of Some n \<Rightarrow> n | None \<Rightarrow> def) else def)"

text \<open>\<open>uni\<close> is the lower case of strings that are not ASCII, as in \<open>ToLower\<close>.\<close>

definition read_config :: "(string \<Rightarrow> string) \<Rightarrow> string list \<Rightarrow> server_config" where
  "read_config uni environ = \<lparr>
     DatabaseURL = Getenv environ ''DATABASE_URL'',
     ContourName = getDefault environ ''CONTOUR_NAME'' ''local'',
     HTTPAddr = getDefault environ ''HTTP_ADDR'' '':8080'',
     GRPCAddr = getDefault environ ''GRPC_ADDR'' '':9090'',
     OIDCIssuer = Getenv environ ''OIDC_ISSUER'',
     OIDCClientID = Getenv environ ''OIDC_CLIENT_ID'',
     OIDCClientSecret = Getenv environ ''OIDC_CLIENT_SECRET'',
     OIDCRedirectURL = Getenv environ ''OIDC_REDIRECT_URL'',
     SessionSecret = Getenv environ ''SESSION_SECRET'',
     BootstrapAdmin = ToLower uni (TrimSpace (Getenv environ ''BOOTSTRAP_ADMIN_EMAIL'')),
     CookieSecure = (getDefault environ ''COOKIE_SECURE'' ''false'' = ''true''),
     AuditMaxEntries = getDefaultInt environ ''AUDIT_MAX_ENTRIES'' 5000,
     DevAuthEmail = ToLower uni (TrimSpace (Getenv environ ''DEV_AUTH_EMAIL''))\<rparr>"

text \<open>The map of the OIDC settings; \<open>order\<close> is the order in which the loop visits its keys.\<close>

definition oidc_settings :: "server_config \<Rightarrow> (string \<times> string) list" where
  "oidc_settings c = [(''OIDC_ISSUER'', OIDCIssuer c), (''OIDC_CLIENT_ID'', OIDCClientID c),
     (''OIDC_CLIENT_SECRET'', OIDCClientSecret c), (''OIDC_REDIRECT_URL'', OIDCRedirectURL c)]"

definition oidc_keys :: "string list" where
  "oidc_keys = [''OIDC_ISSUER'', ''OIDC_CLIENT_ID'', ''OIDC_CLIENT_SECRET'', ''OIDC_REDIRECT_URL'']"

definition Load :: "(string \<Rightarrow> string) \<Rightarrow> string list \<Rightarrow> string list \<Rightarrow> string + server_config" where
  "Load uni order environ = (let c = read_config uni environ in
     if DatabaseURL c = [] then Inl ''DATABASE_URL is required''
     else if SessionSecret c = [] then Inl ''SESSION_SECRET is required''
     else if DevAuthEmail c = [] then
       (case find (\<lambda>k. map_of (oidc_settings c) k = Some []) order of
          Some k \<Rightarrow> Inl (k @ '' is required (or set DEV_AUTH_EMAIL for local dev)'')
        | None \<Rightarrow> Inr c)
     else Inr c)"

section \<open>Properties\<close>

lemma oidc_read: "k \<in> set oidc_keys \<Longrightarrow> map_of (oidc_settings (read_config uni environ)) k = Some (Getenv environ k)"
  by (auto simp: oidc_keys_def oidc_settings_def read_config_def)

lemma Load_cases:
  assumes "set order = set oidc_keys"
  obtains (refused) k rest where "Load uni order environ = Inl (k @ '' is required'' @ rest)"
      and "k \<in> set (''DATABASE_URL'' # ''SESSION_SECRET'' # oidc_keys)" and "Getenv environ k = []"
      and "k \<in> set oidc_keys \<longrightarrow> DevAuthEmail (read_config uni environ) = []"
    | (accepted) "Load uni order environ = Inr (read_config uni environ)"
      and "Getenv environ ''DATABASE_URL'' \<noteq> []" and "Getenv environ ''SESSION_SECRET'' \<noteq> []"
      and "DevAuthEmail (read_config uni environ) \<noteq> [] \<or> (\<forall>k \<in> set oidc_keys. Getenv environ k \<noteq> [])"
proof -
  let ?c = "read_config uni environ"
  have got: "DatabaseURL ?c = Getenv environ ''DATABASE_URL''" "SessionSecret ?c = Getenv environ ''SESSION_SECRET''"
    by (simp_all add: read_config_def)
  have no: "''DATABASE_URL'' \<notin> set oidc_keys" "''SESSION_SECRET'' \<notin> set oidc_keys" by (simp_all add: oidc_keys_def)
  consider (db) "DatabaseURL ?c = []" | (secret) "DatabaseURL ?c \<noteq> []" "SessionSecret ?c = []"
    | (dev) "DatabaseURL ?c \<noteq> []" "SessionSecret ?c \<noteq> []" "DevAuthEmail ?c \<noteq> []"
    | (oidc) "DatabaseURL ?c \<noteq> []" "SessionSecret ?c \<noteq> []" "DevAuthEmail ?c = []" by blast
  then show thesis
  proof cases
    case db
    then show thesis by (intro refused [of "''DATABASE_URL''" "[]"]) (use got no in \<open>simp_all add: Load_def Let_def\<close>)
  next
    case secret
    then show thesis by (intro refused [of "''SESSION_SECRET''" "[]"]) (use got no in \<open>simp_all add: Load_def Let_def\<close>)
  next
    case dev
    then show thesis by (intro accepted) (use got in \<open>simp_all add: Load_def Let_def\<close>)
  next
    case oidc
    show thesis
    proof (cases "find (\<lambda>k. map_of (oidc_settings ?c) k = Some []) order")
      case None
      have "Getenv environ k \<noteq> []" if "k \<in> set oidc_keys" for k
        using find_NoneD [OF None, of k] that oidc_read [OF that, of uni environ] assms by auto
      with oidc None show thesis by (intro accepted) (use got in \<open>simp_all add: Load_def Let_def\<close>)
    next
      case (Some k)
      then have k: "k \<in> set oidc_keys" using find_SomeD [OF Some] assms by simp
      moreover have "Getenv environ k = []" using find_SomeD [OF Some] oidc_read [OF k, of uni environ] by simp
      ultimately show thesis
        by (intro refused [of k "'' (or set DEV_AUTH_EMAIL for local dev)''"])
          (use oidc Some in \<open>simp_all add: Load_def Let_def\<close>)
    qed
  qed
qed

text \<open>C35. The configuration is complete or refused, in whatever order the loop visits the settings of
  OIDC: the server gets a configuration exactly when the database, the session secret and either the
  address of the development login or all four settings of OIDC are given, and the error of a
  refusal names a variable that is missing. In what it gets, no value is empty that has a default.\<close>

theorem config_complete_or_refused:
  assumes "set order = set oidc_keys"
  shows "case Load uni order environ of
      Inr c \<Rightarrow> c = read_config uni environ \<and> DatabaseURL c \<noteq> [] \<and> SessionSecret c \<noteq> [] \<and>
        (DevAuthEmail c \<noteq> [] \<or> (\<forall>k \<in> set oidc_keys. Getenv environ k \<noteq> [])) \<and>
        ContourName c \<noteq> [] \<and> HTTPAddr c \<noteq> [] \<and> GRPCAddr c \<noteq> []
    | Inl e \<Rightarrow> \<exists>k \<in> set (''DATABASE_URL'' # ''SESSION_SECRET'' # oidc_keys). Getenv environ k = [] \<and>
        has_prefix (k @ '' is required'') e \<and> (k \<in> set oidc_keys \<longrightarrow> DevAuthEmail (read_config uni environ) = [])"
  using assms
proof (cases rule: Load_cases [of order uni environ])
  case (refused k rest)
  have "has_prefix (k @ '' is required'') (k @ '' is required'' @ rest)"
    unfolding append_assoc [symmetric] by (rule has_prefix_append)
  with refused(2-) show ?thesis unfolding refused(1) sum.case by blast
next
  case accepted
  have "ContourName c \<noteq> []" "HTTPAddr c \<noteq> []" "GRPCAddr c \<noteq> []" if "c = read_config uni environ" for c
    by (simp_all add: that read_config_def getDefault_def Let_def)
  with accepted show ?thesis by (simp add: read_config_def)
qed

definition demo_environ :: "string list" where
  "demo_environ = [''DATABASE_URL=postgres://db'', ''SESSION_SECRET=s'', ''OIDC_ISSUER=i'', ''OIDC_CLIENT_SECRET=s'',
     ''OIDC_REDIRECT_URL=r'', ''DEV_AUTH_EMAIL=  '']"

theorem config_complete_or_refused_witness:
  "\<exists>e. Load (\<lambda>s. s) oidc_keys demo_environ = Inl e \<and> has_prefix (''OIDC_CLIENT_ID'' @ '' is required'') e"
proof -
  have only: "list_all (\<lambda>k. Getenv demo_environ k = [] \<longrightarrow> k = ''OIDC_CLIENT_ID'') (''DATABASE_URL'' # ''SESSION_SECRET'' # oidc_keys)"
    and fails: "\<not> isl (Load (\<lambda>s. s) oidc_keys demo_environ) = False" by code_simp+
  from fails obtain e where e: "Load (\<lambda>s. s) oidc_keys demo_environ = Inl e" by (auto simp: isl_def)
  from config_complete_or_refused [OF refl, where uni = "\<lambda>s. s" and environ = demo_environ, unfolded e sum.case]
  obtain k where k: "k \<in> set (''DATABASE_URL'' # ''SESSION_SECRET'' # oidc_keys)" "Getenv demo_environ k = []"
    "has_prefix (k @ '' is required'') e" by blast
  then have "k = ''OIDC_CLIENT_ID''" using only unfolding list_all_iff by blast
  with k(3) e show ?thesis by blast
qed

text \<open>The cap of the audit log is the number in the variable, up to white space around it, when
  it is a decimal number of 64 bits; it is 5000 in every other case, never an error.\<close>

lemma audit_cap:
  "AuditMaxEntries (read_config uni environ) =
     (case ParseInt (TrimSpace (Getenv environ ''AUDIT_MAX_ENTRIES'')) of Some n \<Rightarrow> n | None \<Rightarrow> 5000) \<and>
   int64_min \<le> AuditMaxEntries (read_config uni environ) \<and> AuditMaxEntries (read_config uni environ) \<le> int64_max"
proof -
  have "ParseInt (TrimSpace []) = None" by code_simp
  then have eq: "AuditMaxEntries (read_config uni environ) =
      (case ParseInt (TrimSpace (Getenv environ ''AUDIT_MAX_ENTRIES'')) of Some n \<Rightarrow> n | None \<Rightarrow> 5000)"
    by (simp add: read_config_def getDefaultInt_def Let_def)
  show ?thesis unfolding eq using ParseInt_range by (auto simp: int64_min_def int64_max_def split: option.split)
qed

end
