(* ===== verification/Auth_Setup.thy ===== *)
theory Auth_Setup
  imports Auth_Properties Server_Config
begin

text \<open>
  How \<open>internal/auth\<close> is set up from the configuration (\<open>New\<close>, \<open>newCodec\<close>), the random tokens of the login,
  and the login as a whole: from the redirect to the provider, over the callback, to later requests,
  each at a replica of its own.
\<close>

section \<open>Set up\<close>

text \<open>
  The libraries: SHA-256; securecookie with the hash key, the block key and, for decoding, the maximal
  age; and the OIDC provider, which a discovery gives for an issuer.
\<close>

record oauth =
  oa_client :: string
  oa_secret :: string
  oa_redirect :: string
  oa_scopes :: "string list"

record provider =
  pv_code_url :: "oauth \<Rightarrow> string \<Rightarrow> string \<Rightarrow> string"
  pv_exchange :: "oauth \<Rightarrow> string \<Rightarrow> string option option"
  pv_verify :: "string \<Rightarrow> string \<Rightarrow> (string \<times> claims option) option"

record auth_libs =
  al_sha256 :: "string \<Rightarrow> string"
  al_lower :: "string \<Rightarrow> string"
  al_encode :: "string \<Rightarrow> string \<Rightarrow> string \<Rightarrow> session \<Rightarrow> string option"
  al_decode :: "string \<Rightarrow> string \<Rightarrow> int \<Rightarrow> string \<Rightarrow> string \<Rightarrow> session option"
  al_encode_string :: "string \<Rightarrow> string \<Rightarrow> string \<Rightarrow> string \<Rightarrow> string option"
  al_decode_string :: "string \<Rightarrow> string \<Rightarrow> int \<Rightarrow> string \<Rightarrow> string \<Rightarrow> string option"
  al_provider :: "string \<Rightarrow> string + provider"

definition newCodec :: "auth_libs \<Rightarrow> string \<Rightarrow> bool \<Rightarrow> codec" where
  "newCodec lib secret secure =
     (let h = al_sha256 lib (''hash:'' @ secret); b = al_sha256 lib (''block:'' @ secret) in
      \<lparr>enc_session = al_encode lib h b, dec_session = al_decode lib h b sessionTTL,
       enc_string = al_encode_string lib h b, dec_string = al_decode_string lib h b sessionTTL,
       cd_secure = secure\<rparr>)"

definition oauth_of :: "server_config \<Rightarrow> oauth" where
  "oauth_of cfg = \<lparr>oa_client = OIDCClientID cfg, oa_secret = OIDCClientSecret cfg, oa_redirect = OIDCRedirectURL cfg,
     oa_scopes = [''openid'', ''profile'', ''email'', ''read_user'']\<rparr>"

text \<open>In the development mode there is no provider, and the handlers do not ask one.\<close>

definition auth_New :: "auth_libs \<Rightarrow> server_config \<Rightarrow> string + auth_env" where
  "auth_New lib cfg =
     (let a = \<lparr>ae_codec = newCodec lib (SessionSecret cfg) (CookieSecure cfg), ae_sha256 = al_sha256 lib,
            ae_dev_email = DevAuthEmail cfg, ae_bootstrap = BootstrapAdmin cfg, ae_cookie_secure = CookieSecure cfg,
            ae_lower = al_lower lib, ae_code_url = (\<lambda>_ _. []), ae_exchange = (\<lambda>_. None), ae_verify = (\<lambda>_. None)\<rparr>
      in if DevAuthEmail cfg \<noteq> [] then Inr a
         else (case al_provider lib (OIDCIssuer cfg) of
             Inl e \<Rightarrow> Inl (''oidc discovery: '' @ e)
           | Inr p \<Rightarrow> Inr (a\<lparr>ae_code_url := pv_code_url p (oauth_of cfg), ae_exchange := pv_exchange p (oauth_of cfg),
               ae_verify := pv_verify p (OIDCClientID cfg)\<rparr>)))"

lemma auth_New_env:
  assumes "auth_New lib cfg = Inr e"
  shows "ae_codec e = newCodec lib (SessionSecret cfg) (CookieSecure cfg)" and "DevMode e \<longleftrightarrow> DevAuthEmail cfg \<noteq> []"
    and "ae_lower e = al_lower lib" and "ae_bootstrap e = BootstrapAdmin cfg"
    and "DevAuthEmail cfg = [] \<Longrightarrow> \<exists>p. al_provider lib (OIDCIssuer cfg) = Inr p \<and> ae_code_url e = pv_code_url p (oauth_of cfg) \<and>
       ae_exchange e = pv_exchange p (oauth_of cfg) \<and> ae_verify e = pv_verify p (OIDCClientID cfg)"
  using assms by (auto simp: auth_New_def DevMode_def Let_def split: if_splits sum.splits)

section \<open>Random tokens\<close>

text \<open>\<open>base64.RawURLEncoding\<close>: groups of three bytes as four digits, without padding.\<close>

definition url64 :: "nat \<Rightarrow> char" where
  "url64 n = (if n < 26 then char_of (65 + n) else if n < 52 then char_of (71 + n)
     else if n < 62 then char_of (n - 4) else if n = 62 then CHR ''-'' else CHR ''_'')"

fun sextets :: "nat list \<Rightarrow> nat list" where
  "sextets (a # b # c # r) =
     [a div 4, a mod 4 * 16 + b div 16, b mod 16 * 4 + c div 64, c mod 64] @ sextets r"
| "sextets [a, b] = [a div 4, a mod 4 * 16 + b div 16, b mod 16 * 4]"
| "sextets [a] = [a div 4, a mod 4 * 16]"
| "sextets [] = []"

definition RawURLEncoding :: "string \<Rightarrow> string" where
  "RawURLEncoding s = map url64 (sextets (map byte s))"

text \<open>The random source gives as many bytes as the buffer has room for.\<close>

definition randToken :: "string \<Rightarrow> string" where
  "randToken bytes = RawURLEncoding (take 24 bytes)"

text \<open>Two different draws are two different tokens, of 32 characters that need no escaping in an URL.\<close>

fun unsextets :: "nat list \<Rightarrow> nat list" where
  "unsextets (x # y # z # w # r) =
     [x * 4 + y div 16, y mod 16 * 16 + z div 4, z mod 4 * 64 + w] @ unsextets r"
| "unsextets [x, y, z] = [x * 4 + y div 16, y mod 16 * 16 + z div 4]"
| "unsextets [x, y] = [x * 4 + y div 16]"
| "unsextets xs = []"

lemma digit_split: "x < k \<Longrightarrow> (a * k + x) div k = (a :: nat)" "x < k \<Longrightarrow> (a * k + x) mod k = x"
  by (simp_all add: add.commute)

lemma byte_parts: "b < 256 \<Longrightarrow> b div 4 < 64" "b < 256 \<Longrightarrow> b div 16 < 16" "b < 256 \<Longrightarrow> b div 64 < (4 :: nat)"
  by (simp_all add: less_mult_imp_div_less)

lemma sextet_arith:
  "b < 256 \<Longrightarrow> a div 4 * 4 + (a mod 4 * 16 + b div 16) div 16 = (a :: nat)"
  "b < 256 \<Longrightarrow> c < 256 \<Longrightarrow> (a mod 4 * 16 + b div 16) mod 16 * 16 + (b mod 16 * 4 + c div 64) div 4 = b"
  "c < 256 \<Longrightarrow> (b mod 16 * 4 + c div 64) mod 4 * 64 + c mod 64 = c"
  by (simp_all only: digit_split byte_parts div_mult_mod_eq)

lemma unsextets_sextets: "list_all (\<lambda>b. b < 256) bs \<Longrightarrow> unsextets (sextets bs) = bs"
proof (induction bs rule: sextets.induct)
  case (1 a b c r)
  then have "a < 256" "b < 256" "c < 256" "unsextets (sextets r) = r" by simp_all
  then show ?case by (simp only: sextets.simps append_Cons append_Nil unsextets.simps sextet_arith)
next
  case (2 a b)
  then have "b < 256" by simp
  then show ?case using sextet_arith(1) [of b a] sextet_arith(2) [of b 0 a]
    by (simp only: sextets.simps unsextets.simps div_0 add_0_right)
next
  case (3 a)
  then show ?case using sextet_arith(1) [of 0 a] by (simp only: sextets.simps unsextets.simps div_0 add_0_right)
qed simp

lemma sextet_less: "x < 4 \<Longrightarrow> y < 16 \<Longrightarrow> x * 16 + y < (64 :: nat)" "x < 16 \<Longrightarrow> y < 4 \<Longrightarrow> x * 4 + y < (64 :: nat)"
  by simp_all

lemma sextets_bound: "list_all (\<lambda>b. b < 256) bs \<Longrightarrow> list_all (\<lambda>n. n < 64) (sextets bs)"
proof (induction bs rule: sextets.induct)
  case (1 a b c r)
  then show ?case by (simp add: byte_parts sextet_less)
next
  case (2 a b)
  then show ?case using sextet_less(2) [of "b mod 16" 0] by (simp add: byte_parts sextet_less)
next
  case (3 a)
  then show ?case using sextet_less(1) [of "a mod 4" 0] by (simp add: byte_parts)
qed simp

lemma url64_inj: "m < 64 \<Longrightarrow> n < 64 \<Longrightarrow> url64 m = url64 n \<Longrightarrow> m = n"
proof -
  assume "m < 64" "n < 64" and eq: "url64 m = url64 n"
  have "byte (url64 k) = (if k < 26 then 65 + k else if k < 52 then 71 + k
     else if k < 62 then k - 4 else if k = 62 then 45 else 95)" if "k < 64" for k
    using that by (simp add: url64_def)
  with \<open>m < 64\<close> \<open>n < 64\<close> eq show ?thesis by (auto split: if_splits dest: arg_cong [of _ _ byte])
qed

lemma length_sextets: "length (sextets bs) = (4 * length bs + 2) div 3"
  by (induction bs rule: sextets.induct) simp_all

lemma RawURLEncoding_inj: "RawURLEncoding s = RawURLEncoding t \<Longrightarrow> s = t"
proof -
  assume eq: "RawURLEncoding s = RawURLEncoding t"
  have small: "list_all (\<lambda>b. b < 256) (map byte u)" for u :: string by (simp add: list_all_iff)
  have inj: "inj_on url64 {n. n < 64}" by (intro inj_onI) (simp add: url64_inj)
  have "set (sextets (map byte u)) \<subseteq> {n. n < 64}" for u :: string
    using sextets_bound [OF small [of u]] by (auto simp: list_all_iff)
  with eq have "sextets (map byte s) = sextets (map byte t)"
    unfolding RawURLEncoding_def by (intro map_inj_on [of url64]) (auto intro: inj_on_subset [OF inj])
  then have "map byte s = map byte t" using unsextets_sextets [OF small] by metis
  moreover have "inj byte" by (rule injI) simp
  ultimately show ?thesis by (simp add: inj_map_eq_map)
qed

lemma randToken_inj:
  "length bs = 24 \<Longrightarrow> length cs = 24 \<Longrightarrow> randToken bs = randToken cs \<Longrightarrow> bs = cs"
  using RawURLEncoding_inj by (simp add: randToken_def)

lemma length_randToken: "length bs = 24 \<Longrightarrow> length (randToken bs) = 32"
  by (simp add: randToken_def RawURLEncoding_def length_sextets)

section \<open>The login as a whole\<close>

text \<open>What the libraries promise: what was encoded with two keys is decoded with the same keys, and random tokens,
  which are short, can be encoded.\<close>

definition codec_laws :: "auth_libs \<Rightarrow> bool" where
  "codec_laws lib \<longleftrightarrow>
     (\<forall>h b n s x. al_encode lib h b n s = Some x \<longrightarrow> al_decode lib h b sessionTTL n x = Some s) \<and>
     (\<forall>h b n v. length v \<le> 32 \<longrightarrow>
        (\<exists>x. al_encode_string lib h b n v = Some x \<and> al_decode_string lib h b sessionTTL n x = Some v))"

lemma session_across:
  assumes "codec_laws lib" and "auth_New lib cfg = Inr e" and "auth_New lib cfg' = Inr e'"
    and "SessionSecret cfg = SessionSecret cfg'" and "enc_session (ae_codec e) n s = Some v"
  shows "dec_session (ae_codec e') n v = Some s"
  using assms(1,4,5) unfolding auth_New_env(1) [OF assms(2)] auth_New_env(1) [OF assms(3)]
  by (auto simp: newCodec_def codec_laws_def Let_def)

lemma flow_across:
  assumes "codec_laws lib" and "auth_New lib cfg = Inr e" and "auth_New lib cfg' = Inr e'"
    and "SessionSecret cfg = SessionSecret cfg'" and "length v \<le> 32"
    and "map_of (ar_cookies rq) n = Some (ck_value (setFlow e n v now))"
  shows "getFlow e' rq n = v"
proof -
  let ?h = "al_sha256 lib (''hash:'' @ SessionSecret cfg)" and ?b = "al_sha256 lib (''block:'' @ SessionSecret cfg)"
  from assms(1,5) obtain x where x: "al_encode_string lib ?h ?b n v = Some x" "al_decode_string lib ?h ?b sessionTTL n x = Some v"
    unfolding codec_laws_def by blast
  then have "ck_value (setFlow e n v now) = x"
    by (simp add: setFlow_def auth_New_env(1) [OF assms(2)] newCodec_def Let_def)
  with assms(4,6) x(2) show ?thesis by (simp add: getFlow_def auth_New_env(1) [OF assms(3)] newCodec_def Let_def)
qed

text \<open>The callback passes its checks with the cookies of the redirect.\<close>

lemma callback_passes:
  assumes laws: "codec_laws lib" and new: "auth_New lib cfg1 = Inr e1" "auth_New lib cfg2 = Inr e2"
    and secret: "SessionSecret cfg1 = SessionSecret cfg2" and oidc: "DevAuthEmail cfg1 = []" "DevAuthEmail cfg2 = []"
    and rand: "ar_rand rq1 = (randToken b1, randToken b2)" "length b1 = 24" "length b2 = 24"
    and login: "LoginHandler e1 rq1 w1 = (r1, w1')"
    and returned: "ar_cookies rq2 = map (\<lambda>c. (ck_name c, ck_value c)) (set_cookies r1)" "ar_state rq2 = randToken b1"
    and vouched: "ae_exchange e2 (ar_code rq2) = Some (Some rawID)" "ae_verify e2 rawID = Some (randToken b2, Some c)"
  shows "result r1 = Redirect (ae_code_url e1 (randToken b1) (randToken b2))"
    and "CallbackHandler e2 rq2 w2 =
       finishLogin e2 (cl_sub c) (cl_email c) (if cl_name c = [] then cl_preferred c else cl_name c) w2"
proof -
  have dev: "\<not> DevMode e1" "\<not> DevMode e2" using auth_New_env(2) [OF new(1)] auth_New_env(2) [OF new(2)] oidc by simp_all
  have len: "length (randToken b1) = 32" "length (randToken b2) = 32"
    using rand by (simp_all add: length_randToken)
  from login rand dev(1) have r1: "result r1 = Redirect (ae_code_url e1 (randToken b1) (randToken b2))"
    "set_cookies r1 = [setFlow e1 ''oidc_state'' (randToken b1) (seconds w1), setFlow e1 ''oidc_nonce'' (randToken b2) (seconds w1)]"
    by (auto simp: LoginHandler_def)
  have "ck_name (setFlow e n v t) = n" for e n v t by (simp add: setFlow_def)
  then have cookies: "map_of (ar_cookies rq2) ''oidc_state'' = Some (ck_value (setFlow e1 ''oidc_state'' (randToken b1) (seconds w1)))"
    "map_of (ar_cookies rq2) ''oidc_nonce'' = Some (ck_value (setFlow e1 ''oidc_nonce'' (randToken b2) (seconds w1)))"
    by (simp_all add: returned r1)
  note flow = flow_across [OF laws new(1,2) secret(1)]
  have state: "getFlow e2 rq2 ''oidc_state'' = randToken b1" and nonce: "getFlow e2 rq2 ''oidc_nonce'' = randToken b2"
    using flow [OF _ cookies(1)] flow [OF _ cookies(2)] len by simp_all
  have "randToken b1 \<noteq> []" using len by auto
  with dev(2) state nonce returned(2) vouched
  show "CallbackHandler e2 rq2 w2 =
      finishLogin e2 (cl_sub c) (cl_email c) (if cl_name c = [] then cl_preferred c else cl_name c) w2"
    by (simp add: CallbackHandler_def)
  show "result r1 = Redirect (ae_code_url e1 (randToken b1) (randToken b2))" by (rule r1(1))
qed

text \<open>C18. The login works from end to end, also when the redirect to the provider, the callback and the later
  requests meet different replicas, as long as they have the same session secret: if the browser comes back with the
  cookies of the redirect and its state, and the provider vouches for the nonce of the redirect, then the cookie that the
  callback sets authenticates later requests at every replica as the user whom the provider named, as long as the
  database answers and nothing changed in between.\<close>

theorem login_at_every_replica:
  assumes laws: "codec_laws lib"
    and new: "auth_New lib cfg1 = Inr e1" "auth_New lib cfg2 = Inr e2" "auth_New lib cfg3 = Inr e3"
    and secret: "SessionSecret cfg1 = SessionSecret cfg2" "SessionSecret cfg2 = SessionSecret cfg3"
    and oidc: "DevAuthEmail cfg1 = []" "DevAuthEmail cfg2 = []"
    and rand: "ar_rand rq1 = (randToken b1, randToken b2)" "length b1 = 24" "length b2 = 24"
    and login: "LoginHandler e1 rq1 w1 = (r1, w1')"
    and returned: "ar_cookies rq2 = map (\<lambda>c. (ck_name c, ck_value c)) (set_cookies r1)" "ar_state rq2 = randToken b1"
    and vouched: "ae_exchange e2 (ar_code rq2) = Some (Some rawID)" "ae_verify e2 rawID = Some (randToken b2, Some c)"
    and db: "reachable (w_db w2)" "faults (w_db w2) = []"
    and callback: "CallbackHandler e2 rq2 w2 = (r2, w3)" "set_cookies r2 = [ck]"
    and later: "map_of (ar_cookies rq3) (ck_name ck) = Some (ck_value ck)"
  shows "result r1 = Redirect (ae_code_url e1 (randToken b1) (randToken b2)) \<and>
     (\<exists>u. Middleware e3 rq3 w3 = (Some u, w3) \<and> u_subject u = cl_sub c \<and>
        u_email u = ToLower (ae_lower e2) (TrimSpace (cl_email c)))"
proof -
  note passes = callback_passes [OF laws new(1,2) secret(1) oidc rand login returned vouched]
  from callback(1) passes(2)
  have "finishLogin e2 (cl_sub c) (cl_email c) (if cl_name c = [] then cl_preferred c else cl_name c) w2 = (r2, w3)" by simp
  from session_comes_back [OF db session_across [OF laws new(2,3) secret(2)] this callback(2) later] passes(1)
  show ?thesis by blast
qed

text \<open>Example libraries, which put the keys in front of what they encode.\<close>

definition demo_libs :: auth_libs where
  "demo_libs = \<lparr>al_sha256 = (\<lambda>s. s), al_lower = (\<lambda>s. s),
     al_encode = (\<lambda>h b n s. enc_session full_codec n s),
     al_decode = (\<lambda>h b ttl n v. dec_session full_codec n v),
     al_encode_string = (\<lambda>h b n v. Some (h @ v)),
     al_decode_string = (\<lambda>h b ttl n v. if has_prefix h v then Some (drop (length h) v) else None),
     al_provider = (\<lambda>i. if i = ''https://id'' then Inr \<lparr>pv_code_url = (\<lambda>oa st nonce. st @ nonce),
        pv_exchange = (\<lambda>oa code. Some (Some code)),
        pv_verify = (\<lambda>client raw. Some (raw, Some \<lparr>cl_sub = ''s1'', cl_email = ''ann@x'', cl_name = ''Ann'', cl_preferred = []\<rparr>))\<rparr>
       else Inl ''not found'')\<rparr>"

definition demo_server :: "string \<Rightarrow> server_config" where
  "demo_server nm = \<lparr>DatabaseURL = ''postgres://db'', ContourName = nm, HTTPAddr = '':8080'', GRPCAddr = '':9090'',
     OIDCIssuer = ''https://id'', OIDCClientID = ''c'', OIDCClientSecret = ''s'', OIDCRedirectURL = ''r'',
     SessionSecret = ''k'', BootstrapAdmin = [], CookieSecure = False, AuditMaxEntries = 5000, DevAuthEmail = []\<rparr>"

lemma demo_laws: "codec_laws demo_libs"
  using full_codec by (auto simp: codec_laws_def demo_libs_def)

definition demo_draw :: "nat \<Rightarrow> string" where
  "demo_draw n = replicate 24 (char_of n)"

text \<open>The three replicas have names of their own.\<close>

definition demo_authenticator :: "string \<Rightarrow> auth_env" where
  "demo_authenticator nm = projr (auth_New demo_libs (demo_server nm))"

lemma demo_New: "auth_New demo_libs (demo_server nm) = Inr (demo_authenticator nm)"
  by (simp add: demo_authenticator_def auth_New_def demo_libs_def demo_server_def)

lemma login_at_every_replica_witness:
  "\<exists>rq w u. Middleware (demo_authenticator ''c'') rq w = (Some u, w) \<and> u_subject u = ''s1''"
proof -
  let ?b1 = "demo_draw 1" and ?b2 = "demo_draw 2"
  define rq1 where "rq1 = \<lparr>ar_cookies = [], ar_authorization = [], ar_state = [], ar_code = [],
    ar_rand = (randToken ?b1, randToken ?b2)\<rparr>"
  obtain r1 w1 where login: "LoginHandler (demo_authenticator ''a'') rq1 fresh_world = (r1, w1)" by fastforce
  define rq2 where "rq2 = \<lparr>ar_cookies = map (\<lambda>c. (ck_name c, ck_value c)) (set_cookies r1), ar_authorization = [],
    ar_state = randToken ?b1, ar_code = randToken ?b2, ar_rand = ([], [])\<rparr>"
  obtain r2 w3 where callback: "CallbackHandler (demo_authenticator ''b'') rq2 fresh_world = (r2, w3)" by fastforce
  have fields: "ar_rand rq1 = (randToken ?b1, randToken ?b2)" "length ?b1 = 24" "length ?b2 = 24"
    "ar_cookies rq2 = map (\<lambda>c. (ck_name c, ck_value c)) (set_cookies r1)" "ar_state rq2 = randToken ?b1"
    "faults (w_db fresh_world) = []"
    by (simp_all add: rq1_def rq2_def demo_draw_def fresh_world_def init_db_def)
  have cfgs: "SessionSecret (demo_server x) = SessionSecret (demo_server y)" "DevAuthEmail (demo_server x) = []" for x y
    by (simp_all add: demo_server_def)
  have vouched: "ae_exchange (demo_authenticator ''b'') (ar_code rq2) = Some (Some (randToken ?b2))"
    "ae_verify (demo_authenticator ''b'') (randToken ?b2) = Some (randToken ?b2,
       Some \<lparr>cl_sub = ''s1'', cl_email = ''ann@x'', cl_name = ''Ann'', cl_preferred = []\<rparr>)"
    by (simp_all add: demo_authenticator_def auth_New_def demo_libs_def demo_server_def rq2_def)
  from callback_passes(2) [OF demo_laws demo_New demo_New cfgs(1,2,2) fields(1,2,3) login fields(4,5) vouched, of fresh_world]
  have "finishLogin (demo_authenticator ''b'') ''s1'' ''ann@x'' ''Ann'' fresh_world = (r2, w3)" unfolding callback by simp
  moreover have "length (set_cookies (fst (finishLogin (demo_authenticator ''b'') ''s1'' ''ann@x'' ''Ann'' fresh_world))) = 1"
    by code_simp
  ultimately obtain ck where ck: "set_cookies r2 = [ck]" by (auto simp: length_Suc_conv)
  define rq3 where "rq3 = \<lparr>ar_cookies = [(ck_name ck, ck_value ck)], ar_authorization = [], ar_state = [],
    ar_code = [], ar_rand = ([], [])\<rparr>"
  have rq3: "map_of (ar_cookies rq3) (ck_name ck) = Some (ck_value ck)" by (simp add: rq3_def)
  from login_at_every_replica [OF demo_laws demo_New demo_New demo_New cfgs(1,1,2,2) fields(1,2,3) login fields(4,5)
      vouched reachable_fresh fields(6) callback ck rq3, of "''c''"]
  show ?thesis by auto
qed

end
