(* ===== verification/Http_Sse.thy ===== *)
theory Http_Sse
  imports Http_Access
begin

text \<open>
  \<open>internal/httpserver/sse.go\<close>: the stream of events for the browser. As a stream of the gRPC
  server it is a machine whose steps are the accesses to the broker; it subscribes to the events
  of every service.
\<close>

section \<open>Frames\<close>

definition sse_event_name :: "event \<Rightarrow> string" where
  "sse_event_name ev = (if ev_kind ev = KindVar then ''variable''
     else if ev_kind ev = KindConns then ''connections'' else ''message'')"

definition sse_frame :: "event \<Rightarrow> string" where
  "sse_frame ev = ''event: '' @ sse_event_name ev @ newline # ''data: '' @ marshal_event ev @ [newline, newline]"

definition sse_comment :: "string \<Rightarrow> string" where
  "sse_comment s = '': '' @ s @ [newline, newline]"

section \<open>The handler\<close>

datatype sse_phase = SseStart | SseOpen nat | SseDone

datatype sse_choice = SseContextDone | SseEvent | SsePing

text \<open>
  \<open>flusher\<close> says whether the response writer can flush. A step writes an error response or a piece
  of the stream, or nothing; None when the case that was chosen is not ready.
\<close>

definition sse_step ::
  "bool \<Rightarrow> http_request \<Rightarrow> sse_choice \<Rightarrow> sse_phase \<Rightarrow> broker \<Rightarrow>
     ((response + string) option \<times> sse_phase \<times> broker) option" where
  "sse_step flusher rq ch ph b = (case ph of
      SseStart \<Rightarrow>
        (case hr_user rq of
           None \<Rightarrow> Some (Some (Inl unauthenticated), SseDone, b)
         | Some u \<Rightarrow>
             (if \<not> flusher then Some (Some (Inl (writeErr 500 ''streaming unsupported'')), SseDone, b)
              else (let (i, b1) = Subscribe 0 b in Some (Some (Inr (sse_comment ''connected'')), SseOpen i, b1))))
    | SseOpen i \<Rightarrow>
        (case ch of
           SseContextDone \<Rightarrow> Some (None, SseDone, unsubscribe i b)
         | SseEvent \<Rightarrow>
             (case receive i b of
                None \<Rightarrow> None
              | Some (ev, b1) \<Rightarrow> Some (Some (Inr (sse_frame ev)), SseOpen i, b1))
         | SsePing \<Rightarrow> Some (Some (Inr (sse_comment ''ping'')), SseOpen i, b))
    | SseDone \<Rightarrow> None)"

section \<open>JSON on one line\<close>

text \<open>What \<open>json.Marshal\<close> writes has no control characters.\<close>

abbreviation no_ctl :: "string \<Rightarrow> bool" where
  "no_ctl \<equiv> list_all (\<lambda>c. 32 \<le> byte c)"

lemma cont_high:
  "is_cont c \<Longrightarrow> 128 \<le> byte c"
  "(if byte a = 0xE0 then in_range 0xA0 0xBF b else if byte a = 0xED then in_range 0x80 0x9F b else is_cont b) \<Longrightarrow>
     128 \<le> byte b"
  "(if byte a = 0xF0 then in_range 0x90 0xBF b else if byte a = 0xF4 then in_range 0x80 0x8F b else is_cont b) \<Longrightarrow>
     128 \<le> byte b"
  by (auto simp: is_cont_def in_range_def split: if_splits)

lemma rune_bytes:
  assumes "s = a # rest" and "\<not> byte a < 128"
  shows "list_all (\<lambda>c. 128 \<le> byte c) (take (rune_len s) s)"
proof (cases rest)
  case Nil
  with assms show ?thesis by (simp add: rune_len.simps)
next
  case (Cons b rest')
  define ok3 where "ok3 = (if byte a = 0xE0 then in_range 0xA0 0xBF b else if byte a = 0xED then in_range 0x80 0x9F b else is_cont b)"
  define ok4 where "ok4 = (if byte a = 0xF0 then in_range 0x90 0xBF b else if byte a = 0xF4 then in_range 0x80 0x8F b else is_cont b)"
  have len: "rune_len s = (if in_range 0xC2 0xDF a then (if is_cont b then 2 else 0)
      else if in_range 0xE0 0xEF a then (case rest' of [] \<Rightarrow> 0 | c # _ \<Rightarrow> if ok3 \<and> is_cont c then 3 else 0)
      else if in_range 0xF0 0xF4 a then (case rest' of c # e # _ \<Rightarrow> if ok4 \<and> is_cont c \<and> is_cont e then 4 else 0
         | _ \<Rightarrow> 0)
      else 0)"
    using assms Cons by (simp only: rune_len.simps Let_def list.case if_False ok3_def ok4_def)
  have high: "ok3 \<Longrightarrow> 128 \<le> byte b" "ok4 \<Longrightarrow> 128 \<le> byte b"
    unfolding ok3_def ok4_def by (fact cont_high)+
  show ?thesis
    unfolding len using assms Cons high cont_high(1) by (auto split: list.split)
qed

lemma no_ctl_mono: "list_all (\<lambda>c. 128 \<le> byte c) s \<Longrightarrow> no_ctl s"
  by (auto simp: list_all_iff)

lemma hex_digit_ge: "n < 16 \<Longrightarrow> 32 \<le> byte (hex_digit n)"
  by (simp add: hex_digit_def)

lemma no_ctl_u_escape: "n < 65536 \<Longrightarrow> no_ctl (u_escape n)"
  by (simp add: u_escape_def hex_digit_ge)

lemma no_ctl_esc_ascii: "no_ctl (esc_ascii c)"
  using byte_less [of c] by (auto simp: esc_ascii_def quote_def backslash_def intro!: no_ctl_u_escape)

lemma no_ctl_esc: "no_ctl (esc s)"
proof (induction s rule: esc.induct)
  case (1 s)
  show ?case
  proof (cases s)
    case Nil
    then show ?thesis by (simp add: esc.simps)
  next
    case (Cons c cs)
    show ?thesis
    proof (cases "byte c < 128")
      case True
      with 1(1) [OF Cons True] no_ctl_esc_ascii Cons show ?thesis by (subst esc.simps) simp
    next
      case False
      with 1(2-5) [OF Cons False] Cons no_ctl_mono [OF rune_bytes [OF Cons False]]
      show ?thesis by (subst esc.simps) (simp add: no_ctl_u_escape)
    qed
  qed
qed

lemma no_ctl_quote: "no_ctl (json_quote s)"
  using no_ctl_esc [of s] by (simp add: json_quote_def quote_def)

lemma no_ctl_commas: "list_all no_ctl xs \<Longrightarrow> no_ctl (commas xs)"
  by (induction xs rule: commas.induct) auto

lemma num_char_ge: "num_char c \<Longrightarrow> 32 \<le> byte c"
  by (auto simp: num_char_def is_digit_def)

lemma no_ctl_render: "json_ok j \<Longrightarrow> no_ctl (render j)"
proof (induction j rule: render.induct)
  case (3 n)
  then show ?case by (auto simp: list_all_iff num_char_ge)
next
  case (5 xs)
  then have "list_all no_ctl (map render xs)" by (simp add: list_all_iff)
  then show ?case using no_ctl_commas by simp
next
  case (6 ms)
  then have "list_all no_ctl (map (\<lambda>(k, v). json_quote k @ '':'' @ render v) ms)"
    using no_ctl_quote by (fastforce simp: list_all_iff)
  then show ?case using no_ctl_commas by simp
qed (simp_all add: no_ctl_quote)

lemma no_ctl_marshal: "event_ok ev \<Longrightarrow> no_ctl (marshal_event ev)"
  unfolding marshal_event_def by (intro no_ctl_render json_ok_members)

section \<open>What a browser receives\<close>

text \<open>
  A reader of the stream, as the standard of server-sent events has it: a line ends with a line feed,
  a carriage return or both, the lines up to the first empty one make one message, of which the fields
  \<open>event\<close> and \<open>data\<close> are kept.
\<close>

fun read_line :: "string \<Rightarrow> string \<times> string" where
  "read_line [] = ([], [])" |
  "read_line (c # cs) = (if c = newline then ([], cs)
     else if c = CHR 0x0D then ([], if has_prefix [newline] cs then tl cs else cs)
     else (case read_line cs of (l, r) \<Rightarrow> (c # l, r)))"

lemma read_line_append: "no_ctl l \<Longrightarrow> read_line (l @ newline # r) = (l, r)"
  by (induction l) (auto simp: newline_def)

definition read_field :: "string \<Rightarrow> string \<Rightarrow> (string \<times> string) option" where
  "read_field name s = (case read_line s of (l, r) \<Rightarrow>
     if has_prefix (name @ '': '') l then Some (drop (length name + 2) l, r) else None)"

definition read_sse :: "string \<Rightarrow> (string \<times> string \<times> string) option" where
  "read_sse s = (case read_field ''event'' s of None \<Rightarrow> None
     | Some (e, r) \<Rightarrow> (case read_field ''data'' r of None \<Rightarrow> None
        | Some (d, r') \<Rightarrow> (case read_line r' of (l, r'') \<Rightarrow> if l = [] then Some (e, d, r'') else None)))"

lemma read_field_line:
  assumes "no_ctl name" and "no_ctl v"
  shows "read_field name (name @ '': '' @ v @ newline # r) = Some (v, r)"
proof -
  have "read_line ((name @ '': '' @ v) @ newline # r) = (name @ '': '' @ v, r)"
    by (rule read_line_append) (use assms in simp)
  moreover have "has_prefix (name @ '': '') ((name @ '': '') @ v)" by (rule has_prefix_append)
  ultimately show ?thesis by (simp add: read_field_def)
qed

lemma no_ctl_event_name: "no_ctl (sse_event_name ev)"
  by (simp add: sse_event_name_def)

text \<open>C27. Every event, whatever text its key and value hold, travels to the browser as exactly one
  message, which names its kind and whose data parses back to the event; the next message begins
  right behind it. No value can end a message early or forge another one.\<close>

theorem sse_frame_roundtrip:
  assumes "event_ok ev"
  shows "\<exists>d. read_sse (sse_frame ev @ rest) = Some (sse_event_name ev, d, rest) \<and> unmarshal_event d = Some ev"
proof (intro exI conjI)
  show "read_sse (sse_frame ev @ rest) = Some (sse_event_name ev, marshal_event ev, rest)"
    using read_field_line [of "''event''", OF _ no_ctl_event_name]
      read_field_line [of "''data''", OF _ no_ctl_marshal [OF assms]]
    by (simp add: read_sse_def sse_frame_def newline_def)
  show "unmarshal_event (marshal_event ev) = Some ev" by (rule unmarshal_marshal [OF assms])
qed

theorem sse_frame_roundtrip_witness:
  "\<exists>d. read_sse (sse_frame (zero_event\<lparr>ev_kind := KindVar, ev_value := [newline, newline]\<rparr>) @ ''x'') =
     Some (''variable'', d, ''x'')"
proof -
  let ?ev = "zero_event\<lparr>ev_kind := KindVar, ev_value := [newline, newline]\<rparr>"
  have "event_ok ?ev" by (simp add: event_ok_def zero_event_def KindVar_def newline_def int64_min_def int64_max_def)
  from sse_frame_roundtrip [OF this, of "''x''"] show ?thesis by (auto simp: sse_event_name_def)
qed

end
