(* ===== verification/Propagation.thy ===== *)
theory Propagation
  imports Write_Effects Http_Sse
begin

text \<open>
  The way of a change to the clients, across processes: a writer commits it and afterwards
  publishes it on the NOTIFY channel; every replica reads the channel and fans out to its
  subscribers (\<open>listenLoop\<close> and \<open>dispatch\<close> of \<open>broker.go\<close>); the stream handlers turn events into
  messages, which the clients apply. The steps of the parts interleave in any order, and a
  replica may lose its connection to the channel, whose events of that time are gone.
\<close>

section \<open>State\<close>

record replica =
  rp_broker :: broker
  rp_listening :: bool
  rp_read :: nat

text \<open>
  A client with its present stream: the replica and the handler, the messages on the way, and
  whether the replica missed or dropped an event since the stream subscribed (which no code
  knows; only the proofs look at it).
\<close>

record link =
  ss_replica :: nat
  ss_ep :: stream_id
  ss_rq :: request
  ss_phase :: phase
  ss_chan :: "config_event list"
  ss_client :: client
  ss_lossy :: bool

record page =
  pg_replica :: nat
  pg_phase :: sse_phase

text \<open>
  \<open>n_owed\<close> holds what was committed and not yet published, in the order of the commits;
  \<open>n_spoiled\<close> the services with a change that was never announced, or not in order.
\<close>

record net =
  n_db :: db
  n_rep :: "nat \<Rightarrow> replica"
  n_sess :: "nat \<Rightarrow> link"
  n_page :: "nat \<Rightarrow> page"
  n_owed :: "event list"
  n_spoiled :: "int set"

section \<open>Steps\<close>

datatype action =
    Write int log_cmd
  | WriteAll int "(string \<times> string) list" string
  | Announce nat
  | Forget nat
  | StoreOp store_op
  | Wait int
  | Weather "bool list"
  | Notify nat
  | ListenLost nat
  | Listen nat
  | Connect nat nat stream_id request
  | Serve nat choice
  | Deliver nat
  | OpenPage nat nat
  | ServePage nat http_request sse_choice

definition rows_of :: "int \<Rightarrow> tables \<Rightarrow> variable list" where
  "rows_of sid t = filter (\<lambda>v. v_service v = sid) (variables_tbl t)"

text \<open>The services whose variables differ.\<close>

definition changed :: "tables \<Rightarrow> tables \<Rightarrow> int list" where
  "changed t t' = filter (\<lambda>sid. rows_of sid t \<noteq> rows_of sid t')
     (map v_service (variables_tbl t @ variables_tbl t'))"

text \<open>
  A writer that committed and found its service. The database holds texts in UTF-8 and 64-bit
  integers only.
\<close>

definition act_write :: "int \<Rightarrow> log_cmd \<Rightarrow> net \<Rightarrow> net option" where
  "act_write sid c n = (case find_service (tbl (n_db n)) sid of
      None \<Rightarrow> None
    | Some svc \<Rightarrow> (case exec_cmd sid c (n_db n) of
         (Inl _, _) \<Rightarrow> None
       | (Inr ch, d) \<Rightarrow>
           if event_ok (write_event svc c ch)
           then Some (n\<lparr>n_db := d, n_owed := n_owed n @ [write_event svc c ch]\<rparr>) else None))"

definition act_write_all :: "int \<Rightarrow> (string \<times> string) list \<Rightarrow> string \<Rightarrow> net \<Rightarrow> net option" where
  "act_write_all sid kv who n = (case find_service (tbl (n_db n)) sid of
      None \<Rightarrow> None
    | Some svc \<Rightarrow> (case BulkUpsertVariables sid kv who (n_db n) of
         (Inl _, _) \<Rightarrow> None
       | (Inr chs, d) \<Rightarrow>
           if list_all event_ok (bulk_events svc chs)
           then Some (n\<lparr>n_db := d, n_owed := n_owed n @ bulk_events svc chs\<rparr>) else None))"

text \<open>The publishing of the i-th announcement that is owed. It may fail, and overtake others.\<close>

definition without :: "nat \<Rightarrow> 'a list \<Rightarrow> 'a list" where
  "without i xs = take i xs @ drop (Suc i) xs"

definition act_announce :: "nat \<Rightarrow> net \<Rightarrow> net option" where
  "act_announce i n = (if length (n_owed n) \<le> i then None
     else (let ev = n_owed n ! i; sid = ev_service_id ev; (r, d) = Publish ev (n_db n) in
       Some (n\<lparr>n_db := d, n_owed := without i (n_owed n),
         n_spoiled := (if r = Inr () \<and> list_all (\<lambda>e. ev_service_id e \<noteq> sid) (take i (n_owed n))
           then n_spoiled n else insert sid (n_spoiled n))\<rparr>)))"

text \<open>A writer whose lookup of the service failed announces nothing.\<close>

definition act_forget :: "nat \<Rightarrow> net \<Rightarrow> net option" where
  "act_forget i n = (if length (n_owed n) \<le> i then None
     else Some (n\<lparr>n_owed := without i (n_owed n),
       n_spoiled := insert (ev_service_id (n_owed n ! i)) (n_spoiled n)\<rparr>))"

definition act_store :: "store_op \<Rightarrow> net \<Rightarrow> net option" where
  "act_store c n = (case run_op c (n_db n) of (_, d) \<Rightarrow>
     Some (n\<lparr>n_db := d, n_spoiled := set (changed (tbl (n_db n)) (tbl d)) \<union> n_spoiled n\<rparr>))"

text \<open>The next notification for a replica.\<close>

definition drops :: "string \<Rightarrow> broker \<Rightarrow> nat \<Rightarrow> bool" where
  "drops payload b i = (case unmarshal_event payload of
      None \<Rightarrow> False
    | Some ev \<Rightarrow> (case find_sub i b of
         None \<Rightarrow> False
       | Some s \<Rightarrow> wants ev (sub_service s) \<and> \<not> length (sub_buf s) < chan_cap))"

definition mark :: "(link \<Rightarrow> nat \<Rightarrow> bool) \<Rightarrow> link \<Rightarrow> link" where
  "mark lost ss = (case held (ss_phase ss) of
      None \<Rightarrow> ss
    | Some i \<Rightarrow> ss\<lparr>ss_lossy := ss_lossy ss \<or> lost ss i\<rparr>)"

definition act_notify :: "nat \<Rightarrow> net \<Rightarrow> net option" where
  "act_notify r n = (let rp = n_rep n r; ns = notifs (n_db n) in
     if \<not> rp_listening rp \<or> length ns \<le> rp_read rp then None
     else (let payload = ns ! rp_read rp in
       Some (n\<lparr>n_rep := (n_rep n)(r := rp\<lparr>rp_broker := on_notification payload (rp_broker rp),
                rp_read := Suc (rp_read rp)\<rparr>),
              n_sess := (\<lambda>s. mark (\<lambda>ss i. ss_replica ss = r \<and> drops payload (rp_broker rp) i) (n_sess n s))\<rparr>)))"

text \<open>A new LISTEN sees only what is sent from then on.\<close>

definition act_listen :: "nat \<Rightarrow> net \<Rightarrow> net option" where
  "act_listen r n = (let rp = n_rep n r; ns = notifs (n_db n) in
     if rp_listening rp then None
     else Some (n\<lparr>n_rep := (n_rep n)(r := rp\<lparr>rp_listening := True, rp_read := length ns\<rparr>),
       n_sess := (\<lambda>s. mark (\<lambda>ss i. ss_replica ss = r \<and> rp_read rp < length ns) (n_sess n s))\<rparr>))"

text \<open>A client connects again: the replica is any, what was on the way is gone.\<close>

definition act_connect :: "nat \<Rightarrow> nat \<Rightarrow> stream_id \<Rightarrow> request \<Rightarrow> net \<Rightarrow> net option" where
  "act_connect s r ep rq n = (case ss_phase (n_sess n s) of
      Ended e \<Rightarrow> Some (n\<lparr>n_sess := (n_sess n)(s := \<lparr>ss_replica = r, ss_ep = ep, ss_rq = rq, ss_phase = Start,
        ss_chan = [], ss_client = ss_client (n_sess n s), ss_lossy = False\<rparr>)\<rparr>)
    | _ \<Rightarrow> None)"

definition set_broker :: "nat \<Rightarrow> broker \<Rightarrow> (nat \<Rightarrow> replica) \<Rightarrow> nat \<Rightarrow> replica" where
  "set_broker r b f = f(r := (f r)\<lparr>rp_broker := b\<rparr>)"

definition act_serve :: "nat \<Rightarrow> choice \<Rightarrow> net \<Rightarrow> net option" where
  "act_serve s ch n = (let ss = n_sess n s; r = ss_replica ss in
     case serve_step (ss_ep ss) (ss_rq ss) ch (ss_phase ss) (n_db n) (rp_broker (n_rep n r)) of
       None \<Rightarrow> None
     | Some (ms, ph, d, b) \<Rightarrow>
         Some (n\<lparr>n_db := d, n_rep := set_broker r b (n_rep n),
           n_sess := (n_sess n)(s := ss\<lparr>ss_phase := ph, ss_chan := ss_chan ss @ ms\<rparr>)\<rparr>))"

definition act_deliver :: "nat \<Rightarrow> net \<Rightarrow> net option" where
  "act_deliver s n = (let ss = n_sess n s in case ss_chan ss of
      [] \<Rightarrow> None
    | m # ms \<Rightarrow> Some (n\<lparr>n_sess := (n_sess n)(s := ss\<lparr>ss_chan := ms,
        ss_client := fst (on_event m (ss_client ss))\<rparr>)\<rparr>))"

definition act_open_page :: "nat \<Rightarrow> nat \<Rightarrow> net \<Rightarrow> net option" where
  "act_open_page x r n = (case pg_phase (n_page n x) of
      SseDone \<Rightarrow> Some (n\<lparr>n_page := (n_page n)(x := \<lparr>pg_replica = r, pg_phase = SseStart\<rparr>)\<rparr>)
    | _ \<Rightarrow> None)"

definition act_serve_page :: "nat \<Rightarrow> http_request \<Rightarrow> sse_choice \<Rightarrow> net \<Rightarrow> net option" where
  "act_serve_page x rq ch n = (let pg = n_page n x; r = pg_replica pg in
     case sse_step True rq ch (pg_phase pg) (rp_broker (n_rep n r)) of
       None \<Rightarrow> None
     | Some (_, ph, b) \<Rightarrow> Some (n\<lparr>n_rep := set_broker r b (n_rep n),
         n_page := (n_page n)(x := pg\<lparr>pg_phase := ph\<rparr>)\<rparr>))"

fun net_act :: "action \<Rightarrow> net \<Rightarrow> net option" where
  "net_act (Write sid c) n = act_write sid c n"
| "net_act (WriteAll sid kv who) n = act_write_all sid kv who n"
| "net_act (Announce i) n = act_announce i n"
| "net_act (Forget i) n = act_forget i n"
| "net_act (StoreOp c) n = act_store c n"
| "net_act (Wait k) n = (if 0 \<le> k then Some (n\<lparr>n_db := (n_db n)\<lparr>clock := clock (n_db n) + k\<rparr>\<rparr>) else None)"
| "net_act (Weather fs) n = Some (n\<lparr>n_db := (n_db n)\<lparr>faults := fs\<rparr>\<rparr>)"
| "net_act (Notify r) n = act_notify r n"
| "net_act (ListenLost r) n =
     Some (n\<lparr>n_rep := (n_rep n)(r := (n_rep n r)\<lparr>rp_listening := False\<rparr>)\<rparr>)"
| "net_act (Listen r) n = act_listen r n"
| "net_act (Connect s r ep rq) n = act_connect s r ep rq n"
| "net_act (Serve s ch) n = act_serve s ch n"
| "net_act (Deliver s) n = act_deliver s n"
| "net_act (OpenPage x r) n = act_open_page x r n"
| "net_act (ServePage x rq ch) n = act_serve_page x rq ch n"

fun net_run :: "action list \<Rightarrow> net \<Rightarrow> net option" where
  "net_run [] n = Some n"
| "net_run (a # as) n = (case net_act a n of None \<Rightarrow> None | Some n' \<Rightarrow> net_run as n')"

text \<open>The start: an empty database, replicas that just began to listen, clients not yet connected.\<close>

definition net_init :: "(string \<Rightarrow> string \<Rightarrow> bool) \<Rightarrow> (string \<Rightarrow> string \<Rightarrow> bool) \<Rightarrow> (nat \<Rightarrow> config) \<Rightarrow> net" where
  "net_init le like defaults = \<lparr>n_db = init_db le like,
     n_rep = (\<lambda>_. \<lparr>rp_broker = NewBroker, rp_listening = True, rp_read = 0\<rparr>),
     n_sess = (\<lambda>s. \<lparr>ss_replica = 0, ss_ep = \<lparr>ep_replica = [], ep_conn = [], ep_peer = []\<rparr>,
        ss_rq = \<lparr>rq_key = [], rq_snapshot = True\<rparr>, ss_phase = Ended (Status Unavailable), ss_chan = [],
        ss_client = NewClient (defaults s), ss_lossy = False\<rparr>),
     n_page = (\<lambda>_. \<lparr>pg_replica = 0, pg_phase = SseDone\<rparr>), n_owed = [], n_spoiled = {}\<rparr>"

inductive net_reach :: "net \<Rightarrow> bool" where
  init: "net_reach (net_init le like defaults)"
| step: "net_reach n \<Longrightarrow> net_act a n = Some n' \<Longrightarrow> net_reach n'"

lemma net_reach_run: "net_reach n \<Longrightarrow> net_run as n = Some n' \<Longrightarrow> net_reach n'"
  by (induction as arbitrary: n) (auto intro: net_reach.step split: option.splits)

end
