(* ===== verification/Propagation_Streams.thy ===== *)
theory Propagation_Streams
  imports Propagation
begin

text \<open>
  One service and one stream: for a service that is not spoiled, what is on the channel and
  what is owed to it, played in order, is the configuration in the database; for a stream that
  missed nothing, what is still to come for its client, played over what the client has, is that
  configuration too. The steps of writers, replicas and the stream itself keep this.
\<close>

section \<open>The channel and the writers\<close>

definition arrived :: "string list \<Rightarrow> event list" where
  "arrived ps = List.map_filter unmarshal_event ps"

definition about :: "int \<Rightarrow> event list \<Rightarrow> event list" where
  "about sid evs = filter (\<lambda>ev. ev_kind ev = KindVar \<and> ev_service_id ev = sid) evs"

lemma arrived_simps [simp]:
  "arrived [] = []" "arrived (p # ps) = (case unmarshal_event p of None \<Rightarrow> arrived ps | Some ev \<Rightarrow> ev # arrived ps)"
  "arrived (ps @ qs) = arrived ps @ arrived qs"
  by (induction ps) (auto simp: arrived_def List.map_filter_def split: option.split)

lemma about_simps [simp]:
  "about sid [] = []" "about sid (ev # evs) =
     (if ev_kind ev = KindVar \<and> ev_service_id ev = sid then ev # about sid evs else about sid evs)"
  "about sid (evs @ evs') = about sid evs @ about sid evs'"
  by (simp_all add: about_def)

definition advances :: "db \<Rightarrow> event list \<Rightarrow> int set \<Rightarrow> db \<Rightarrow> event list \<Rightarrow> int set \<Rightarrow> bool" where
  "advances d ow sp d' ow' sp' \<longleftrightarrow> sp \<subseteq> sp' \<and> (\<exists>ps. notifs d' = notifs d @ ps \<and> (\<forall>sid. sid \<notin> sp' \<longrightarrow>
     (\<exists>extra. about sid (arrived ps) @ about sid ow' = about sid ow @ extra \<and>
        config_of (tbl d') sid = play_all extra (config_of (tbl d) sid))))"

definition ledger :: "db \<Rightarrow> event list \<Rightarrow> int set \<Rightarrow> bool" where
  "ledger d ow sp \<longleftrightarrow> store_inv (tbl d) (seqs d) \<and> (\<forall>ev \<in> set ow. event_ok ev \<and> ev_kind ev = KindVar) \<and>
     (\<forall>sid. sid \<notin> sp \<longrightarrow>
        play_all (about sid (arrived (notifs d)) @ about sid ow) Map.empty = config_of (tbl d) sid)"

lemma ledger_advance:
  assumes "ledger d ow sp" and "advances d ow sp d' ow' sp'" and "store_inv (tbl d') (seqs d')"
    and "\<forall>ev \<in> set ow'. event_ok ev \<and> ev_kind ev = KindVar"
  shows "ledger d' ow' sp'"
proof -
  from assms(2) obtain ps where ps: "notifs d' = notifs d @ ps" and sub: "sp \<subseteq> sp'"
    and ex: "\<And>sid. sid \<notin> sp' \<Longrightarrow> \<exists>extra. about sid (arrived ps) @ about sid ow' = about sid ow @ extra \<and>
        config_of (tbl d') sid = play_all extra (config_of (tbl d) sid)"
    unfolding advances_def by blast
  have "play_all (about sid (arrived (notifs d')) @ about sid ow') Map.empty = config_of (tbl d') sid"
    if "sid \<notin> sp'" for sid
  proof -
    from ex [OF that] obtain extra where e: "about sid (arrived ps) @ about sid ow' = about sid ow @ extra"
      "config_of (tbl d') sid = play_all extra (config_of (tbl d) sid)" by blast
    have "play_all (about sid (arrived (notifs d)) @ about sid ow) Map.empty = config_of (tbl d) sid"
      using assms(1) sub that by (auto simp: ledger_def)
    then have "play_all (about sid (arrived (notifs d)) @ about sid ow @ extra) Map.empty = config_of (tbl d') sid"
      by (simp add: e(2))
    then show ?thesis unfolding ps by (simp only: arrived_simps about_simps append_assoc e(1))
  qed
  with assms(3,4) show ?thesis by (simp add: ledger_def)
qed

subsection \<open>What advances it\<close>

lemma advances_quiet:
  assumes "sp \<subseteq> sp'" and "notifs d' = notifs d @ ps" and "\<And>sid. about sid (arrived ps) = []"
    and "\<And>sid. sid \<notin> sp' \<Longrightarrow> config_of (tbl d') sid = config_of (tbl d) sid"
  shows "advances d ow sp d' ow sp'"
  unfolding advances_def
  by (intro conjI exI [of _ ps] allI impI exI [of _ "[]"]) (use assms in simp_all)

lemma advances_same:
  assumes "notifs d' = notifs d" and "variables_tbl (tbl d') = variables_tbl (tbl d)"
  shows "advances d ow sp d' ow sp"
  using assms by (intro advances_quiet [of _ _ _ _ "[]"]) (simp_all add: config_of_def find_variable_def fun_eq_iff)

lemma advances_write:
  assumes "notifs d' = notifs d" and "\<And>ev. ev \<in> set evs \<Longrightarrow> ev_kind ev = KindVar \<and> ev_service_id ev = sid"
    and "\<And>a. config_of (tbl d') a = (if a = sid then play_all evs (config_of (tbl d) a) else config_of (tbl d) a)"
  shows "advances d ow sp d' (ow @ evs) sp"
proof -
  have about: "about a evs = (if a = sid then evs else [])" for a
    using assms(2) by (auto simp: about_def intro: filter_True)
  have "\<exists>extra. about a (arrived []) @ about a (ow @ evs) = about a ow @ extra \<and>
      config_of (tbl d') a = play_all extra (config_of (tbl d) a)" for a
    by (rule exI [of _ "about a evs"]) (use about assms(3) in auto)
  with assms(1) show ?thesis unfolding advances_def by auto
qed

lemma about_without:
  assumes "i < length ow" and "sid \<noteq> ev_service_id (ow ! i)"
  shows "about sid (without i ow) = about sid ow"
  using assms(2) unfolding without_def
  by (subst (3) id_take_nth_drop [OF assms(1)]) simp

lemma about_ahead: "list_all (\<lambda>e. ev_service_id e \<noteq> sid) evs \<Longrightarrow> about sid evs = []"
  by (auto simp: about_def list_all_iff filter_empty_conv)

lemma advances_drop:
  assumes "i < length ow" and "tbl d' = tbl d"
    and "notifs d' = notifs d @ ps" and "\<And>sid. sid \<noteq> ev_service_id (ow ! i) \<Longrightarrow> about sid (arrived ps) = []"
  shows "advances d ow sp d' (without i ow) (insert (ev_service_id (ow ! i)) sp)"
  unfolding advances_def
proof (intro conjI exI [of _ ps] allI impI exI [of _ "[]"])
  fix sid
  assume "sid \<notin> insert (ev_service_id (ow ! i)) sp"
  then show "about sid (arrived ps) @ about sid (without i ow) = about sid ow @ []"
    using assms(4) about_without [OF assms(1)] by simp
qed (use assms in auto)

lemma advances_publish:
  assumes "i < length ow" and "tbl d' = tbl d" and "notifs d' = notifs d @ [marshal_event (ow ! i)]"
    and "event_ok (ow ! i)" and "ev_kind (ow ! i) = KindVar"
    and "list_all (\<lambda>e. ev_service_id e \<noteq> ev_service_id (ow ! i)) (take i ow)"
  shows "advances d ow sp d' (without i ow) sp"
  unfolding advances_def
proof (intro conjI exI [of _ "[marshal_event (ow ! i)]"] allI impI exI [of _ "[]"])
  fix sid
  let ?ev = "ow ! i"
  have ow: "ow = take i ow @ ?ev # drop (Suc i) ow" by (rule id_take_nth_drop [OF assms(1)])
  show "about sid (arrived [marshal_event ?ev]) @ about sid (without i ow) = about sid ow @ []"
  proof (cases "sid = ev_service_id ?ev")
    case True
    have "about sid ow = about sid (take i ow) @ about sid (?ev # drop (Suc i) ow)"
      by (subst ow) (simp only: about_simps(3))
    then show ?thesis
      using about_ahead [OF assms(6)] True assms(5)
      by (simp add: unmarshal_marshal [OF assms(4)] without_def)
  next
    case False
    with about_without [OF assms(1) this] show ?thesis by (simp add: unmarshal_marshal [OF assms(4)])
  qed
qed (use assms in auto)

text \<open>The events of the connection counters are no variable events, even where they do not parse.\<close>

lemma arrived_conns: "about sid (arrived [marshal_event (conns_event i)]) = []"
proof -
  have ok: "json_ok (JObj (event_members (conns_event i)))"
    by (simp add: conns_event_def zero_event_def event_members_def omit_str_def num_ok_FormatInt num_lit KindConns_def)
  have "set_members (event_members (conns_event i)) zero_event = Some ev \<Longrightarrow> ev_kind ev = KindConns" for ev
    by (auto simp: conns_event_def zero_event_def event_members_def omit_str_def set_str_def set_int_def
        split: option.splits)
  then show ?thesis
    using parse_json_render [OF ok] by (auto simp: unmarshal_event_def marshal_event_def split: option.split)
qed

section \<open>Streams\<close>

fun serving :: "phase \<Rightarrow> (service \<times> nat) option" where
  "serving (Attached svc i) = Some (svc, i)"
| "serving (Tracked svc i) = Some (svc, i)"
| "serving (Looping svc i) = Some (svc, i)"
| "serving (Leave svc i e) = Some (svc, i)"
| "serving ph = None"

text \<open>What is still to come for a subscriber: its buffer, then what its replica has not read.\<close>

definition coming :: "db \<Rightarrow> broker \<Rightarrow> nat \<Rightarrow> nat \<Rightarrow> int \<Rightarrow> event list" where
  "coming d b k i sid = about sid (pending b i) @ about sid (arrived (drop k (notifs d)))"

definition follows :: "db \<Rightarrow> event list \<Rightarrow> int set \<Rightarrow> broker \<Rightarrow> nat \<Rightarrow> link \<Rightarrow> service \<Rightarrow> nat \<Rightarrow> bool" where
  "follows d ow sp b k ss svc i \<longleftrightarrow> s_id svc \<noteq> 0 \<and> topic b i = Some (s_id svc) \<and>
     (\<not> ss_lossy ss \<longrightarrow> s_id svc \<notin> sp \<longrightarrow>
        (\<exists>pre. about (s_id svc) (arrived (notifs d)) = pre @ coming d b k i (s_id svc)) \<and>
        (ss_phase ss = Looping svc i \<longrightarrow> rq_snapshot (ss_rq ss) \<longrightarrow>
           play_all (coming d b k i (s_id svc) @ about (s_id svc) ow)
             (fold apply_msg (ss_chan ss) (cl_overrides (ss_client ss))) = config_of (tbl d) (s_id svc)))"

definition session_ok :: "db \<Rightarrow> event list \<Rightarrow> int set \<Rightarrow> broker \<Rightarrow> nat \<Rightarrow> link \<Rightarrow> bool" where
  "session_ok d ow sp b k ss \<longleftrightarrow> (\<forall>svc. ss_phase ss = Found svc \<longrightarrow> s_id svc \<noteq> 0) \<and>
     (\<forall>svc i. serving (ss_phase ss) = Some (svc, i) \<longrightarrow> follows d ow sp b k ss svc i)"

lemma follows_advance:
  assumes f: "follows d ow sp b k ss svc i" and k: "k \<le> length (notifs d)" and a: "advances d ow sp d' ow' sp'"
  shows "follows d' ow' sp' b k ss svc i"
proof -
  let ?sid = "s_id svc"
  from a obtain ps where ps: "notifs d' = notifs d @ ps" and sub: "sp \<subseteq> sp'"
    and ex: "\<And>sid. sid \<notin> sp' \<Longrightarrow> \<exists>extra. about sid (arrived ps) @ about sid ow' = about sid ow @ extra \<and>
        config_of (tbl d') sid = play_all extra (config_of (tbl d) sid)"
    unfolding advances_def by blast
  have com: "coming d' b k i ?sid = coming d b k i ?sid @ about ?sid (arrived ps)"
    using k by (simp add: coming_def ps)
  have "(\<exists>pre. about ?sid (arrived (notifs d')) = pre @ coming d' b k i ?sid) \<and>
      (ss_phase ss = Looping svc i \<longrightarrow> rq_snapshot (ss_rq ss) \<longrightarrow>
         play_all (coming d' b k i ?sid @ about ?sid ow')
           (fold apply_msg (ss_chan ss) (cl_overrides (ss_client ss))) = config_of (tbl d') ?sid)"
    if "\<not> ss_lossy ss" and sp: "?sid \<notin> sp'"
  proof -
    from sub sp have "?sid \<notin> sp" by blast
    with f \<open>\<not> ss_lossy ss\<close>
    have pre: "\<exists>pre. about ?sid (arrived (notifs d)) = pre @ coming d b k i ?sid"
      and conf: "ss_phase ss = Looping svc i \<longrightarrow> rq_snapshot (ss_rq ss) \<longrightarrow>
         play_all (coming d b k i ?sid @ about ?sid ow)
           (fold apply_msg (ss_chan ss) (cl_overrides (ss_client ss))) = config_of (tbl d) ?sid"
      unfolding follows_def by blast+
    from ex [OF sp] obtain extra where e: "about ?sid (arrived ps) @ about ?sid ow' = about ?sid ow @ extra"
      "config_of (tbl d') ?sid = play_all extra (config_of (tbl d) ?sid)" by blast
    have eq: "coming d' b k i ?sid @ about ?sid ow' = (coming d b k i ?sid @ about ?sid ow) @ extra"
      unfolding com append_assoc e(1) ..
    show ?thesis
      using pre conf unfolding eq e(2) by (auto simp: com ps)
  qed
  with f show ?thesis unfolding follows_def by blast
qed

lemma session_advance:
  "session_ok d ow sp b k ss \<Longrightarrow> k \<le> length (notifs d) \<Longrightarrow> advances d ow sp d' ow' sp' \<Longrightarrow>
     session_ok d' ow' sp' b k ss"
  unfolding session_ok_def by (blast intro: follows_advance)

text \<open>Only its own entry in the broker matters to a session.\<close>

lemma session_broker:
  assumes "session_ok d ow sp b k ss" and "\<And>i. held (ss_phase ss) = Some i \<Longrightarrow> find_sub i b' = find_sub i b"
  shows "session_ok d ow sp b' k ss"
proof -
  have "follows d ow sp b' k ss svc i" if "serving (ss_phase ss) = Some (svc, i)" for svc i
  proof -
    from that have "held (ss_phase ss) = Some i" by (cases "ss_phase ss") auto
    from assms(2) [OF this] have "topic b' i = topic b i" "pending b' i = pending b i"
      by (simp_all add: topic_def pending_def)
    with assms(1) that show ?thesis by (simp add: session_ok_def follows_def coming_def)
  qed
  with assms(1) show ?thesis by (simp add: session_ok_def)
qed

section \<open>Notifications\<close>

text \<open>Buffers hold what their subscriber wants.\<close>

definition topical :: "broker \<Rightarrow> bool" where
  "topical b \<longleftrightarrow> broker_inv b \<and> (\<forall>i s. find_sub i b = Some s \<longrightarrow> (\<forall>ev \<in> set (sub_buf s). wants ev (sub_service s)))"

lemma topical_new: "topical NewBroker"
  using broker_inv_new by (simp add: topical_def find_sub_def NewBroker_def)

lemma topical_subscribe: "topical b \<Longrightarrow> Subscribe sid b = (i, b') \<Longrightarrow> topical b'"
  using broker_inv_subscribe [of b sid] find_sub_subscribe [of b sid i b']
  by (auto simp: topical_def)

lemma topical_unsubscribe: "topical b \<Longrightarrow> topical (unsubscribe i b)"
  by (auto simp: topical_def broker_inv_unsubscribe find_sub_unsubscribe)

lemma topical_receive:
  assumes "topical b" and run: "receive i b = Some (ev, b')"
  shows "topical b'"
proof -
  have "\<forall>ev \<in> set (sub_buf s). wants ev (sub_service s)" if "find_sub j b' = Some s" for j s
  proof (cases "j = i")
    case True
    with that find_sub_receive(1) [OF run, of i] obtain s0 where s0: "find_sub i b = Some s0"
      "s = s0\<lparr>sub_buf := tl (sub_buf s0)\<rparr>" by auto
    have "set (tl (sub_buf s0)) \<subseteq> set (sub_buf s0)" by (cases "sub_buf s0") auto
    with s0 assms(1) show ?thesis unfolding topical_def by fastforce
  next
    case False
    with that find_sub_receive(1) [OF run, of j] assms(1) show ?thesis by (simp add: topical_def)
  qed
  with broker_inv_receive [OF _ run] assms(1) show ?thesis unfolding topical_def by blast
qed

lemma topical_notification: "topical b \<Longrightarrow> topical (on_notification p b)"
  using broker_inv_notification [of b p]
  by (auto simp: topical_def on_notification_def offer_def split: option.splits if_splits)

lemma drop_nth: "k < length xs \<Longrightarrow> drop k xs = xs ! k # drop (Suc k) xs"
  by (rule Cons_nth_drop_Suc [symmetric])

lemma coming_notify:
  assumes k: "k < length (notifs d)" and sid: "sid \<noteq> 0" and topic: "topic b i = Some sid"
    and room: "\<not> drops (notifs d ! k) b i"
  shows "coming d (on_notification (notifs d ! k) b) (Suc k) i sid = coming d b k i sid"
proof -
  let ?p = "notifs d ! k"
  let ?b = "on_notification ?p b"
  from topic obtain s where s: "find_sub i b = Some s" "sub_service s = sid" by (auto simp: topic_def)
  show ?thesis
  proof (cases "unmarshal_event ?p")
    case None
    then show ?thesis by (simp add: coming_def on_notification_def drop_nth [OF k])
  next
    case (Some ev)
    show ?thesis
    proof (cases "wants ev sid")
      case True
      with room Some s have "pending ?b i = pending b i @ [ev]"
        by (simp add: drops_def pending_def on_notification_def offer_def)
      with Some show ?thesis by (simp add: coming_def drop_nth [OF k])
    next
      case False
      with Some s have "pending ?b i = pending b i"
        by (simp add: pending_def on_notification_def offer_def)
      moreover from False sid have "ev_service_id ev \<noteq> sid" by (simp add: wants_def)
      ultimately show ?thesis using Some by (simp add: coming_def drop_nth [OF k])
    qed
  qed
qed

lemma topic_notification [simp]: "topic (on_notification p b) i = topic b i"
  by (simp add: topic_def on_notification_def option.map_comp comp_def split: option.split)

lemma follows_notify:
  assumes f: "follows d ow sp b k ss svc i" and k: "k < length (notifs d)"
    and lost: "drops (notifs d ! k) b i \<longrightarrow> ss_lossy ss'"
    and ss': "ss' = ss\<lparr>ss_lossy := l\<rparr>" and "ss_lossy ss \<longrightarrow> l"
  shows "follows d ow sp (on_notification (notifs d ! k) b) (Suc k) ss' svc i"
proof -
  from f have "s_id svc \<noteq> 0" and "topic b i = Some (s_id svc)" by (simp_all add: follows_def)
  from coming_notify [OF k this] f lost ss' assms(5) show ?thesis by (auto simp: follows_def)
qed

lemma mark_sel [simp]:
  "ss_phase (mark lost ss) = ss_phase ss" "ss_replica (mark lost ss) = ss_replica ss"
  "ss_rq (mark lost ss) = ss_rq ss" "ss_chan (mark lost ss) = ss_chan ss" "ss_client (mark lost ss) = ss_client ss"
  by (simp_all add: mark_def split: option.split)

lemma serving_held: "serving ph = Some (svc, i) \<Longrightarrow> held ph = Some i"
  by (cases ph) auto

lemma session_notify:
  assumes "session_ok d ow sp b k ss" and "k < length (notifs d)" and "P ss"
  shows "session_ok d ow sp (on_notification (notifs d ! k) b) (Suc k)
    (mark (\<lambda>ss i. P ss \<and> drops (notifs d ! k) b i) ss)"
proof -
  let ?ss = "mark (\<lambda>ss i. P ss \<and> drops (notifs d ! k) b i) ss"
  have "follows d ow sp (on_notification (notifs d ! k) b) (Suc k) ?ss svc i"
    if s: "serving (ss_phase ss) = Some (svc, i)" for svc i
    using assms(1) s serving_held [OF s] \<open>P ss\<close>
    by (intro follows_notify [OF _ assms(2), where ss = ss]) (auto simp: session_ok_def mark_def)
  with assms(1) show ?thesis by (simp add: session_ok_def)
qed

lemma session_listen:
  assumes "session_ok d ow sp b k ss" and "P ss" and "k \<le> length (notifs d)"
  shows "session_ok d ow sp b (length (notifs d)) (mark (\<lambda>ss i. P ss \<and> k < length (notifs d)) ss)"
proof (cases "k = length (notifs d)")
  case True
  then have "mark (\<lambda>ss i. P ss \<and> k < length (notifs d)) ss = ss" by (simp add: mark_def split: option.split)
  with assms True show ?thesis by simp
next
  case False
  let ?ss = "mark (\<lambda>ss i. P ss \<and> k < length (notifs d)) ss"
  from False assms(3) have "k < length (notifs d)" by simp
  then have "ss_lossy ?ss" if "serving (ss_phase ss) = Some (svc, i)" for svc i
    using serving_held [OF that] assms(2) by (simp add: mark_def)
  with assms(1) show ?thesis by (auto simp: session_ok_def follows_def)
qed

text \<open>Sessions of other replicas are not marked.\<close>

lemma mark_idle: "(\<And>i. \<not> lost ss i) \<Longrightarrow> mark lost ss = ss"
  by (simp add: mark_def split: option.split)

section \<open>Steps of the handler\<close>

text \<open>The tracker writes connection rows and publishes counter events, and nothing else.\<close>

definition counts_only :: "db \<Rightarrow> db \<Rightarrow> bool" where
  "counts_only d d' \<longleftrightarrow> (\<exists>ps. notifs d' = notifs d @ ps \<and> (\<forall>sid. about sid (arrived ps) = [])) \<and>
     variables_tbl (tbl d') = variables_tbl (tbl d) \<and>
     (store_inv (tbl d) (seqs d) \<longrightarrow> store_inv (tbl d') (seqs d'))"

lemma advances_counts: "counts_only d d' \<Longrightarrow> advances d ow sp d' ow sp"
  by (auto simp: counts_only_def config_of_def find_variable_def fun_eq_iff intro!: advances_quiet)

lemma counts_refl: "counts_only d d"
  by (auto simp: counts_only_def intro: exI [of _ "[]"])

lemma counts_reads:
  assumes "reads_only m" and "m d = (r, d')"
  shows "counts_only d d'"
proof -
  from assms have "tbl d' = tbl d \<and> seqs d' = seqs d \<and> notifs d' = notifs d"
    unfolding reads_only_def by blast
  then show ?thesis by (auto simp: counts_only_def intro: exI [of _ "[]"])
qed

lemma counts_then_publish:
  assumes "notifs d1 = notifs d" and "variables_tbl (tbl d1) = variables_tbl (tbl d)"
    and "store_inv (tbl d) (seqs d) \<longrightarrow> store_inv (tbl d1) (seqs d1)"
  shows "counts_only d (snd (Publish (conns_event i) d1))"
proof -
  obtain r d2 where run: "Publish (conns_event i) d1 = (r, d2)" by fastforce
  then have "\<exists>ps. notifs d2 = notifs d1 @ ps \<and> (\<forall>sid. about sid (arrived ps) = [])"
    by (cases rule: Publish_cases) (use arrived_conns in \<open>auto intro: exI [of _ "[]"]\<close>)
  moreover from run have "tbl d2 = tbl d1" "seqs d2 = seqs d1" by (auto elim: Publish_cases)
  ultimately show ?thesis using assms run by (simp add: counts_only_def)
qed

lemma silent_conns:
  "silent (RegisterConnection sid rid cid peer)" "silent (UnregisterConnection rid cid)"
  using silent_run_op [of "OpRegisterConnection sid rid cid peer"] silent_run_op [of "OpUnregisterConnection rid cid"]
  by simp_all

lemma counts_Register: "counts_only d (Register rid sid cid peer d)"
proof -
  obtain r d1 where run: "RegisterConnection sid rid cid peer d = (r, d1)" by fastforce
  have n: "notifs d1 = notifs d" by (rule silentD [OF silent_conns(1) run])
  from run have v: "variables_tbl (tbl d1) = variables_tbl (tbl d)" by (cases rule: RegisterConnection_cases) simp_all
  have i: "store_inv (tbl d) (seqs d) \<longrightarrow> store_inv (tbl d1) (seqs d1)"
    using preservesD [OF preserves_connections(1) run] by blast
  show ?thesis
  proof (cases r)
    case (Inl e)
    with run n v i show ?thesis by (auto simp: Register_def counts_only_def intro: exI [of _ "[]"])
  next
    case (Inr x)
    with run counts_then_publish [OF n v i] show ?thesis by (simp add: Register_def)
  qed
qed

lemma counts_Unregister: "counts_only d (Unregister rid sid cid d)"
proof -
  obtain r d1 where run: "UnregisterConnection rid cid d = (r, d1)" by fastforce
  have n: "notifs d1 = notifs d" by (rule silentD [OF silent_conns(2) run])
  from run have v: "variables_tbl (tbl d1) = variables_tbl (tbl d)"
    unfolding UnregisterConnection_def by (cases rule: conn_stmt_cases) simp_all
  have i: "store_inv (tbl d) (seqs d) \<longrightarrow> store_inv (tbl d1) (seqs d1)"
    using preservesD [OF preserves_connections(2) run] by blast
  show ?thesis
  proof (cases r)
    case (Inl e)
    with run n v i show ?thesis by (auto simp: Unregister_def counts_only_def intro: exI [of _ "[]"])
  next
    case (Inr x)
    with run counts_then_publish [OF n v i] show ?thesis by (simp add: Unregister_def)
  qed
qed

lemma reads_ListVariables: "reads_only (ListVariables sid)"
  by (simp add: ListVariables_def)

lemma serve_counts:
  assumes "serve_step ep rq ch ph d b = Some (ms, ph', d', b')"
  shows "counts_only d d'"
proof (cases ph)
  case Start
  show ?thesis
  proof (cases "rq_key rq = []")
    case True
    with assms Start counts_refl show ?thesis by (simp add: serve_step_def)
  next
    case False
    obtain r d1 where run: "GetServiceByKey (rq_key rq) d = (r, d1)" by fastforce
    from counts_reads [OF reads_only_GetServiceByKey run] assms Start False run show ?thesis
      by (auto simp: serve_step_def split: sum.splits)
  qed
next
  case (Tracked svc i)
  show ?thesis
  proof (cases "rq_snapshot rq")
    case True
    obtain r d1 where run: "ListVariables (s_id svc) d = (r, d1)" by fastforce
    from counts_reads [OF reads_ListVariables run] assms Tracked True run show ?thesis
      by (auto simp: serve_step_def sendSnapshot_def split: sum.splits if_splits)
  next
    case False
    with assms Tracked counts_refl show ?thesis by (simp add: serve_step_def)
  qed
next
  case (Looping svc i)
  with assms counts_refl show ?thesis by (auto simp: serve_step_def split: option.splits)
qed (use assms counts_refl counts_Register counts_Unregister in \<open>auto simp: serve_step_def split_beta Let_def\<close>)

text \<open>What a step does to the broker: nothing, take an own event, subscribe, or unsubscribe.\<close>

definition broker_move :: "nat option \<Rightarrow> broker \<Rightarrow> nat option \<Rightarrow> broker \<Rightarrow> bool" where
  "broker_move h b h' b' \<longleftrightarrow>
     h' = h \<and> b' = b \<or>
     (\<exists>i ev. h = Some i \<and> h' = Some i \<and> receive i b = Some (ev, b')) \<or>
     (\<exists>i sid. h = None \<and> h' = Some i \<and> Subscribe sid b = (i, b')) \<or>
     (\<exists>i. h = Some i \<and> h' = None \<and> b' = unsubscribe i b)"

lemma serve_broker:
  assumes "serve_step ep rq ch ph d b = Some (ms, ph', d', b')"
  shows "broker_move (held ph) b (held ph') b'"
proof (cases ph)
  case (Looping svc i)
  with assms show ?thesis
    by (auto simp: serve_step_def loop_turn_def sendChange_def broker_move_def
        split: option.splits choice.splits if_splits prod.splits sum.splits)
next
  case (Tracked svc i)
  with assms show ?thesis by (auto simp: serve_step_def broker_move_def split: if_splits prod.splits sum.splits)
next
  case Start
  with assms show ?thesis by (auto simp: serve_step_def broker_move_def split: if_splits prod.splits sum.splits)
qed (use assms in \<open>auto simp: serve_step_def broker_move_def split: prod.splits\<close>)

lemma sse_broker:
  assumes "sse_step f rq ch ph b = Some (out, ph', b')"
  shows "broker_move (case ph of SseOpen i \<Rightarrow> Some i | _ \<Rightarrow> None) b (case ph' of SseOpen i \<Rightarrow> Some i | _ \<Rightarrow> None) b'"
  using assms
  by (auto simp: sse_step_def broker_move_def split: sse_phase.splits sse_choice.splits option.splits if_splits prod.splits)

lemma topical_move: "broker_move h b h' b' \<Longrightarrow> topical b \<Longrightarrow> topical b'"
  by (auto simp: broker_move_def intro: topical_receive topical_subscribe topical_unsubscribe)

lemma move_others:
  assumes "broker_move h b h' b'" and "topical b" and "h \<noteq> Some j" and "find_sub j b \<noteq> None"
  shows "find_sub j b' = find_sub j b"
proof -
  from assms(2) have inv: "broker_inv b" by (simp add: topical_def)
  from assms(1) show ?thesis
    unfolding broker_move_def
  proof (elim disjE exE conjE)
    fix i ev
    assume "h = Some i" "receive i b = Some (ev, b')"
    with find_sub_receive(1) [OF this(2), of j] assms(3) show ?thesis by auto
  next
    fix i sid
    assume "Subscribe sid b = (i, b')"
    moreover from this assms(4) inv have "i \<noteq> j"
      by (auto simp: Subscribe_def broker_inv_def find_sub_def dest!: find_SomeD)
    ultimately show ?thesis using find_sub_subscribe [OF inv, of sid i b' j] by simp
  next
    fix i
    assume "h = Some i" "b' = unsubscribe i b"
    with assms(3) show ?thesis by (auto simp: find_sub_unsubscribe)
  qed simp
qed

section \<open>A session after its own step\<close>

abbreviation moved :: "link \<Rightarrow> phase \<Rightarrow> config_event list \<Rightarrow> link" where
  "moved ss ph ms \<equiv> ss\<lparr>ss_phase := ph, ss_chan := ss_chan ss @ ms\<rparr>"

lemma other_phase:
  assumes "follows d ow sp b k ss svc i" and "\<not> (ph = Looping svc i \<and> rq_snapshot (ss_rq ss))"
  shows "follows d ow sp b k (moved ss ph ms) svc i"
  using assms by (auto simp: follows_def)

lemma serving_session:
  assumes "serving ph = Some (svc, i)" and "follows d ow sp b k (moved ss ph ms) svc i"
  shows "session_ok d ow sp b k (moved ss ph ms)"
  using assms by (cases ph) (auto simp: session_ok_def)

lemma follows_subscribe:
  assumes "broker_inv b" and "Subscribe (s_id svc) b = (i, b')" and "s_id svc \<noteq> 0" and "ph \<noteq> Looping svc i"
  shows "follows d ow sp b' k (moved ss ph ms) svc i"
proof -
  let ?sid = "s_id svc"
  have "coming d b' k i ?sid = about ?sid (arrived (drop k (notifs d)))" and "topic b' i = Some ?sid"
    using br.sub_new [OF assms(1,2)] by (simp_all add: coming_def)
  moreover have "about ?sid (arrived (notifs d)) =
      about ?sid (arrived (take k (notifs d))) @ about ?sid (arrived (drop k (notifs d)))"
    by (simp only: append_take_drop_id flip: about_simps(3) arrived_simps(3))
  ultimately show ?thesis using assms(3,4) by (auto simp: follows_def)
qed

lemma follows_snapshot:
  assumes f: "follows d ow sp b k ss svc i" and l: "ledger d ow sp"
    and vs: "put_variables (map pb_of_variable vs) = config_of (tbl d) (s_id svc)"
  shows "follows d ow sp b k (moved ss (Looping svc i) [Snapshot (map pb_of_variable vs)]) svc i"
proof -
  let ?sid = "s_id svc"
  have "play_all (coming d b k i ?sid @ about ?sid ow) (config_of (tbl d) ?sid) = config_of (tbl d) ?sid"
    if "\<not> ss_lossy ss" "?sid \<notin> sp"
  proof -
    from f that obtain pre where pre: "about ?sid (arrived (notifs d)) = pre @ coming d b k i ?sid"
      unfolding follows_def by blast
    from l that have "play_all (about ?sid (arrived (notifs d)) @ about ?sid ow) Map.empty = config_of (tbl d) ?sid"
      unfolding ledger_def by blast
    then have "play_all (pre @ coming d b k i ?sid @ about ?sid ow) Map.empty = config_of (tbl d) ?sid"
      unfolding pre append_assoc .
    with play_all_again [of "coming d b k i ?sid @ about ?sid ow" pre Map.empty] show ?thesis by simp
  qed
  with f vs show ?thesis by (simp add: follows_def)
qed

lemma change_play: "apply_msg (change_of ev) m = play ev m"
  by (simp add: play_def)

lemma coming_take:
  assumes t: "topical b" and sid: "sid \<noteq> 0" and topic: "topic b i = Some sid" and r: "receive i b = Some (ev, b')"
  shows "topic b' i = Some sid"
    and "coming d b k i sid = (if ev_kind ev = KindVar then [ev] else []) @ coming d b' k i sid"
proof -
  from t have inv: "broker_inv b" by (simp add: topical_def)
  from br.recv_some [OF inv r] have p: "pending b i = ev # pending b' i" and topic': "topic b' i = Some sid"
    using topic by simp_all
  from topic p obtain s where "find_sub i b = Some s" "sub_service s = sid" "ev \<in> set (sub_buf s)"
    by (auto simp: topic_def pending_def split: option.splits)
  with t have "wants ev sid" unfolding topical_def by metis
  with sid have "ev_service_id ev = sid" by (auto simp: wants_def)
  with p topic' show "topic b' i = Some sid"
    and "coming d b k i sid = (if ev_kind ev = KindVar then [ev] else []) @ coming d b' k i sid"
    by (simp_all add: coming_def)
qed

lemma follows_take:
  assumes f: "follows d ow sp b k ss svc i" and t: "topical b" and ph: "ss_phase ss = Looping svc i"
    and r: "receive i b = Some (ev, b')"
  shows "follows d ow sp b' k (moved ss ph (if ev_kind ev = KindVar then [change_of ev] else [])) svc i"
proof -
  from f have sid: "s_id svc \<noteq> 0" and topic: "topic b i = Some (s_id svc)" by (simp_all add: follows_def)
  note c = coming_take [OF t sid topic r]
  show ?thesis
    using f c(1) unfolding follows_def c(2)
    by (auto simp: ph change_play intro: exI [of _ "pre @ [ev]" for pre])
qed

lemma follows_heartbeat:
  "follows d ow sp b k ss svc i \<Longrightarrow> ss_phase ss = Looping svc i \<Longrightarrow>
     follows d ow sp b k (moved ss (Looping svc i) [Heartbeat ts]) svc i"
  by (simp add: follows_def)

lemma loop_session:
  assumes ok: "session_ok d ow sp b k ss" and t: "topical b" and ph: "ss_phase ss = Looping svc i"
    and run: "loop_turn svc i ch b = Some (ms, ph', b')"
  shows "session_ok d ow sp b' k (moved ss ph' ms)"
proof -
  from ok ph have f: "follows d ow sp b k ss svc i" by (simp add: session_ok_def)
  have leave: "session_ok d ow sp b k (moved ss (Leave svc i e) [])" for e
    by (rule serving_session [OF _ other_phase [OF f]]) simp_all
  show ?thesis
  proof (cases ch)
    case (Proceed x)
    with run show ?thesis by (simp add: loop_turn_def)
  next
    case CtxDone
    with run leave show ?thesis by (auto simp: loop_turn_def)
  next
    case (Tick ts x)
    with run leave serving_session [OF _ follows_heartbeat [OF f ph]] show ?thesis
      by (auto simp: loop_turn_def split: if_splits)
  next
    case (TakeEvent x)
    show ?thesis
    proof (cases "receive i b")
      case None
      with run TakeEvent leave show ?thesis by (auto simp: loop_turn_def split: if_splits)
    next
      case (Some r)
      then obtain ev b1 where r: "receive i b = Some (ev, b1)" by (cases r) auto
      let ?ms = "if ev_kind ev = KindVar then [change_of ev] else []"
      note take = follows_take [OF f t ph r]
      have stay: "session_ok d ow sp b1 k (moved ss (Looping svc i) ?ms)"
        by (rule serving_session [OF _ take]) simp
      have "follows d ow sp b1 k (moved ss (Leave svc i SendErr) []) svc i"
        using take [of "Leave svc i SendErr"] by (simp add: follows_def)
      then have "session_ok d ow sp b1 k (moved ss (Leave svc i SendErr) [])"
        by (rule serving_session [rotated]) simp
      with run TakeEvent r stay show ?thesis
        by (auto simp: loop_turn_def sendChange_def split: if_splits)
    qed
  qed
qed

lemma serve_session:
  assumes step: "serve_step ep rq ch ph d b = Some (ms, ph', d', b')"
    and ok: "session_ok d' ow sp b k ss" and l: "ledger d' ow sp" and t: "topical b"
    and inv: "store_inv (tbl d) (seqs d)" and ph: "ss_phase ss = ph" and rq: "ss_rq ss = rq"
  shows "session_ok d' ow sp b' k (moved ss ph' ms)"
proof -
  from t have binv: "broker_inv b" by (simp add: topical_def)
  show ?thesis
  proof (cases ph)
    case Start
    have "1 \<le> s_id svc" if "GetServiceByKey (rq_key rq) d = (Inr svc, d1)" for svc d1
    proof -
      from GetServiceByKey_result [OF that] have "svc \<in> set (services_tbl (tbl d))"
        by (auto simp: find_service_key_def dest: find_SomeD)
      with inv show ?thesis by (auto simp: store_inv_def services_inv_def)
    qed
    with step Start show ?thesis
      by (fastforce simp: serve_step_def session_ok_def split: if_splits prod.splits sum.splits)
  next
    case (Found svc)
    with ok ph have "s_id svc \<noteq> 0" by (simp add: session_ok_def)
    obtain i b1 where sub: "Subscribe (s_id svc) b = (i, b1)" by fastforce
    from serving_session [OF _ follows_subscribe [OF binv sub \<open>s_id svc \<noteq> 0\<close>], of "Attached svc i" d' ow sp k ss "[]"]
      step Found sub show ?thesis by (auto simp: serve_step_def)
  next
    case (Attached svc i)
    with ok ph have "follows d' ow sp b k ss svc i" by (simp add: session_ok_def)
    from serving_session [OF _ other_phase [OF this], where ph = "Tracked svc i" and ms = "[]"] step Attached
    show ?thesis
      by (auto simp: serve_step_def)
  next
    case (Tracked svc i)
    with ok ph have f: "follows d' ow sp b k ss svc i" by (simp add: session_ok_def)
    note other = serving_session [OF _ other_phase [OF f], where ms = "[]"]
    show ?thesis
    proof (cases "rq_snapshot rq")
      case False
      with other [of "Looping svc i"] step Tracked rq show ?thesis by (auto simp: serve_step_def)
    next
      case True
      obtain r d1 where run: "ListVariables (s_id svc) d = (r, d1)" by fastforce
      show ?thesis
      proof (cases r)
        case (Inl e)
        with other [of "Leave svc i (Status Internal)"] step Tracked True run show ?thesis
          by (auto simp: serve_step_def sendSnapshot_def)
      next
        case (Inr vs)
        have "tbl d1 = tbl d" by (rule reads_onlyD [OF reads_ListVariables run])
        moreover have "vars_inv (tbl d)" using inv by (simp add: store_inv_def)
        ultimately have vs: "put_variables (map pb_of_variable vs) = config_of (tbl d1) (s_id svc)"
          using snapshot_config run Inr by simp
        show ?thesis
        proof (cases "ch = Proceed True")
          case ok: True
          with step Tracked True run Inr have "d' = d1" "b' = b" "ph' = Looping svc i"
            "ms = [Snapshot (map pb_of_variable vs)]" by (auto simp: serve_step_def sendSnapshot_def)
          then show ?thesis
            using serving_session [OF _ follows_snapshot [OF f l]] vs by simp
        next
          case False
          with other [of "Leave svc i SendErr"] step Tracked True run Inr show ?thesis
            by (auto simp: serve_step_def sendSnapshot_def)
        qed
      qed
    qed
  next
    case (Looping svc i)
    with step obtain b1 where "loop_turn svc i ch b = Some (ms, ph', b')" "d' = d"
      by (auto simp: serve_step_def split: option.splits)
    with loop_session [OF ok t] ph Looping show ?thesis by simp
  qed (use step in \<open>auto simp: serve_step_def session_ok_def\<close>)
qed

end
