(* ===== verification/Propagation_Invariant.thy ===== *)
theory Propagation_Invariant
  imports Propagation_Streams
begin

text \<open>
  The invariant of the whole propagation, by cases on the actions: the ledger of writers and
  channel, the brokers, every stream, and who holds which subscription.
\<close>

section \<open>Who holds which subscription\<close>

text \<open>A stream (Inl) or a page (Inr) holds at most one subscription, at its replica.\<close>

fun page_held :: "sse_phase \<Rightarrow> nat option" where
  "page_held (SseOpen i) = Some i"
| "page_held ph = None"

definition holder :: "(nat \<Rightarrow> link) \<Rightarrow> (nat \<Rightarrow> page) \<Rightarrow> nat + nat \<Rightarrow> (nat \<times> nat) option" where
  "holder ses pgs x = (case x of
      Inl s \<Rightarrow> map_option (Pair (ss_replica (ses s))) (held (ss_phase (ses s)))
    | Inr p \<Rightarrow> map_option (Pair (pg_replica (pgs p))) (page_held (pg_phase (pgs p))))"

definition registered :: "('o \<Rightarrow> (nat \<times> nat) option) \<Rightarrow> (nat \<Rightarrow> broker) \<Rightarrow> bool" where
  "registered H B \<longleftrightarrow> (\<forall>x y p. H x = Some p \<longrightarrow> H y = Some p \<longrightarrow> x = y) \<and>
     (\<forall>r i. find_sub i (B r) = None \<longleftrightarrow> (\<forall>x. H x \<noteq> Some (r, i)))"

lemma registered_cong:
  "registered H B \<Longrightarrow> (\<And>r i. find_sub i (B' r) = None \<longleftrightarrow> find_sub i (B r) = None) \<Longrightarrow> registered H B'"
  unfolding registered_def by presburger

lemma registered_move:
  assumes reg: "registered H B" and x: "H x = map_option (Pair r) h" and t: "topical (B r)"
    and move: "broker_move h (B r) h' b'"
  shows "registered (H(x := map_option (Pair r) h')) (B(r := b'))"
proof -
  from t have inv: "broker_inv (B r)" by (simp add: topical_def)
  from reg have uniq: "\<And>a b p. H a = Some p \<Longrightarrow> H b = Some p \<Longrightarrow> a = b"
    and ex: "\<And>q i. find_sub i (B q) = None \<longleftrightarrow> (\<forall>y. H y \<noteq> Some (q, i))"
    unfolding registered_def by blast+
  from move show ?thesis
    unfolding broker_move_def
  proof (elim disjE exE conjE)
    assume same: "h' = h" "b' = B r"
    have "H(x := map_option (Pair r) h') = H" unfolding same(1) x [symmetric] by simp
    moreover have "B(r := b') = B" unfolding same(2) by simp
    ultimately show ?thesis using reg by simp
  next
    fix i ev
    assume h: "h = Some i" "h' = Some i" and r: "receive i (B r) = Some (ev, b')"
    have "H(x := map_option (Pair r) h') = H" unfolding h(2) h(1) [symmetric] x [symmetric] by simp
    then show ?thesis
      using registered_cong [OF reg, of "B(r := b')"] find_sub_receive(1) [OF r] by auto
  next
    fix i sid
    assume h: "h = None" "h' = Some i" and s: "Subscribe sid (B r) = (i, b')"
    have "find_sub i (B r) = None"
      using inv s by (auto simp: Subscribe_def broker_inv_def find_sub_def find_eq_None)
    then have fresh: "H y \<noteq> Some (r, i)" for y using ex by blast
    show ?thesis
      unfolding registered_def
    proof (intro conjI allI impI)
      fix a c p
      assume "(H(x := map_option (Pair r) h')) a = Some p" "(H(x := map_option (Pair r) h')) c = Some p"
      then show "a = c" using uniq [of a p c] fresh [of a] fresh [of c] h(2) by (auto split: if_splits)
    next
      fix q j
      show "find_sub j ((B(r := b')) q) = None \<longleftrightarrow> (\<forall>y. (H(x := map_option (Pair r) h')) y \<noteq> Some (q, j))"
      proof -
        have "(\<forall>y. (H(x := Some (r, i))) y \<noteq> Some (q, j)) \<longleftrightarrow> (r, i) \<noteq> (q, j) \<and> (\<forall>y. H y \<noteq> Some (q, j))"
        proof -
          from x h(1) have "H x = None" by simp
          then have "H x \<noteq> Some (q, j)" by simp
          then show ?thesis by (metis fun_upd_other fun_upd_same option.inject)
        qed
        then show ?thesis using ex [of j q] h(2) find_sub_subscribe [OF inv s, of j] by auto
      qed
    qed
  next
    fix i
    assume h: "h = Some i" "h' = None" and b: "b' = unsubscribe i (B r)"
    have mine: "y = x" if "H y = Some (r, i)" for y using uniq [of y "(r, i)" x] x h(1) that by simp
    show ?thesis
      unfolding registered_def
    proof (intro conjI allI impI)
      fix a c p
      assume "(H(x := map_option (Pair r) h')) a = Some p" "(H(x := map_option (Pair r) h')) c = Some p"
      then show "a = c" using uniq [of a p c] h(2) by (auto split: if_splits)
    next
      fix q j
      show "find_sub j ((B(r := b')) q) = None \<longleftrightarrow> (\<forall>y. (H(x := map_option (Pair r) h')) y \<noteq> Some (q, j))"
      proof -
        have "(\<forall>y. (H(x := None)) y \<noteq> Some (q, j)) \<longleftrightarrow> (q, j) = (r, i) \<or> (\<forall>y. H y \<noteq> Some (q, j))"
        proof (cases "(q, j) = (r, i)")
          case True
          with mine show ?thesis by auto
        next
          case False
          with x h(1) have "H x \<noteq> Some (q, j)" by auto
          with False show ?thesis by (metis fun_upd_other fun_upd_same option.distinct(1))
        qed
        then show ?thesis using ex [of j q] h(2) by (auto simp: b find_sub_unsubscribe)
      qed
    qed
  qed
qed

section \<open>The invariant\<close>

abbreviation session_good :: "net \<Rightarrow> link \<Rightarrow> bool" where
  "session_good n ss \<equiv> session_ok (n_db n) (n_owed n) (n_spoiled n) (rp_broker (n_rep n (ss_replica ss)))
     (rp_read (n_rep n (ss_replica ss))) ss"

definition net_inv :: "net \<Rightarrow> bool" where
  "net_inv n \<longleftrightarrow> ledger (n_db n) (n_owed n) (n_spoiled n) \<and>
     (\<forall>r. topical (rp_broker (n_rep n r)) \<and> rp_read (n_rep n r) \<le> length (notifs (n_db n))) \<and>
     (\<forall>s. session_good n (n_sess n s)) \<and>
     registered (holder (n_sess n) (n_page n)) (\<lambda>r. rp_broker (n_rep n r))"

lemma net_inv_init: "net_inv (net_init le like defaults)"
proof -
  have "holder (n_sess (net_init le like defaults)) (n_page (net_init le like defaults)) x = None" for x
    by (cases x) (simp_all add: holder_def net_init_def)
  then have "registered (holder (n_sess (net_init le like defaults)) (n_page (net_init le like defaults)))
      (\<lambda>r. rp_broker (n_rep (net_init le like defaults) r))"
    by (simp add: registered_def net_init_def find_sub_def NewBroker_def)
  moreover have "ledger (init_db le like) [] {}"
    using store_inv_init by (simp add: ledger_def config_of_def find_variable_def init_db_def empty_tables_def fun_eq_iff)
  ultimately show ?thesis
    using topical_new by (simp add: net_inv_def net_init_def session_ok_def init_db_def)
qed

lemma advances_le: "advances d ow sp d' ow' sp' \<Longrightarrow> length (notifs d) \<le> length (notifs d')"
  by (auto simp: advances_def)

lemma net_inv_db:
  assumes inv: "net_inv n" and a: "advances (n_db n) (n_owed n) (n_spoiled n) d ow sp"
    and "store_inv (tbl d) (seqs d)" and "\<forall>ev \<in> set ow. event_ok ev \<and> ev_kind ev = KindVar"
  shows "net_inv (n\<lparr>n_db := d, n_owed := ow, n_spoiled := sp\<rparr>)"
proof -
  from inv have read: "rp_read (n_rep n r) \<le> length (notifs (n_db n))" for r by (simp add: net_inv_def)
  have "session_good (n\<lparr>n_db := d, n_owed := ow, n_spoiled := sp\<rparr>) (n_sess n s)" for s
    using inv session_advance [OF _ read a] by (simp add: net_inv_def)
  moreover have "ledger d ow sp"
    using inv ledger_advance [OF _ a assms(3,4)] by (simp add: net_inv_def)
  moreover have "rp_read (n_rep n r) \<le> length (notifs d)" for r
    using read [of r] advances_le [OF a] by linarith
  ultimately show ?thesis using inv by (simp add: net_inv_def)
qed

subsection \<open>Writers\<close>

lemma find_service_id: "find_service t sid = Some svc \<Longrightarrow> s_id svc = sid"
  by (auto simp: find_service_def dest: find_SomeD)

lemma net_invD:
  assumes "net_inv n"
  shows "store_inv (tbl (n_db n)) (seqs (n_db n))" and "\<And>ev. ev \<in> set (n_owed n) \<Longrightarrow> event_ok ev \<and> ev_kind ev = KindVar"
  using assms by (auto simp: net_inv_def ledger_def)

lemma silent_commands:
  "silent (UpsertVariable sid k v who)" "silent (DeleteVariable sid k who)" "silent (RollbackVariable sid k m who)"
  "silent (BulkUpsertVariables sid kv who)"
  by (simp_all add: UpsertVariable_def DeleteVariable_def RollbackVariable_def BulkUpsertVariables_def silent)

lemma preserves_commands:
  "preserves store_inv (UpsertVariable sid k v who)" "preserves store_inv (DeleteVariable sid k who)"
  "preserves store_inv (RollbackVariable sid k m who)" "preserves store_inv (BulkUpsertVariables sid kv who)"
  by (rule pres)+

lemma exec_cmd_frame:
  assumes "exec_cmd sid c d = (r, d')"
  shows "notifs d' = notifs d" and "store_inv (tbl d) (seqs d) \<Longrightarrow> store_inv (tbl d') (seqs d')"
proof -
  show "notifs d' = notifs d"
    using assms by (cases c) (auto dest: silentD [OF silent_commands(1)] silentD [OF silent_commands(2)]
        silentD [OF silent_commands(3)])
  show "store_inv (tbl d) (seqs d) \<Longrightarrow> store_inv (tbl d') (seqs d')"
    using assms by (cases c) (auto dest: preservesD [OF preserves_commands(1)] preservesD [OF preserves_commands(2)]
        preservesD [OF preserves_commands(3)])
qed

lemma net_inv_write:
  assumes inv: "net_inv n" and act: "act_write sid c n = Some n'"
  shows "net_inv n'"
proof -
  from act obtain svc ch d where svc: "find_service (tbl (n_db n)) sid = Some svc"
    and run: "exec_cmd sid c (n_db n) = (Inr ch, d)" and ok: "event_ok (write_event svc c ch)"
    and n': "n' = n\<lparr>n_db := d, n_owed := n_owed n @ [write_event svc c ch]\<rparr>"
    by (auto simp: act_write_def split: option.splits prod.splits sum.splits if_splits)
  note sid = find_service_id [OF svc]
  have ev: "ev_kind (write_event svc c ch) = KindVar" "ev_service_id (write_event svc c ch) = sid"
    using sid by (simp_all add: write_event_def)
  have "config_of (tbl d) a = (if a = sid then play_all [write_event svc c ch] (config_of (tbl (n_db n)) a)
      else config_of (tbl (n_db n)) a)" for a
    using exec_cmd_config [of svc c "n_db n" ch d a] run sid by simp
  then have "advances (n_db n) (n_owed n) (n_spoiled n) d (n_owed n @ [write_event svc c ch]) (n_spoiled n)"
    using ev exec_cmd_frame(1) [OF run] by (intro advances_write) auto
  from net_inv_db [OF inv this exec_cmd_frame(2) [OF run net_invD(1) [OF inv]]] net_invD(2) [OF inv] ok ev
  show ?thesis unfolding n' by auto
qed

lemma net_inv_write_all:
  assumes inv: "net_inv n" and act: "act_write_all sid kv who n = Some n'"
  shows "net_inv n'"
proof -
  from act obtain svc chs d where svc: "find_service (tbl (n_db n)) sid = Some svc"
    and run: "BulkUpsertVariables sid kv who (n_db n) = (Inr chs, d)"
    and ok: "list_all event_ok (bulk_events svc chs)"
    and n': "n' = n\<lparr>n_db := d, n_owed := n_owed n @ bulk_events svc chs\<rparr>"
    by (auto simp: act_write_all_def split: option.splits prod.splits sum.splits if_splits)
  note sid = find_service_id [OF svc]
  have evs: "ev_kind ev = KindVar \<and> ev_service_id ev = sid \<and> event_ok ev" if "ev \<in> set (bulk_events svc chs)" for ev
    using ok that sid by (auto simp: bulk_events_def list_all_iff)
  have notifs: "notifs d = notifs (n_db n)"
    by (rule silentD [OF silent_commands(4) run])
  have st: "store_inv (tbl d) (seqs d)"
    using preservesD [OF preserves_commands(4) run] net_invD(1) [OF inv] by simp
  have "config_of (tbl d) a = (if a = sid then play_all (bulk_events svc chs) (config_of (tbl (n_db n)) a)
      else config_of (tbl (n_db n)) a)" for a
    using BulkUpsertVariables_config [of svc kv who "n_db n" chs d a] run sid by simp
  then have "advances (n_db n) (n_owed n) (n_spoiled n) d (n_owed n @ bulk_events svc chs) (n_spoiled n)"
    using evs notifs by (intro advances_write) auto
  from net_inv_db [OF inv this st] net_invD(2) [OF inv] evs show ?thesis unfolding n' by fastforce
qed

lemma without_subset: "set (without i xs) \<subseteq> set xs"
  by (auto simp: without_def dest: in_set_takeD in_set_dropD)

lemma net_inv_announce:
  assumes inv: "net_inv n" and act: "act_announce i n = Some n'"
  shows "net_inv n'"
proof -
  let ?ev = "n_owed n ! i" and ?ow = "without i (n_owed n)"
  obtain r d where run: "Publish ?ev (n_db n) = (r, d)" by fastforce
  from act have i: "i < length (n_owed n)" by (simp add: act_announce_def split: if_splits)
  let ?good = "r = Inr () \<and> list_all (\<lambda>e. ev_service_id e \<noteq> ev_service_id ?ev) (take i (n_owed n))"
  let ?sp = "if ?good then n_spoiled n else insert (ev_service_id ?ev) (n_spoiled n)"
  from act i run have n': "n' = n\<lparr>n_db := d, n_owed := ?ow, n_spoiled := ?sp\<rparr>"
    by (simp add: act_announce_def Let_def)
  have ev: "event_ok ?ev" "ev_kind ?ev = KindVar" using net_invD(2) [OF inv nth_mem [OF i]] by simp_all
  have adv: "advances (n_db n) (n_owed n) (n_spoiled n) d ?ow ?sp"
    using run
  proof (cases rule: Publish_cases)
    case sent
    show ?thesis
    proof (cases ?good)
      case True
      then show ?thesis using advances_publish [OF i sent(3,4) ev] by simp
    next
      case False
      with unmarshal_marshal [OF ev(1)] show ?thesis using advances_drop [OF i sent(3,4)] by auto
    qed
  qed (use advances_drop [OF i, of d "n_db n" "[]"] in auto)
  have "tbl d = tbl (n_db n)" "seqs d = seqs (n_db n)" using run by (auto elim: Publish_cases)
  then have "store_inv (tbl d) (seqs d)" using net_invD(1) [OF inv] by simp
  from net_inv_db [OF inv adv this] net_invD(2) [OF inv] without_subset [of i "n_owed n"] show ?thesis
    unfolding n' by blast
qed

lemma net_inv_forget:
  assumes inv: "net_inv n" and act: "act_forget i n = Some n'"
  shows "net_inv n'"
proof -
  from act have i: "i < length (n_owed n)"
    and n': "n' = n\<lparr>n_owed := without i (n_owed n),
       n_spoiled := insert (ev_service_id (n_owed n ! i)) (n_spoiled n)\<rparr>"
    by (auto simp: act_forget_def split: if_splits)
  have "advances (n_db n) (n_owed n) (n_spoiled n) (n_db n) (without i (n_owed n))
      (insert (ev_service_id (n_owed n ! i)) (n_spoiled n))"
    by (rule advances_drop [OF i, where ps = "[]"]) simp_all
  from net_inv_db [OF inv this net_invD(1) [OF inv]] net_invD(2) [OF inv] without_subset [of i "n_owed n"]
  show ?thesis unfolding n' by fastforce
qed

lemma find_variable_rows: "find_variable t sid k = find (is_var sid k) (rows_of sid t)"
  unfolding find_variable_def rows_of_def find_filter by (rule find_cong_pred) (auto simp: is_var_def)

lemma changed_config:
  assumes "sid \<notin> set (changed t t')"
  shows "config_of t' sid = config_of t sid"
proof -
  have "rows_of sid t = rows_of sid t'"
  proof (cases "sid \<in> set (map v_service (variables_tbl t @ variables_tbl t'))")
    case True
    with assms show ?thesis by (auto simp: changed_def)
  next
    case False
    then have "rows_of sid t = []" "rows_of sid t' = []" by (auto simp: rows_of_def filter_empty_conv)
    then show ?thesis by simp
  qed
  then show ?thesis by (simp add: config_of_def find_variable_rows fun_eq_iff)
qed

lemma net_inv_store:
  assumes inv: "net_inv n" and act: "act_store c n = Some n'"
  shows "net_inv n'"
proof -
  obtain r d where run: "run_op c (n_db n) = (r, d)" by fastforce
  let ?sp = "set (changed (tbl (n_db n)) (tbl d)) \<union> n_spoiled n"
  from act run have n': "n' = n\<lparr>n_db := d, n_spoiled := ?sp\<rparr>" by (simp add: act_store_def)
  have "advances (n_db n) (n_owed n) (n_spoiled n) d (n_owed n) ?sp"
    using silentD [OF silent_run_op run] changed_config
    by (intro advances_quiet [where ps = "[]"]) auto
  moreover have "store_inv (tbl d) (seqs d)"
    using preservesD [OF preserves_run_op run net_invD(1) [OF inv]] by simp
  ultimately show ?thesis using net_inv_db [OF inv] net_invD(2) [OF inv] unfolding n' by fastforce
qed

subsection \<open>Replicas\<close>

lemma holder_mark [simp]: "holder (\<lambda>s. mark lost (ses s)) pgs = holder ses pgs"
  by (rule ext) (simp add: holder_def split: sum.split)

lemma net_inv_notify:
  assumes inv: "net_inv n" and act: "act_notify r n = Some n'"
  shows "net_inv n'"
proof -
  let ?rp = "n_rep n r" and ?ns = "notifs (n_db n)"
  let ?p = "?ns ! rp_read ?rp"
  let ?b = "on_notification ?p (rp_broker ?rp)"
  let ?lost = "\<lambda>ss i. ss_replica ss = r \<and> drops ?p (rp_broker ?rp) i"
  from act have k: "rp_read ?rp < length ?ns"
    and n': "n' = n\<lparr>n_rep := (n_rep n)(r := ?rp\<lparr>rp_broker := ?b, rp_read := Suc (rp_read ?rp)\<rparr>),
      n_sess := (\<lambda>s. mark ?lost (n_sess n s))\<rparr>"
    by (auto simp: act_notify_def Let_def not_le split: if_splits)
  have t: "topical (rp_broker (n_rep n q))" "rp_read (n_rep n q) \<le> length ?ns" for q
    using inv by (simp_all add: net_inv_def)
  have good: "session_good n (n_sess n s)" for s using inv by (simp add: net_inv_def)
  have "session_good n' (n_sess n' s)" for s
  proof (cases "ss_replica (n_sess n s) = r")
    case True
    with session_notify [OF _ k, where P = "\<lambda>ss. ss_replica ss = r"] good [of s] show ?thesis
      by (simp add: n')
  next
    case False
    then have "mark ?lost (n_sess n s) = n_sess n s" by (intro mark_idle) simp
    with good [of s] False show ?thesis by (simp add: n')
  qed
  moreover have "registered (holder (n_sess n) (n_page n)) (\<lambda>q. rp_broker (n_rep n' q))"
  proof (rule registered_cong)
    show "registered (holder (n_sess n) (n_page n)) (\<lambda>q. rp_broker (n_rep n q))"
      using inv by (simp add: net_inv_def)
    show "find_sub i (rp_broker (n_rep n' q)) = None \<longleftrightarrow> find_sub i (rp_broker (n_rep n q)) = None" for q i
      by (simp add: n' on_notification_def split: option.split)
  qed
  ultimately show ?thesis
    using inv t topical_notification [OF t(1), of ?p r] k by (simp add: net_inv_def n')
qed

lemma same_brokers:
  assumes "net_inv n" and "\<And>q. rp_broker (n_rep n' q) = rp_broker (n_rep n q)"
  shows "registered (holder (n_sess n) (n_page n)) (\<lambda>q. rp_broker (n_rep n' q))"
  by (rule registered_cong [where B = "\<lambda>q. rp_broker (n_rep n q)"]) (use assms in \<open>simp_all add: net_inv_def\<close>)

lemma net_inv_listen:
  assumes inv: "net_inv n" and act: "act_listen r n = Some n'"
  shows "net_inv n'"
proof -
  let ?rp = "n_rep n r" and ?ns = "notifs (n_db n)"
  let ?lost = "\<lambda>ss i. ss_replica ss = r \<and> rp_read ?rp < length ?ns"
  from act have n': "n' = n\<lparr>n_rep := (n_rep n)(r := ?rp\<lparr>rp_listening := True, rp_read := length ?ns\<rparr>),
      n_sess := (\<lambda>s. mark ?lost (n_sess n s))\<rparr>"
    by (auto simp: act_listen_def Let_def split: if_splits)
  have good: "session_good n (n_sess n s)" for s using inv by (simp add: net_inv_def)
  have "session_good n' (n_sess n' s)" for s
  proof (cases "ss_replica (n_sess n s) = r")
    case True
    with session_listen [where P = "\<lambda>ss. ss_replica ss = r"] good [of s] inv show ?thesis
      by (simp add: n' net_inv_def)
  next
    case False
    then have "mark ?lost (n_sess n s) = n_sess n s" by (intro mark_idle) simp
    with good [of s] False show ?thesis by (simp add: n')
  qed
  with same_brokers [OF inv, of n'] inv show ?thesis by (simp add: net_inv_def n')
qed

subsection \<open>Streams and pages\<close>

lemma holder_session:
  "map_option (Pair (ss_replica ss)) (held (ss_phase ss)) = q \<Longrightarrow>
     holder (ses(s := ss)) pgs = (holder ses pgs)(Inl s := q)"
  by (auto simp: holder_def fun_eq_iff split: sum.split)

lemma holder_page:
  "map_option (Pair (pg_replica pg)) (page_held (pg_phase pg)) = q \<Longrightarrow>
     holder ses (pgs(x := pg)) = (holder ses pgs)(Inr x := q)"
  by (auto simp: holder_def fun_eq_iff split: sum.split)

lemma set_broker_sel [simp]:
  "rp_broker (set_broker r b f q) = (if q = r then b else rp_broker (f q))"
  "rp_read (set_broker r b f q) = rp_read (f q)"
  by (simp_all add: set_broker_def)

text \<open>Sessions that do not hold the moving subscription keep their entries.\<close>

lemma others_good:
  assumes inv: "net_inv n" and move: "broker_move h (rp_broker (n_rep n r)) h' b'"
    and mine: "holder (n_sess n) (n_page n) x = map_option (Pair r) h" and other: "Inl s \<noteq> x"
    and good: "session_ok d ow sp (rp_broker (n_rep n (ss_replica (n_sess n s)))) k (n_sess n s)"
  shows "session_ok d ow sp (rp_broker (set_broker r b' (n_rep n) (ss_replica (n_sess n s)))) k (n_sess n s)"
proof (cases "ss_replica (n_sess n s) = r")
  case True
  from inv have t: "topical (rp_broker (n_rep n r))" and reg: "registered (holder (n_sess n) (n_page n)) (\<lambda>r. rp_broker (n_rep n r))"
    by (simp_all add: net_inv_def)
  have "find_sub i b' = find_sub i (rp_broker (n_rep n r))" if i: "held (ss_phase (n_sess n s)) = Some i" for i
  proof (rule move_others [OF move t])
    have "holder (n_sess n) (n_page n) (Inl s) = Some (r, i)" using i True by (simp add: holder_def)
    with reg mine other show "h \<noteq> Some i" and "find_sub i (rp_broker (n_rep n r)) \<noteq> None"
      unfolding registered_def by auto
  qed
  with session_broker [OF good] True show ?thesis by simp
next
  case False
  with good show ?thesis by simp
qed

lemma net_inv_serve:
  assumes inv: "net_inv n" and act: "act_serve s ch n = Some n'"
  shows "net_inv n'"
proof -
  let ?ss = "n_sess n s"
  let ?r = "ss_replica ?ss"
  let ?b = "rp_broker (n_rep n ?r)"
  from act obtain ms ph d b where
    step: "serve_step (ss_ep ?ss) (ss_rq ?ss) ch (ss_phase ?ss) (n_db n) ?b = Some (ms, ph, d, b)"
    and n': "n' = n\<lparr>n_db := d, n_rep := set_broker ?r b (n_rep n), n_sess := (n_sess n)(s := moved ?ss ph ms)\<rparr>"
    by (auto simp: act_serve_def Let_def split: option.splits prod.splits)
  from serve_counts [OF step] have counts: "counts_only (n_db n) d" .
  then have "store_inv (tbl d) (seqs d)" using net_invD(1) [OF inv] by (simp add: counts_only_def)
  from net_inv_db [OF inv advances_counts [OF counts] this] net_invD(2) [OF inv]
  have mid: "net_inv (n\<lparr>n_db := d\<rparr>)" by auto
  then have good: "session_ok d (n_owed n) (n_spoiled n) (rp_broker (n_rep n (ss_replica (n_sess n a))))
      (rp_read (n_rep n (ss_replica (n_sess n a)))) (n_sess n a)"
    and led: "ledger d (n_owed n) (n_spoiled n)" and t: "topical (rp_broker (n_rep n q))" for a q
    by (simp_all add: net_inv_def)
  have move: "broker_move (held (ss_phase ?ss)) ?b (held ph) b" by (rule serve_broker [OF step])
  have mine: "holder (n_sess n) (n_page n) (Inl s) = map_option (Pair ?r) (held (ss_phase ?ss))"
    by (simp add: holder_def)
  have "session_good n' (n_sess n' a)" for a
  proof (cases "a = s")
    case True
    with serve_session [OF step good led t net_invD(1) [OF inv] refl refl] show ?thesis by (simp add: n')
  next
    case False
    with others_good [OF inv move mine _ good [of a]] show ?thesis by (simp add: n')
  qed
  moreover have "registered (holder (n_sess n') (n_page n')) (\<lambda>q. rp_broker (n_rep n' q))"
  proof -
    have "registered ((holder (n_sess n) (n_page n))(Inl s := map_option (Pair ?r) (held ph)))
        ((\<lambda>q. rp_broker (n_rep n q))(?r := b))"
      by (rule registered_move [where h = "held (ss_phase ?ss)"]) (use inv mine move in \<open>simp_all add: net_inv_def\<close>)
    moreover have "holder (n_sess n') (n_page n') = (holder (n_sess n) (n_page n))(Inl s := map_option (Pair ?r) (held ph))"
      unfolding n' by (simp add: holder_session)
    moreover have "(\<lambda>q. rp_broker (n_rep n' q)) = (\<lambda>q. rp_broker (n_rep n q))(?r := b)"
      unfolding n' by (rule ext) simp
    ultimately show ?thesis by (simp only:)
  qed
  ultimately show ?thesis
    using mid topical_move [OF move t] by (auto simp: net_inv_def n')
qed

lemma net_inv_page:
  assumes inv: "net_inv n" and act: "act_serve_page x rq ch n = Some n'"
  shows "net_inv n'"
proof -
  let ?pg = "n_page n x"
  let ?r = "pg_replica ?pg"
  let ?b = "rp_broker (n_rep n ?r)"
  from act obtain out ph b where step: "sse_step True rq ch (pg_phase ?pg) ?b = Some (out, ph, b)"
    and n': "n' = n\<lparr>n_rep := set_broker ?r b (n_rep n), n_page := (n_page n)(x := ?pg\<lparr>pg_phase := ph\<rparr>)\<rparr>"
    by (auto simp: act_serve_page_def Let_def split: option.splits prod.splits)
  have ph: "(case p of SseOpen i \<Rightarrow> Some i | _ \<Rightarrow> None) = page_held p" for p by (cases p) simp_all
  have t: "topical (rp_broker (n_rep n q))" for q using inv by (simp add: net_inv_def)
  have move: "broker_move (page_held (pg_phase ?pg)) ?b (page_held ph) b" using sse_broker [OF step] unfolding ph .
  have mine: "holder (n_sess n) (n_page n) (Inr x) = map_option (Pair ?r) (page_held (pg_phase ?pg))"
    by (simp add: holder_def)
  have "session_good n' (n_sess n' a)" for a
    using others_good [OF inv move mine, of a] inv by (simp add: n' net_inv_def)
  moreover have "registered (holder (n_sess n') (n_page n')) (\<lambda>q. rp_broker (n_rep n' q))"
  proof -
    have "registered ((holder (n_sess n) (n_page n))(Inr x := map_option (Pair ?r) (page_held ph)))
        ((\<lambda>q. rp_broker (n_rep n q))(?r := b))"
      by (rule registered_move [where h = "page_held (pg_phase ?pg)"])
        (use inv mine move in \<open>simp_all add: net_inv_def\<close>)
    moreover have "holder (n_sess n') (n_page n') = (holder (n_sess n) (n_page n))(Inr x := map_option (Pair ?r) (page_held ph))"
      unfolding n' by (simp add: holder_page)
    moreover have "(\<lambda>q. rp_broker (n_rep n' q)) = (\<lambda>q. rp_broker (n_rep n q))(?r := b)"
      unfolding n' by (rule ext) simp
    ultimately show ?thesis by (simp only:)
  qed
  ultimately show ?thesis
    using inv topical_move [OF move t] by (auto simp: net_inv_def n')
qed

lemma net_inv_deliver:
  assumes inv: "net_inv n" and act: "act_deliver s n = Some n'"
  shows "net_inv n'"
proof -
  let ?ss = "n_sess n s"
  from act obtain m ms where chan: "ss_chan ?ss = m # ms"
    and n': "n' = n\<lparr>n_sess := (n_sess n)(s := ?ss\<lparr>ss_chan := ms, ss_client := fst (on_event m (ss_client ?ss))\<rparr>)\<rparr>"
    by (auto simp: act_deliver_def Let_def split: list.splits)
  have "session_good n' (n_sess n' a)" for a
  proof -
    have "session_good n (n_sess n a)" using inv by (simp add: net_inv_def)
    then show ?thesis by (cases "a = s") (simp_all add: n' session_ok_def follows_def chan)
  qed
  moreover have "holder (n_sess n') (n_page n') = holder (n_sess n) (n_page n)"
    by (rule ext) (simp add: n' holder_def split: sum.split)
  ultimately show ?thesis using inv by (simp add: net_inv_def n')
qed

lemma net_inv_connect:
  assumes inv: "net_inv n" and act: "act_connect s r ep rq n = Some n'"
  shows "net_inv n'"
proof -
  from act obtain e where e: "ss_phase (n_sess n s) = Ended e" and n': "n' = n\<lparr>n_sess := (n_sess n)(s :=
      \<lparr>ss_replica = r, ss_ep = ep, ss_rq = rq, ss_phase = Start, ss_chan = [],
        ss_client = ss_client (n_sess n s), ss_lossy = False\<rparr>)\<rparr>"
    by (auto simp: act_connect_def split: phase.splits)
  have "session_good n' (n_sess n' a)" for a
    using inv by (auto simp: n' net_inv_def session_ok_def)
  moreover have "holder (n_sess n') (n_page n') = holder (n_sess n) (n_page n)"
    by (rule ext) (simp add: n' holder_def e split: sum.split)
  ultimately show ?thesis using inv by (simp add: net_inv_def n')
qed

lemma net_inv_open_page:
  assumes inv: "net_inv n" and act: "act_open_page x r n = Some n'"
  shows "net_inv n'"
proof -
  from act have e: "pg_phase (n_page n x) = SseDone"
    and n': "n' = n\<lparr>n_page := (n_page n)(x := \<lparr>pg_replica = r, pg_phase = SseStart\<rparr>)\<rparr>"
    by (auto simp: act_open_page_def split: sse_phase.splits)
  have "holder (n_sess n') (n_page n') = holder (n_sess n) (n_page n)"
    by (rule ext) (simp add: n' holder_def e split: sum.split)
  then show ?thesis using inv by (simp add: net_inv_def n')
qed

lemma net_inv_step:
  assumes inv: "net_inv n" and act: "net_act a n = Some n'"
  shows "net_inv n'"
proof (cases a)
  case (Wait k)
  have "advances (n_db n) (n_owed n) (n_spoiled n) ((n_db n)\<lparr>clock := clock (n_db n) + k\<rparr>) (n_owed n) (n_spoiled n)"
    by (rule advances_same) simp_all
  from net_inv_db [OF inv this] net_invD [OF inv] act Wait show ?thesis by (auto split: if_splits)
next
  case (Weather fs)
  have "advances (n_db n) (n_owed n) (n_spoiled n) ((n_db n)\<lparr>faults := fs\<rparr>) (n_owed n) (n_spoiled n)"
    by (rule advances_same) simp_all
  from net_inv_db [OF inv this] net_invD [OF inv] act Weather show ?thesis by auto
next
  case (ListenLost r)
  with act have n': "n' = n\<lparr>n_rep := (n_rep n)(r := (n_rep n r)\<lparr>rp_listening := False\<rparr>)\<rparr>" by simp
  have "session_good n' (n_sess n' s)" for s
    using inv by (cases "ss_replica (n_sess n s) = r") (auto simp: net_inv_def n')
  with n' same_brokers [OF inv, of n'] inv show ?thesis by (simp add: net_inv_def)
qed (use inv act in \<open>auto intro: net_inv_write net_inv_write_all net_inv_announce net_inv_forget net_inv_store
    net_inv_notify net_inv_listen net_inv_connect net_inv_serve net_inv_deliver net_inv_open_page net_inv_page\<close>)

lemma net_reach_inv: "net_reach n \<Longrightarrow> net_inv n"
  by (induction rule: net_reach.induct) (auto intro: net_inv_init net_inv_step)

end
