(* ===== verification/Propagation_Progress.thy ===== *)
theory Propagation_Progress
  imports Propagation_Invariant
begin

text \<open>
  Runs that bring a stream up to date: its replica reads the channel, the handler empties its
  buffer, the client takes its messages. What the run of one stream leaves alone is the frame
  \<open>kept\<close>.
\<close>

section \<open>Frames\<close>

text \<open>
  What the client will have once everything that was sent has reached it.
\<close>

definition future :: "nat \<Rightarrow> nat \<Rightarrow> int \<Rightarrow> net \<Rightarrow> config" where
  "future s i sid n = play_all (coming (n_db n) (rp_broker (n_rep n (ss_replica (n_sess n s))))
       (rp_read (n_rep n (ss_replica (n_sess n s)))) i sid)
     (fold apply_msg (ss_chan (n_sess n s)) (cl_overrides (ss_client (n_sess n s))))"

definition kept :: "nat \<Rightarrow> net \<Rightarrow> net \<Rightarrow> bool" where
  "kept s n n' \<longleftrightarrow> n_db n' = n_db n \<and> n_owed n' = n_owed n \<and> n_spoiled n' = n_spoiled n \<and>
     ss_phase (n_sess n' s) = ss_phase (n_sess n s) \<and> ss_replica (n_sess n' s) = ss_replica (n_sess n s) \<and>
     ss_rq (n_sess n' s) = ss_rq (n_sess n s) \<and> ss_lossy (n_sess n' s) = ss_lossy (n_sess n s) \<and>
     (\<forall>r. rp_listening (n_rep n' r) = rp_listening (n_rep n r)) \<and>
     (\<forall>svc i. ss_phase (n_sess n s) = Looping svc i \<longrightarrow> future s i (s_id svc) n' = future s i (s_id svc) n)"

lemma kept_refl: "kept s n n"
  by (simp add: kept_def)

lemma kept_trans: "kept s n n1 \<Longrightarrow> kept s n1 n2 \<Longrightarrow> kept s n n2"
  by (simp add: kept_def)

abbreviation broker_of :: "nat \<Rightarrow> net \<Rightarrow> broker" where
  "broker_of s n \<equiv> rp_broker (n_rep n (ss_replica (n_sess n s)))"

abbreviation read_of :: "nat \<Rightarrow> net \<Rightarrow> nat" where
  "read_of s n \<equiv> rp_read (n_rep n (ss_replica (n_sess n s)))"

text \<open>Everything that was sent has reached the client of a stream.\<close>

definition drained :: "nat \<Rightarrow> nat \<Rightarrow> net \<Rightarrow> bool" where
  "drained s i n \<longleftrightarrow> read_of s n = length (notifs (n_db n)) \<and> pending (broker_of s n) i = [] \<and>
     ss_chan (n_sess n s) = []"

lemma net_run_append: "net_run (as @ bs) n = Option.bind (net_run as n) (net_run bs)"
  by (induction as arbitrary: n) (auto split: option.split)

lemma run_snoc: "net_run as n = Some n1 \<Longrightarrow> net_act a n1 = Some n2 \<Longrightarrow> net_run (as @ [a]) n = Some n2"
  by (simp add: net_run_append)

lemma run_compose: "net_run as n = Some n1 \<Longrightarrow> net_run bs n1 = Some n2 \<Longrightarrow> net_run (as @ bs) n = Some n2"
  by (simp add: net_run_append)

text \<open>
  The steps of the propagation itself: the writer announces the change it owes first, the replica \<open>r\<close> of
  the stream reads the channel, the handler of the stream \<open>s\<close> takes an event, its client a message.
\<close>

definition propagates :: "nat \<Rightarrow> nat \<Rightarrow> action \<Rightarrow> bool" where
  "propagates s r a \<longleftrightarrow> a \<in> {Announce 0, Notify r, Serve s (TakeEvent True), Deliver s}"

lemma propagates_simps [simp]: "propagates s r (Announce 0)" "propagates s r (Notify r)"
  "propagates s r (Serve s (TakeEvent True))" "propagates s r (Deliver s)"
  by (simp_all add: propagates_def)

section \<open>Single steps\<close>

lemma looping_topic:
  assumes "net_inv n" and "ss_phase (n_sess n s) = Looping svc i"
  shows "s_id svc \<noteq> 0" and "topic (broker_of s n) i = Some (s_id svc)" and "topical (broker_of s n)"
proof -
  have "session_good n (n_sess n s)" and "topical (broker_of s n)" using assms(1) by (simp_all add: net_inv_def)
  then show "s_id svc \<noteq> 0" and "topic (broker_of s n) i = Some (s_id svc)" and "topical (broker_of s n)"
    using assms(2) by (simp_all add: session_ok_def follows_def)
qed

lemma receive_some:
  assumes "pending b i = ev # evs"
  obtains b' where "receive i b = Some (ev, b')" and "pending b' i = evs"
proof -
  from assms obtain x where x: "find (\<lambda>s. sub_id s = i) (subs b) = Some x" "sub_buf x = ev # evs"
    by (auto simp: pending_def find_sub_def split: option.splits)
  then obtain b' where r: "receive i b = Some (ev, b')" by (simp add: receive_def)
  from find_sub_receive(1) [OF r, of i] x have "pending b' i = evs"
    by (simp add: pending_def find_sub_def)
  with r that show ?thesis by blast
qed

lemma take_step:
  assumes inv: "net_inv n" and loop: "ss_phase (n_sess n s) = Looping svc i" and "pending (broker_of s n) i = ev # evs"
  obtains n' where "net_act (Serve s (TakeEvent True)) n = Some n'" and "kept s n n'"
    and "pending (broker_of s n') i = evs" and "read_of s n' = read_of s n"
    and "ss_chan (n_sess n' s) = ss_chan (n_sess n s) @ (if ev_kind ev = KindVar then [change_of ev] else [])"
    and "ss_client (n_sess n' s) = ss_client (n_sess n s)"
proof -
  let ?ss = "n_sess n s"
  let ?ms = "if ev_kind ev = KindVar then [change_of ev] else []"
  obtain b' where r: "receive i (broker_of s n) = Some (ev, b')" and p: "pending b' i = evs"
    using assms(3) by (rule receive_some)
  let ?n' = "n\<lparr>n_db := n_db n, n_rep := set_broker (ss_replica ?ss) b' (n_rep n),
     n_sess := (n_sess n)(s := ?ss\<lparr>ss_phase := ss_phase ?ss, ss_chan := ss_chan ?ss @ ?ms\<rparr>)\<rparr>"
  have "serve_step (ss_ep ?ss) (ss_rq ?ss) (TakeEvent True) (ss_phase ?ss) (n_db n) (broker_of s n)
      = Some (?ms, ss_phase ?ss, n_db n, b')"
    by (simp add: serve_step_def loop loop_turn_def r sendChange_def)
  then have act: "net_act (Serve s (TakeEvent True)) n = Some ?n'" by (simp add: act_serve_def Let_def)
  note top = looping_topic [OF inv loop]
  have "future s i (s_id svc) ?n' = future s i (s_id svc) n"
    by (simp add: future_def coming_take(2) [OF top(3,1,2) r] change_play)
  with loop have "kept s n ?n'" by (simp add: kept_def set_broker_def)
  with act show ?thesis by (rule that) (simp_all add: p)
qed

lemma notify_step:
  assumes "rp_listening (n_rep n r)" and "r = ss_replica (n_sess n s)" and "read_of s n < length (notifs (n_db n))"
    and loop: "ss_phase (n_sess n s) = Looping svc i" and "pending (broker_of s n) i = []" and inv: "net_inv n"
  obtains n' where "net_act (Notify r) n = Some n'" and "kept s n n'" and "length (pending (broker_of s n') i) \<le> 1"
    and "read_of s n' = Suc (read_of s n)" and "ss_chan (n_sess n' s) = ss_chan (n_sess n s)"
    and "ss_client (n_sess n' s) = ss_client (n_sess n s)"
proof -
  let ?rp = "n_rep n r"
  let ?p = "notifs (n_db n) ! rp_read ?rp"
  let ?n' = "n\<lparr>n_rep := (n_rep n)(r := ?rp\<lparr>rp_broker := on_notification ?p (rp_broker ?rp), rp_read := Suc (rp_read ?rp)\<rparr>),
     n_sess := (\<lambda>s. mark (\<lambda>ss i. ss_replica ss = r \<and> drops ?p (rp_broker ?rp) i) (n_sess n s))\<rparr>"
  have act: "net_act (Notify r) n = Some ?n'"
    using assms(1-3) by (simp add: act_notify_def Let_def not_le)
  have room: "\<not> drops ?p (rp_broker ?rp) i"
    using assms(2,5) by (auto simp: drops_def pending_def chan_cap_def split: option.splits)
  have "length (pending (on_notification ?p (rp_broker ?rp)) i) \<le> 1"
    using assms(2,5) by (auto simp: pending_def on_notification_def offer_def split: option.splits)
  moreover have "kept s n ?n'"
  proof -
    have "future s i (s_id svc) ?n' = future s i (s_id svc) n"
      using looping_topic [OF inv loop] coming_notify [of "rp_read ?rp" "n_db n" "s_id svc" "rp_broker ?rp" i]
        assms(2,3) room by (simp add: future_def)
    with loop assms(2) room show ?thesis by (simp add: kept_def mark_def)
  qed
  ultimately show ?thesis
    using assms(2) by (intro that [OF act]) (simp_all add: mark_def loop)
qed

lemma deliver_step:
  assumes "ss_chan (n_sess n s) = m # ms"
  obtains n' where "net_act (Deliver s) n = Some n'" and "kept s n n'" and "ss_chan (n_sess n' s) = ms"
    and "pending (broker_of s n') i = pending (broker_of s n) i" and "read_of s n' = read_of s n"
    and "ss_client (n_sess n' s) = fst (on_event m (ss_client (n_sess n s)))"
proof -
  have "net_act (Deliver s) n = Some (n\<lparr>n_sess := (n_sess n)(s := (n_sess n s)\<lparr>ss_chan := ms,
        ss_client := fst (on_event m (ss_client (n_sess n s)))\<rparr>)\<rparr>)"
    by (simp add: act_deliver_def Let_def assms)
  then show ?thesis by (rule that) (simp_all add: kept_def future_def assms)
qed

section \<open>Draining\<close>

lemma deliver_all:
  "\<exists>as n'. net_run as n = Some n' \<and> list_all (propagates s r) as \<and> kept s n n' \<and> ss_chan (n_sess n' s) = [] \<and>
     pending (broker_of s n') i = pending (broker_of s n) i \<and> read_of s n' = read_of s n"
proof (induction "ss_chan (n_sess n s)" arbitrary: n)
  case Nil
  then show ?case by (intro exI [of _ "[]"] exI [of _ n]) (simp add: kept_refl)
next
  case (Cons m ms)
  obtain n1 where 1: "net_act (Deliver s) n = Some n1" "kept s n n1" "ss_chan (n_sess n1 s) = ms"
    "pending (broker_of s n1) i = pending (broker_of s n) i" "read_of s n1 = read_of s n"
    using Cons(2) [symmetric] by (rule deliver_step)
  from Cons(1) [OF 1(3) [symmetric]] obtain as n' where 2: "net_run as n1 = Some n'" "kept s n1 n'"
    "ss_chan (n_sess n' s) = []" "pending (broker_of s n') i = pending (broker_of s n1) i"
    "read_of s n' = read_of s n1" "list_all (propagates s r) as" by blast
  then have "net_run (Deliver s # as) n = Some n'" using 1(1) by simp
  moreover have "kept s n n'" by (rule kept_trans [OF 1(2) 2(2)])
  ultimately show ?case using 1 2 by (intro exI [of _ "Deliver s # as"] exI [of _ n']) simp
qed

lemma read_all:
  assumes "ss_phase (n_sess n s) = Looping svc i" and "rp_listening (n_rep n (ss_replica (n_sess n s)))"
    and "read_of s n \<le> length (notifs (n_db n))" and "net_inv n"
  shows "\<exists>as n'. net_run as n = Some n' \<and> list_all (propagates s (ss_replica (n_sess n s))) as \<and> kept s n n' \<and>
     pending (broker_of s n') i = [] \<and> read_of s n' = length (notifs (n_db n))"
  using assms
proof (induction "2 * (length (notifs (n_db n)) - read_of s n) + length (pending (broker_of s n) i)"
    arbitrary: n rule: less_induct)
  case less
  let ?p = "propagates s (ss_replica (n_sess n s))"
  have more: ?case if act: "net_act a n = Some n1" and p: "?p a" and k: "kept s n n1"
    and le: "read_of s n1 \<le> length (notifs (n_db n))"
    and dec: "2 * (length (notifs (n_db n)) - read_of s n1) + length (pending (broker_of s n1) i)
      < 2 * (length (notifs (n_db n)) - read_of s n) + length (pending (broker_of s n) i)" for a n1
  proof -
    have rep: "ss_replica (n_sess n1 s) = ss_replica (n_sess n s)" using k by (simp add: kept_def)
    have "\<exists>as n'. net_run as n1 = Some n' \<and> list_all (propagates s (ss_replica (n_sess n1 s))) as \<and> kept s n1 n' \<and>
        pending (broker_of s n') i = [] \<and> read_of s n' = length (notifs (n_db n1))"
      by (rule less.hyps) (use k le dec less.prems net_inv_step [OF less.prems(4) act] in \<open>simp_all add: kept_def\<close>)
    then obtain as n' where "net_run as n1 = Some n'" "list_all ?p as" "kept s n1 n'" "pending (broker_of s n') i = []"
      "read_of s n' = length (notifs (n_db n1))" unfolding rep by blast
    then have "net_run (a # as) n = Some n' \<and> list_all ?p (a # as) \<and> kept s n n' \<and> pending (broker_of s n') i = [] \<and>
        read_of s n' = length (notifs (n_db n))"
      using act p k kept_trans [OF k] by (simp add: kept_def)
    then show ?thesis by blast
  qed
  show ?case
  proof (cases "pending (broker_of s n) i")
    case (Cons ev evs)
    obtain n1 where 1: "net_act (Serve s (TakeEvent True)) n = Some n1" "kept s n n1"
      "pending (broker_of s n1) i = evs" "read_of s n1 = read_of s n"
      using less.prems(4,1) Cons by (rule take_step)
    show ?thesis by (rule more [OF 1(1) _ 1(2)]) (use 1 less.prems(3) Cons in simp_all)
  next
    case Nil
    show ?thesis
    proof (cases "read_of s n = length (notifs (n_db n))")
      case True
      with Nil show ?thesis by (intro exI [of _ "[]"] exI [of _ n]) (simp add: kept_refl)
    next
      case False
      with less.prems(3) have lt: "read_of s n < length (notifs (n_db n))" by simp
      obtain n1 where 1: "net_act (Notify (ss_replica (n_sess n s))) n = Some n1" "kept s n n1"
        "length (pending (broker_of s n1) i) \<le> 1" "read_of s n1 = Suc (read_of s n)"
        using notify_step [OF less.prems(2) refl lt less.prems(1) Nil less.prems(4)] by blast
      show ?thesis by (rule more [OF 1(1) _ 1(2)]) (use 1 lt Nil in simp_all)
    qed
  qed
qed

lemma drain_run:
  assumes "ss_phase (n_sess n s) = Looping svc i" and "rp_listening (n_rep n (ss_replica (n_sess n s)))"
    and "net_reach n"
  shows "\<exists>as n'. net_run as n = Some n' \<and> list_all (propagates s (ss_replica (n_sess n s))) as \<and>
     kept s n n' \<and> drained s i n'"
proof -
  have "read_of s n \<le> length (notifs (n_db n))" using net_reach_inv [OF assms(3)] by (simp add: net_inv_def)
  from read_all [OF assms(1,2) this net_reach_inv [OF assms(3)]] obtain as n1 where 1: "net_run as n = Some n1" "kept s n n1"
    "pending (broker_of s n1) i = []" "read_of s n1 = length (notifs (n_db n))"
    "list_all (propagates s (ss_replica (n_sess n s))) as" by blast
  from deliver_all [of n1 s "ss_replica (n_sess n s)" i] obtain bs n' where 2: "net_run bs n1 = Some n'" "kept s n1 n'"
    "ss_chan (n_sess n' s) = []" "pending (broker_of s n') i = []" "read_of s n' = read_of s n1"
    "list_all (propagates s (ss_replica (n_sess n s))) bs"
    unfolding 1(3) by blast
  have "drained s i n'" using 1 2 by (simp add: drained_def kept_def)
  moreover have "list_all (propagates s (ss_replica (n_sess n s))) (as @ bs)" using 1(5) 2(6) by simp
  ultimately show ?thesis using run_compose [OF 1(1) 2(1)] kept_trans [OF 1(2) 2(2)] by blast
qed

section \<open>Announcing what is owed\<close>

definition announced_only :: "net \<Rightarrow> net \<Rightarrow> bool" where
  "announced_only n n' \<longleftrightarrow> tbl (n_db n') = tbl (n_db n) \<and> faults (n_db n') = [] \<and> n_spoiled n' = n_spoiled n \<and>
     n_sess n' = n_sess n \<and> n_rep n' = n_rep n"

abbreviation short :: "event \<Rightarrow> bool" where
  "short ev \<equiv> length (marshal_event ev) < 8000"

lemma announce_step:
  assumes "faults (n_db n) = []" and "n_owed n = ev # evs" and "short ev"
  obtains n' where "net_act (Announce 0) n = Some n'" and "announced_only n n'" and "n_owed n' = evs"
    and "notifs (n_db n') = notifs (n_db n) @ [marshal_event ev]"
proof -
  have "Publish ev (n_db n) = (Inr (), (n_db n)\<lparr>notifs := notifs (n_db n) @ [marshal_event ev]\<rparr>)"
    using assms(1,3) by (simp add: Publish_def pg_notify_def stmt_run)
  then have "net_act (Announce 0) n = Some (n\<lparr>n_db := (n_db n)\<lparr>notifs := notifs (n_db n) @ [marshal_event ev]\<rparr>,
      n_owed := evs\<rparr>)"
    using assms(2) by (simp add: act_announce_def without_def)
  then show ?thesis by (rule that) (simp_all add: announced_only_def assms(1))
qed

lemma announce_all:
  assumes "faults (n_db n) = []" and "list_all short (n_owed n)"
  shows "\<exists>as n'. net_run as n = Some n' \<and> list_all (propagates s r) as \<and> announced_only n n' \<and> n_owed n' = [] \<and>
     notifs (n_db n') = notifs (n_db n) @ map marshal_event (n_owed n)"
  using assms
proof (induction "n_owed n" arbitrary: n)
  case Nil
  then show ?case by (intro exI [of _ "[]"] exI [of _ n]) (simp add: announced_only_def)
next
  case (Cons ev evs)
  then have "short ev" and "list_all short evs" by (simp_all flip: Cons.hyps(2))
  obtain n1 where 1: "net_act (Announce 0) n = Some n1" "announced_only n n1" "n_owed n1 = evs"
    "notifs (n_db n1) = notifs (n_db n) @ [marshal_event ev]"
    using Cons.prems(1) Cons.hyps(2) [symmetric] \<open>short ev\<close> by (rule announce_step)
  have "\<exists>as n'. net_run as n1 = Some n' \<and> list_all (propagates s r) as \<and> announced_only n1 n' \<and> n_owed n' = [] \<and>
      notifs (n_db n') = notifs (n_db n1) @ map marshal_event (n_owed n1)"
    by (rule Cons.hyps(1)) (use 1 \<open>list_all short evs\<close> in \<open>simp_all add: announced_only_def\<close>)
  then obtain as n' where 2: "net_run as n1 = Some n'" "announced_only n1 n'" "n_owed n' = []"
    "list_all (propagates s r) as" "notifs (n_db n') = notifs (n_db n1) @ map marshal_event (n_owed n1)" by blast
  have "net_run (Announce 0 # as) n = Some n'" using 1(1) 2(1) by simp
  moreover have "announced_only n n'" using 1(2) 2(2) by (simp add: announced_only_def)
  moreover have "list_all (propagates s r) (Announce 0 # as)" using 2(4) by simp
  moreover have "notifs (n_db n') = notifs (n_db n) @ map marshal_event (n_owed n)"
    using 1(3,4) 2(5) by (simp flip: Cons.hyps(2))
  ultimately show ?case using 2(3) by blast
qed

section \<open>Clients\<close>

text \<open>Every client keeps its defaults, and its configuration is what its overrides make of them.\<close>

lemma client_act:
  assumes "net_act a n = Some n'"
  shows "cl_defaults (ss_client (n_sess n' s)) = cl_defaults (ss_client (n_sess n s))"
    and "client_inv (ss_client (n_sess n s)) \<Longrightarrow> client_inv (ss_client (n_sess n' s))"
  using assms
  by (cases a; auto simp: act_write_def act_write_all_def act_announce_def act_forget_def act_store_def act_notify_def
      act_listen_def act_connect_def act_serve_def act_deliver_def act_open_page_def act_serve_page_def Let_def
      client_inv_event split: option.splits prod.splits sum.splits if_splits phase.splits sse_phase.splits list.splits)+

lemma client_run: "net_run as n = Some n' \<Longrightarrow>
     cl_defaults (ss_client (n_sess n' s)) = cl_defaults (ss_client (n_sess n s))"
  by (induction as arbitrary: n) (auto simp: client_act(1) split: option.splits)

lemma client_reach: "net_reach n \<Longrightarrow> client_inv (ss_client (n_sess n s))"
  by (induction rule: net_reach.induct) (auto simp: net_init_def client_inv_new client_act(2))

lemma drained_config:
  assumes reach: "net_reach n" and loop: "ss_phase (n_sess n s) = Looping svc i" and snap: "rq_snapshot (ss_rq (n_sess n s))"
    and whole: "\<not> ss_lossy (n_sess n s)" and told: "s_id svc \<notin> n_spoiled n"
    and owed: "\<forall>ev \<in> set (n_owed n). ev_service_id ev \<noteq> s_id svc" and drained: "drained s i n"
  shows "cl_overrides (ss_client (n_sess n s)) = config_of (tbl (n_db n)) (s_id svc)"
proof -
  have "session_good n (n_sess n s)" using net_reach_inv [OF reach] by (simp add: net_inv_def)
  then have "follows (n_db n) (n_owed n) (n_spoiled n) (broker_of s n) (read_of s n) (n_sess n s) svc i"
    using loop by (simp add: session_ok_def)
  moreover have "coming (n_db n) (broker_of s n) (read_of s n) i (s_id svc) = []"
    using drained by (simp add: coming_def drained_def)
  moreover have "about (s_id svc) (n_owed n) = []" using owed by (auto simp: about_def filter_empty_conv)
  moreover have "ss_chan (n_sess n s) = []" using drained by (simp add: drained_def)
  ultimately show ?thesis using loop snap whole told by (simp add: follows_def)
qed

end
