(* ===== verification/Propagation_Properties.thy ===== *)
theory Propagation_Properties
  imports Propagation_Progress
begin

text \<open>
  What the propagation promises: no subscription leaks, buffers are bounded, a client that
  everything has reached has the configuration of the database, and it can always get there; and
  what it does not promise: an order of the announcements.
\<close>

section \<open>Agreement\<close>

text \<open>C20. Convergence: a client that is connected and has been sent all there is has exactly its
  defaults overlaid with the variables of its service in the database, whatever happened before in
  whatever order, if since its stream subscribed its replica lost no notification and dropped no
  event, and all changes of the service were announced in the order of their commits.\<close>

theorem clients_converge:
  assumes "net_reach n" and "ss_phase (n_sess n s) = Looping svc i" and "rq_snapshot (ss_rq (n_sess n s))"
    and "\<not> ss_lossy (n_sess n s)" and "s_id svc \<notin> n_spoiled n"
    and "\<forall>ev \<in> set (n_owed n). ev_service_id ev \<noteq> s_id svc" and "drained s i n"
  shows "cl_current (ss_client (n_sess n s)) =
     cl_defaults (ss_client (n_sess n s)) ++ config_of (tbl (n_db n)) (s_id svc)"
  using client_reach [OF assms(1), of s] drained_config [OF assms] by (simp add: client_inv_def)

text \<open>
  The example: a service with one variable, a connected client, and the first counter event lost
  in a failing statement.
\<close>

definition demo_ep :: stream_id where
  "demo_ep = \<lparr>ep_replica = ''r1'', ep_conn = ''c1'', ep_peer = ''peer''\<rparr>"

definition demo_net :: net where
  "demo_net = net_init (\<lambda>_ _. True) (\<lambda>_ _. True) (\<lambda>_. Map.empty(''k'' \<mapsto> ''default''))"

definition demo_setup :: "action list" where
  "demo_setup = [StoreOp (OpCreateService ''svc'' ''S'' '''' ''ann''),
     Connect 0 0 demo_ep \<lparr>rq_key = ''svc'', rq_snapshot = True\<rparr>, Serve 0 (Proceed True), Serve 0 (Proceed True),
     Weather [False, True], Serve 0 (Proceed True), Serve 0 (Proceed True), Deliver 0]"

definition demo_state :: "action list \<Rightarrow> net" where
  "demo_state as = (case net_run (demo_setup @ as) demo_net of None \<Rightarrow> demo_net | Some n \<Rightarrow> n)"

lemma demo_reach: "net_reach (demo_state as)"
  unfolding demo_state_def demo_net_def
  by (auto split: option.split intro: net_reach.init net_reach_run [OF net_reach.init])

theorem clients_converge_witness:
  "cl_current (ss_client (n_sess (demo_state []) 0)) =
     cl_defaults (ss_client (n_sess (demo_state []) 0)) ++ config_of (tbl (n_db (demo_state []))) 1"
proof -
  let ?n = "demo_state []"
  have "case ss_phase (n_sess ?n 0) of Looping svc i \<Rightarrow> s_id svc = 1 \<and> drained 0 i ?n | _ \<Rightarrow> False"
    and ok: "rq_snapshot (ss_rq (n_sess ?n 0))" "\<not> ss_lossy (n_sess ?n 0)" "1 \<notin> n_spoiled ?n" "n_owed ?n = []"
    by code_simp+
  then obtain svc i where "ss_phase (n_sess ?n 0) = Looping svc i" "s_id svc = 1" "drained 0 i ?n"
    by (auto split: phase.splits)
  with clients_converge [OF demo_reach this(1)] ok show ?thesis by simp
qed

text \<open>C21. Progress: from any such state, with a database that answers, payloads short enough for
  NOTIFY and a replica that listens, there is a run of nothing but the propagation (the writers announce, the
  replica of the stream reads the channel, its handler and its client take what came) that announces all that is
  owed, each event once and in order, and brings the client to the configuration of the database over the stream
  that it has; the tables are not touched by it.\<close>

theorem clients_catch_up:
  assumes "net_reach n" and "ss_phase (n_sess n s) = Looping svc i" and "rq_snapshot (ss_rq (n_sess n s))"
    and "\<not> ss_lossy (n_sess n s)" and "s_id svc \<notin> n_spoiled n"
    and "rp_listening (n_rep n (ss_replica (n_sess n s)))"
    and "faults (n_db n) = []" and "\<forall>ev \<in> set (n_owed n). length (marshal_event ev) < 8000"
  shows "\<exists>as n'. net_run as n = Some n' \<and> list_all (propagates s (ss_replica (n_sess n s))) as \<and>
     tbl (n_db n') = tbl (n_db n) \<and> n_owed n' = [] \<and>
     notifs (n_db n') = notifs (n_db n) @ map marshal_event (n_owed n) \<and>
     ss_phase (n_sess n' s) = Looping svc i \<and> drained s i n' \<and>
     cl_current (ss_client (n_sess n' s)) =
       cl_defaults (ss_client (n_sess n s)) ++ config_of (tbl (n_db n)) (s_id svc)"
proof -
  let ?p = "propagates s (ss_replica (n_sess n s))"
  from announce_all [OF assms(7), of s "ss_replica (n_sess n s)"] assms(8)
  obtain as n1 where 1: "net_run as n = Some n1" "announced_only n n1" "n_owed n1 = []" "list_all ?p as"
    "notifs (n_db n1) = notifs (n_db n) @ map marshal_event (n_owed n)" by (auto simp: list_all_iff)
  have r1: "net_reach n1" by (rule net_reach_run [OF assms(1) 1(1)])
  have same: "n_sess n1 = n_sess n" and loop: "ss_phase (n_sess n1 s) = Looping svc i"
    and "rp_listening (n_rep n1 (ss_replica (n_sess n1 s)))"
    using 1(2) assms(2,6) by (simp_all add: announced_only_def)
  from drain_run [OF loop this(3) r1] obtain bs n' where 2: "net_run bs n1 = Some n'" "kept s n1 n'" "drained s i n'"
    "list_all ?p bs" unfolding same by blast
  have "cl_overrides (ss_client (n_sess n' s)) = config_of (tbl (n_db n')) (s_id svc)"
    by (rule drained_config [OF net_reach_run [OF r1 2(1)]])
      (use 1 2 loop assms in \<open>simp_all add: kept_def announced_only_def\<close>)
  moreover have "client_inv (ss_client (n_sess n' s))" by (rule client_reach [OF net_reach_run [OF r1 2(1)]])
  moreover have "tbl (n_db n') = tbl (n_db n)" "n_owed n' = []" "ss_phase (n_sess n' s) = Looping svc i"
    "notifs (n_db n') = notifs (n_db n) @ map marshal_event (n_owed n)"
    using 1 2 loop by (simp_all add: kept_def announced_only_def)
  moreover have "cl_defaults (ss_client (n_sess n' s)) = cl_defaults (ss_client (n_sess n s))"
    using client_run [OF run_compose [OF 1(1) 2(1)]] .
  moreover have "list_all ?p (as @ bs)" using 1(4) 2(4) by simp
  ultimately show ?thesis using run_compose [OF 1(1) 2(1)] 2(3)
    by (intro exI [of _ "as @ bs"] exI [of _ n']) (simp add: client_inv_def)
qed

definition demo_write :: "action list" where
  "demo_write = [Write 1 (Put ''k'' ''1'' ''ann'')]"

theorem clients_catch_up_witness:
  "\<exists>as n'. net_run as (demo_state demo_write) = Some n' \<and>
     cl_current (ss_client (n_sess n' 0)) ''k'' = config_of (tbl (n_db (demo_state demo_write))) 1 ''k'' \<and>
     cl_current (ss_client (n_sess n' 0)) ''k'' = Some ''1''"
proof -
  let ?n = "demo_state demo_write"
  have "case ss_phase (n_sess ?n 0) of Looping svc i \<Rightarrow> s_id svc = 1 | _ \<Rightarrow> False"
    and ok: "rq_snapshot (ss_rq (n_sess ?n 0))" "\<not> ss_lossy (n_sess ?n 0)" "1 \<notin> n_spoiled ?n"
      "rp_listening (n_rep ?n (ss_replica (n_sess ?n 0)))" "faults (n_db ?n) = []"
    and short: "list_all (\<lambda>ev. length (marshal_event ev) < 8000) (n_owed ?n)"
    and k: "config_of (tbl (n_db ?n)) 1 ''k'' = Some ''1''"
    by code_simp+
  then obtain svc i where loop: "ss_phase (n_sess ?n 0) = Looping svc i" "s_id svc = 1"
    by (auto split: phase.splits)
  from clients_catch_up [OF demo_reach loop(1) ok(1,2) _ ok(4,5)] ok(3) short loop(2) k show ?thesis
    by (fastforce simp: list_all_iff)
qed

section \<open>Subscriptions\<close>

text \<open>C22. No leak: in every reachable state the subscribers of a replica's broker are exactly the
  subscriptions that its live streams and pages hold, each held by one of them; so a stream or page
  that has ended, for whatever reason, has left nothing behind.\<close>

theorem no_leaked_subscription:
  assumes "net_reach n"
  shows "(find_sub i (rp_broker (n_rep n r)) \<noteq> None \<longleftrightarrow> (\<exists>x. holder (n_sess n) (n_page n) x = Some (r, i))) \<and>
     (\<exists>\<^sub>\<le>\<^sub>1 x. holder (n_sess n) (n_page n) x = Some (r, i))"
proof -
  have "registered (holder (n_sess n) (n_page n)) (\<lambda>r. rp_broker (n_rep n r))"
    using net_reach_inv [OF assms] by (simp add: net_inv_def)
  then have one: "\<And>x y p. holder (n_sess n) (n_page n) x = Some p \<Longrightarrow> holder (n_sess n) (n_page n) y = Some p \<Longrightarrow> x = y"
    and all: "find_sub i (rp_broker (n_rep n r)) = None \<longleftrightarrow> (\<forall>x. holder (n_sess n) (n_page n) x \<noteq> Some (r, i))"
    unfolding registered_def by blast+
  have "\<exists>\<^sub>\<le>\<^sub>1 x. holder (n_sess n) (n_page n) x = Some (r, i)" by (rule Uniq_I) (rule one)
  then show ?thesis using all by simp
qed

theorem no_leaked_subscription_witness:
  "find_sub 0 (rp_broker (n_rep (demo_state []) 0)) \<noteq> None \<and>
     holder (n_sess (demo_state [])) (n_page (demo_state [])) (Inl 0) = Some (0, 0)"
proof -
  have "holder (n_sess (demo_state [])) (n_page (demo_state [])) (Inl 0) = Some (0, 0)" by code_simp
  with no_leaked_subscription [OF demo_reach, of 0 "[]" 0] show ?thesis by blast
qed

lemma fold_dispatch_waiting:
  "broker_inv b \<Longrightarrow> topic b i = Some sid \<Longrightarrow> length (pending b i) \<le> chan_cap \<Longrightarrow>
     pending (fold dispatch evs b) i = take chan_cap (pending b i @ filter (\<lambda>ev. wants ev sid) evs) \<and>
     topic (fold dispatch evs b) i = Some sid"
proof (induction evs arbitrary: b)
  case (Cons ev evs)
  let ?b = "dispatch ev b"
  have "broker_inv ?b" "topic ?b i = Some sid" using br.send_inv [OF Cons.prems(1)] Cons.prems(2) by simp_all
  moreover have p: "pending ?b i = (if wants ev sid \<and> length (pending b i) < chan_cap then pending b i @ [ev]
      else pending b i)"
    by (rule br.send_waiting [OF Cons.prems(1,2)])
  moreover have "length (pending ?b i) \<le> chan_cap" using Cons.prems(3) p by simp
  ultimately show ?case using Cons.IH [of ?b] Cons.prems(3) by (auto simp: take_Cons')
qed simp

text \<open>C23. Buffers: a subscriber that takes nothing keeps the first 64 of the events it wants, in
  order; every later one is dropped, and its channel stays open.\<close>

theorem burst_keeps_first:
  assumes "broker_inv b" and "Subscribe sid b = (i, b')"
  shows "pending (fold dispatch evs b') i = take 64 (filter (\<lambda>ev. wants ev sid) evs) \<and>
     topic (fold dispatch evs b') i = Some sid"
  using br.sub_new [OF assms] fold_dispatch_waiting [of b' i sid evs] by (simp add: chan_cap_def)

theorem burst_keeps_first_witness:
  "length (pending (fold dispatch (replicate 65 zero_event) (snd (Subscribe 0 NewBroker))) 0) = 64"
  using burst_keeps_first [OF broker_inv_new, of 0 0 "snd (Subscribe 0 NewBroker)" "replicate 65 zero_event"]
  by (simp add: Subscribe_def NewBroker_def wants_def)

section \<open>What is not promised\<close>

text \<open>C24. Two writers of one key may publish in the other order than they committed. Then a client
  that missed nothing and has been sent everything holds the older value, while the database has
  the newer one: the versions in the events are not looked at.\<close>

theorem overtaken_announcement:
  assumes reach: "net_reach n" and loop: "ss_phase (n_sess n s) = Looping svc i" and snap: "rq_snapshot (ss_rq (n_sess n s))"
    and whole: "\<not> ss_lossy (n_sess n s)" and told: "s_id svc \<notin> n_spoiled n"
    and listen: "rp_listening (n_rep n (ss_replica (n_sess n s)))" and calm: "faults (n_db n) = []"
    and owed: "n_owed n = [e1, e2]" and sid: "ev_service_id e1 = s_id svc" "ev_service_id e2 = s_id svc"
    and upserts: "ev_change_type e1 = EvUpsert" "ev_change_type e2 = EvUpsert" and key: "ev_key e1 = k" "ev_key e2 = k"
    and short: "length (marshal_event e1) < 8000" "length (marshal_event e2) < 8000"
  shows "\<exists>as n'. net_run as n = Some n' \<and> n_owed n' = [] \<and> drained s i n' \<and> \<not> ss_lossy (n_sess n' s) \<and>
     ss_phase (n_sess n' s) = Looping svc i \<and> config_of (tbl (n_db n')) (s_id svc) k = Some (ev_value e2) \<and>
     cl_current (ss_client (n_sess n' s)) k = Some (ev_value e1)"
proof -
  let ?sid = "s_id svc" and ?ns = "notifs (n_db n) @ [marshal_event e2, marshal_event e1]"
  note inv = net_reach_inv [OF reach]
  have ok: "event_ok e1" "event_ok e2" and kind: "ev_kind e1 = KindVar" "ev_kind e2 = KindVar"
    using net_invD(2) [OF inv, of e1] net_invD(2) [OF inv, of e2] by (simp_all add: owed)
  let ?d = "(n_db n)\<lparr>notifs := ?ns\<rparr>"
  let ?n = "n\<lparr>n_db := ?d, n_owed := [], n_spoiled := insert ?sid (n_spoiled n)\<rparr>"
  have "Publish e2 (n_db n) = (Inr (), (n_db n)\<lparr>notifs := notifs (n_db n) @ [marshal_event e2]\<rparr>)"
    and "Publish e1 ((n_db n)\<lparr>notifs := notifs (n_db n) @ [marshal_event e2]\<rparr>) = (Inr (), ?d)"
    using calm short by (simp_all add: Publish_def pg_notify_def stmt_run)
  then have run: "net_run [Announce 1, Announce 0] n = Some ?n"
    using sid by (simp add: act_announce_def owed without_def)
  have r1: "net_reach ?n" by (rule net_reach_run [OF reach run])
  have loop1: "ss_phase (n_sess ?n s) = Looping svc i" "rp_listening (n_rep ?n (ss_replica (n_sess ?n s)))"
    using loop listen by simp_all
  from drain_run [OF loop1 r1] obtain as n' where 2: "net_run as ?n = Some n'" "kept s ?n n'" "drained s i n'" by blast
  have total: "net_run ([Announce 1, Announce 0] @ as) n = Some n'" by (rule run_compose [OF run 2(1)])
  have "session_good n (n_sess n s)" and k: "read_of s n \<le> length (notifs (n_db n))"
    using inv by (simp_all add: net_inv_def)
  then have conf: "play_all (coming (n_db n) (broker_of s n) (read_of s n) i ?sid @ [e1, e2])
      (fold apply_msg (ss_chan (n_sess n s)) (cl_overrides (ss_client (n_sess n s)))) = config_of (tbl (n_db n)) ?sid"
    using loop snap whole told owed sid kind by (simp add: session_ok_def follows_def)
  have "future s i ?sid n' = future s i ?sid ?n" using 2(2) loop by (simp add: kept_def)
  moreover have "coming ?d (broker_of s n) (read_of s n) i ?sid =
      coming (n_db n) (broker_of s n) (read_of s n) i ?sid @ [e2, e1]"
    using k kind sid by (simp add: coming_def unmarshal_marshal ok)
  ultimately have "future s i ?sid n' k = Some (ev_value e1)"
    using upserts key by (simp add: future_def play_apply)
  moreover have "future s i ?sid n' = cl_overrides (ss_client (n_sess n' s))"
    using 2(3) by (simp add: future_def coming_def drained_def)
  moreover have "client_inv (ss_client (n_sess n' s))" by (rule client_reach [OF net_reach_run [OF reach total]])
  ultimately have current: "cl_current (ss_client (n_sess n' s)) k = Some (ev_value e1)"
    by (simp add: client_inv_def map_add_def)
  have "config_of (tbl (n_db n)) ?sid k = Some (ev_value e2)"
    using fun_cong [OF conf, of k] upserts key by (simp add: play_apply)
  moreover have "tbl (n_db n') = tbl (n_db n)" "n_owed n' = []" "ss_lossy (n_sess n' s) = ss_lossy (n_sess n s)"
    "ss_phase (n_sess n' s) = Looping svc i"
    using 2(2) loop by (simp_all add: kept_def)
  ultimately show ?thesis using total 2(3) whole current
    by (intro exI [of _ "[Announce 1, Announce 0] @ as"] exI [of _ n'] conjI) simp_all
qed

definition demo_race :: "action list" where
  "demo_race = [Write 1 (Put ''k'' ''1'' ''ann''), Write 1 (Put ''k'' ''2'' ''bob'')]"

theorem overtaken_announcement_witness:
  "\<exists>as n'. net_run as (demo_state demo_race) = Some n' \<and> n_owed n' = [] \<and>
     config_of (tbl (n_db n')) 1 ''k'' = Some ''2'' \<and> cl_current (ss_client (n_sess n' 0)) ''k'' = Some ''1''"
proof -
  let ?n = "demo_state demo_race"
  have "case ss_phase (n_sess ?n 0) of Looping svc i \<Rightarrow> s_id svc = 1 | _ \<Rightarrow> False"
    and ok: "rq_snapshot (ss_rq (n_sess ?n 0))" "\<not> ss_lossy (n_sess ?n 0)" "1 \<notin> n_spoiled ?n"
      "rp_listening (n_rep ?n (ss_replica (n_sess ?n 0)))" "faults (n_db ?n) = []"
    and "map (\<lambda>ev. (ev_service_id ev, ev_change_type ev, ev_key ev, ev_value ev)) (n_owed ?n) =
      [(1, EvUpsert, ''k'', ''1''), (1, EvUpsert, ''k'', ''2'')]"
    and short: "list_all (\<lambda>ev. length (marshal_event ev) < 8000) (n_owed ?n)"
    by code_simp+
  then obtain svc i e1 e2 where loop: "ss_phase (n_sess ?n 0) = Looping svc i" "s_id svc = 1"
    and owed: "n_owed ?n = [e1, e2]" and ev: "ev_service_id e1 = 1" "ev_service_id e2 = 1" "ev_change_type e1 = EvUpsert"
      "ev_change_type e2 = EvUpsert" "ev_key e1 = ''k''" "ev_key e2 = ''k''" "ev_value e1 = ''1''" "ev_value e2 = ''2''"
    by (auto split: phase.splits simp: map_eq_Cons_conv)
  have "\<exists>as n'. net_run as ?n = Some n' \<and> n_owed n' = [] \<and> drained 0 i n' \<and> \<not> ss_lossy (n_sess n' 0) \<and>
     ss_phase (n_sess n' 0) = Looping svc i \<and> config_of (tbl (n_db n')) (s_id svc) ''k'' = Some (ev_value e2) \<and>
     cl_current (ss_client (n_sess n' 0)) ''k'' = Some (ev_value e1)"
    by (rule overtaken_announcement [OF demo_reach loop(1) ok(1,2) _ ok(4,5) owed])
      (use ok(3) loop(2) ev short owed in simp_all)
  then show ?thesis using loop(2) ev by auto
qed

end
