(* ===== verification/Counted_Loop.thy ===== *)
theory Counted_Loop
  imports Prelude "HOL-Library.While_Combinator"
begin

text \<open>
  Loops of the form \<open>for ctx.Err() == nil { ... }\<close>: they run until the context has ended, so they are
  \<open>while_option\<close>, which is None for a loop that goes on for ever. The locale is what the loops of the
  program share: each turn counts, and whether the loop goes on depends on the turn alone.
\<close>

locale counted_loop =
  fixes stopped :: "'s \<Rightarrow> bool"
    and turns :: "'s \<Rightarrow> nat"
    and body :: "'s \<Rightarrow> 's"
    and ends :: "nat \<Rightarrow> bool"
  assumes turn: "turns (body s) = Suc (turns s)"
    and stop: "stopped (body s) \<longleftrightarrow> ends (turns s)"
begin

lemma turns_iterate: "turns ((body ^^ k) s) = turns s + k"
  by (induction k) (simp_all add: turn)

lemma stopped_iterate: "stopped ((body ^^ Suc k) s) \<longleftrightarrow> ends (turns s + k)"
  by (simp add: stop turns_iterate)

text \<open>The loop ends exactly if one of its turns ends it.\<close>

lemma loop_ends_iff:
  assumes "\<not> stopped s"
  shows "(\<exists>t. while_option (\<lambda>s. \<not> stopped s) body s = Some t) \<longleftrightarrow> (\<exists>k. ends (turns s + k))"
proof -
  have "(\<exists>t. while_option (\<lambda>s. \<not> stopped s) body s = Some t) \<longleftrightarrow> (\<exists>k. stopped ((body ^^ k) s))"
    by (simp add: while_option_def)
  also have "\<dots> \<longleftrightarrow> (\<exists>k. stopped ((body ^^ Suc k) s))"
    using assms by (metis funpow_0 not0_implies_Suc)
  finally show ?thesis by (simp only: stopped_iterate)
qed

text \<open>It ends after the first such turn.\<close>

lemma loop_SomeE:
  assumes "while_option (\<lambda>s. \<not> stopped s) body s = Some t" and "\<not> stopped s"
  obtains k where "ends (turns s + k)" and "\<forall>i < k. \<not> ends (turns s + i)" and "t = (body ^^ Suc k) s"
proof -
  from assms(1) have ex: "\<exists>k. stopped ((body ^^ k) s)"
    and t: "t = (body ^^ (LEAST k. stopped ((body ^^ k) s))) s"
    by (auto simp: while_option_def split: if_splits)
  let ?m = "LEAST k. stopped ((body ^^ k) s)"
  have m: "stopped ((body ^^ ?m) s)" using ex by (rule LeastI_ex)
  have before: "i < ?m \<Longrightarrow> \<not> stopped ((body ^^ i) s)" for i by (rule not_less_Least)
  from m assms(2) obtain k where k: "?m = Suc k" by (cases ?m) simp_all
  show ?thesis
  proof (rule that)
    show "ends (turns s + k)" using m k by (simp only: stopped_iterate)
    show "\<forall>i < k. \<not> ends (turns s + i)" using before k by (metis Suc_less_eq stopped_iterate)
    show "t = (body ^^ Suc k) s" using t k by simp
  qed
qed

end

end
