(* ===== verification/Client_Run.thy ===== *)
theory Client_Run
  imports Grpc_Server Counted_Loop
begin

text \<open>
  \<open>Run\<close> and the connecting part of \<open>stream\<close> in \<open>examples/go-client/configclient/client.go\<close>: the client
  that the loop threads through all its connections. What the network and the context do in each turn
  is a function of the number of the turn.
\<close>

section \<open>Options and connections\<close>

record options =
  op_addr :: string
  op_key :: string
  op_defaults :: config

definition client_New :: "options \<Rightarrow> client" where
  "client_New o' = NewClient (op_defaults o')"

text \<open>The request of every connection: it always asks for a snapshot.\<close>

definition subscribe_request :: "options \<Rightarrow> request" where
  "subscribe_request o' = \<lparr>rq_key = op_key o', rq_snapshot = True\<rparr>"

definition client_Load :: "client \<Rightarrow> config" where
  "client_Load c = cl_current c"

text \<open>\<open>client_All\<close> copies the map key by key, in the order in which the loop visits them.\<close>

definition client_All :: "string list \<Rightarrow> config \<Rightarrow> config" where
  "client_All keys c = fold (\<lambda>k out. case c k of None \<Rightarrow> out | Some v \<Rightarrow> out(k \<mapsto> v)) keys Map.empty"

text \<open>
  A turn: the errors of \<open>NewClient\<close> and of \<open>Subscribe\<close>, the messages and the error with which \<open>Recv\<close>
  ends them, whether the context had ended by then, and whether it ended in the wait.
\<close>

record 'e conn_turn =
  ct_dial :: "'e option"
  ct_subscribe :: "'e option"
  ct_messages :: "config_event list"
  ct_end :: 'e
  ct_done :: bool
  ct_wait_done :: bool

definition client_stream :: "'e conn_turn \<Rightarrow> client \<Rightarrow> 'e option \<times> client \<times> hook list" where
  "client_stream t c = (case ct_dial t of
      Some e \<Rightarrow> (Some e, c, [])
    | None \<Rightarrow> (case ct_subscribe t of
        Some e \<Rightarrow> (Some e, c, [])
      | None \<Rightarrow> stream (map Inr (ct_messages t) @ [Inl (ct_end t)]) c))"

section \<open>The loop\<close>

record run_state =
  rn_done :: bool
  rn_turns :: nat
  rn_client :: client
  rn_hooks :: "hook list"
  rn_backoff :: nat
  rn_waits :: "nat list"

text \<open>The waits are those that begin; the context may end one early.\<close>

definition run_turn :: "(nat \<Rightarrow> 'e conn_turn) \<Rightarrow> run_state \<Rightarrow> run_state" where
  "run_turn env s =
     (let t = env (rn_turns s); (err, c, hs) = client_stream t (rn_client s);
          s' = s\<lparr>rn_turns := Suc (rn_turns s), rn_client := c, rn_hooks := rn_hooks s @ hs\<rparr>
      in if err \<noteq> None \<and> \<not> ct_done t
         then s'\<lparr>rn_waits := rn_waits s @ [rn_backoff s], rn_done := ct_wait_done t,
                rn_backoff := (if ct_wait_done t then rn_backoff s else min (2 * rn_backoff s) maxBackoff)\<rparr>
         else s'\<lparr>rn_backoff := 1, rn_done := ct_done t\<rparr>)"

definition run_start :: "client \<Rightarrow> run_state" where
  "run_start c = \<lparr>rn_done = False, rn_turns = 0, rn_client = c, rn_hooks = [], rn_backoff = 1, rn_waits = []\<rparr>"

definition client_Run :: "(nat \<Rightarrow> 'e conn_turn) \<Rightarrow> client \<Rightarrow> run_state option" where
  "client_Run env c = while_option (\<lambda>s. \<not> rn_done s) (run_turn env) (run_start c)"

section \<open>Facts\<close>

lemma client_All_copy:
  assumes "dom c \<subseteq> set keys"
  shows "client_All keys c = c"
proof -
  have "fold (\<lambda>k out. case c k of None \<Rightarrow> out | Some v \<Rightarrow> out(k \<mapsto> v)) ks out k
      = (if k \<in> set ks \<and> c k \<noteq> None then c k else out k)" for ks out k
    by (induction ks arbitrary: out) (auto split: option.splits)
  moreover have "x \<notin> set keys \<Longrightarrow> c x = None" for x using assms by blast
  ultimately show ?thesis by (auto simp: client_All_def fun_eq_iff)
qed

lemma stream_all: "stream (map Inr evs @ [Inl x]) c = (e, c', h) \<Longrightarrow> e = Some x \<and> c' = receive_all evs c"
  by (rule stream_events [of _ _ "[]"])

definition received :: "'e conn_turn \<Rightarrow> config_event list" where
  "received t = (if ct_dial t = None \<and> ct_subscribe t = None then ct_messages t else [])"

lemma client_stream_result:
  assumes "client_stream t c = (err, c', hs)"
  shows "err \<noteq> None" and "c' = receive_all (received t) c"
proof -
  have "err \<noteq> None \<and> c' = receive_all (received t) c"
  proof (cases "ct_dial t = None \<and> ct_subscribe t = None")
    case True
    with assms have "stream (map Inr (ct_messages t) @ [Inl (ct_end t)]) c = (err, c', hs)"
      by (simp add: client_stream_def)
    from stream_all [OF this] True show ?thesis by (simp add: received_def)
  next
    case False
    then obtain e where "client_stream t c = (Some e, c, [])"
      by (cases "ct_dial t"; cases "ct_subscribe t") (simp_all add: client_stream_def)
    with assms have "err = Some e" "c' = c" by simp_all
    with False show ?thesis by (auto simp: received_def receive_all_def)
  qed
  then show "err \<noteq> None" and "c' = receive_all (received t) c" by simp_all
qed

definition turn_ends :: "'e conn_turn \<Rightarrow> bool" where
  "turn_ends t \<longleftrightarrow> ct_done t \<or> ct_wait_done t"

lemma run_turn_sel:
  "rn_turns (run_turn env s) = Suc (rn_turns s)"
  "rn_client (run_turn env s) = receive_all (received (env (rn_turns s))) (rn_client s)"
  "rn_done (run_turn env s) \<longleftrightarrow> turn_ends (env (rn_turns s))"
  "rn_waits (run_turn env s) =
     (if ct_done (env (rn_turns s)) then rn_waits s else rn_waits s @ [rn_backoff s])"
  "\<not> turn_ends (env (rn_turns s)) \<Longrightarrow> rn_backoff (run_turn env s) = min (2 * rn_backoff s) maxBackoff"
proof -
  obtain err c hs where st: "client_stream (env (rn_turns s)) (rn_client s) = (err, c, hs)"
    by (rule prod_cases3)
  note * = client_stream_result [OF st]
  show "rn_turns (run_turn env s) = Suc (rn_turns s)"
    "rn_client (run_turn env s) = receive_all (received (env (rn_turns s))) (rn_client s)"
    "rn_done (run_turn env s) \<longleftrightarrow> turn_ends (env (rn_turns s))"
    "rn_waits (run_turn env s) =
       (if ct_done (env (rn_turns s)) then rn_waits s else rn_waits s @ [rn_backoff s])"
    "\<not> turn_ends (env (rn_turns s)) \<Longrightarrow> rn_backoff (run_turn env s) = min (2 * rn_backoff s) maxBackoff"
    using * st by (auto simp: run_turn_def turn_ends_def Let_def)
qed

interpretation rl: counted_loop rn_done rn_turns "run_turn env" "\<lambda>n. turn_ends (env n)" for env
  by unfold_locales (simp_all add: run_turn_sel)

definition all_received :: "(nat \<Rightarrow> 'e conn_turn) \<Rightarrow> nat \<Rightarrow> config_event list" where
  "all_received env n = concat (map (\<lambda>i. received (env i)) [0..<n])"

lemma receive_all_append: "receive_all (xs @ ys) c = receive_all ys (receive_all xs c)"
  by (simp add: receive_all_def)

lemma run_iterate:
  "rn_turns ((run_turn env ^^ n) (run_start c)) = n"
  "rn_client ((run_turn env ^^ n) (run_start c)) = receive_all (all_received env n) c"
proof (induction n)
  case (Suc n)
  {
    case 1
    show ?case by (simp add: run_turn_sel Suc)
  next
    case 2
    show ?case by (simp add: run_turn_sel Suc all_received_def receive_all_append)
  }
qed (simp_all add: run_start_def all_received_def receive_all_def)

text \<open>The waits double up to half a minute, and no connection, however long it lived, resets them.\<close>

lemma run_backoff:
  "\<forall>i < n. \<not> turn_ends (env i) \<Longrightarrow>
     rn_backoff ((run_turn env ^^ n) (run_start c)) = min (2 ^ n) maxBackoff \<and>
     rn_waits ((run_turn env ^^ n) (run_start c)) = map (\<lambda>i. min (2 ^ i) maxBackoff) [0..<n]"
proof (induction n)
  case 0
  then show ?case by (simp add: run_start_def maxBackoff_def)
next
  case (Suc n)
  then have n: "\<not> turn_ends (env n)" and ih: "rn_backoff ((run_turn env ^^ n) (run_start c)) = min (2 ^ n) maxBackoff"
    "rn_waits ((run_turn env ^^ n) (run_start c)) = map (\<lambda>i. min (2 ^ i) maxBackoff) [0..<n]"
    by simp_all
  have "min (2 * min (2 ^ n) maxBackoff) maxBackoff = min (2 ^ Suc n) maxBackoff"
    by (simp add: min_def)
  with n ih show ?case by (simp add: run_turn_sel run_iterate turn_ends_def)
qed

lemma client_Run_SomeE:
  assumes "client_Run env c = Some s"
  obtains n where "turn_ends (env n)" and "\<forall>i < n. \<not> turn_ends (env i)" and "s = (run_turn env ^^ Suc n) (run_start c)"
proof -
  from assms have "while_option (\<lambda>s. \<not> rn_done s) (run_turn env) (run_start c) = Some s"
    by (simp add: client_Run_def)
  then show ?thesis
    by (rule rl.loop_SomeE) (use that in \<open>simp_all add: run_start_def\<close>)
qed

section \<open>Properties\<close>

text \<open>C25. The client's loop ends: it returns exactly if its context ends, whatever the server and the network do,
  and then in the turn in which the context ends; until then it connects again after every error, with waits
  of 1, 2, 4, 8, 16 and then always 30 seconds, however long the streams between them lived.\<close>

theorem client_Run_ends:
  "((\<exists>s. client_Run env c = Some s) \<longleftrightarrow> (\<exists>n. ct_done (env n) \<or> ct_wait_done (env n))) \<and>
   (\<forall>s. client_Run env c = Some s \<longrightarrow>
      (\<exists>n. rn_turns s = Suc n \<and> (ct_done (env n) \<or> ct_wait_done (env n)) \<and>
         (\<forall>i < n. \<not> ct_done (env i) \<and> \<not> ct_wait_done (env i)) \<and>
         rn_waits s = map (\<lambda>i. min (2 ^ i) maxBackoff) [0..<if ct_done (env n) then n else Suc n]))"
proof (intro conjI allI impI)
  have start: "\<not> rn_done (run_start c)" "rn_turns (run_start c) = 0" by (simp_all add: run_start_def)
  show "(\<exists>s. client_Run env c = Some s) \<longleftrightarrow> (\<exists>n. ct_done (env n) \<or> ct_wait_done (env n))"
    using rl.loop_ends_iff [OF start(1), of env] unfolding start(2)
    by (simp add: client_Run_def turn_ends_def)
next
  fix s assume "client_Run env c = Some s"
  then obtain n where n: "turn_ends (env n)" "\<forall>i < n. \<not> turn_ends (env i)"
    and s: "s = (run_turn env ^^ Suc n) (run_start c)" by (rule client_Run_SomeE)
  have "rn_turns s = Suc n" unfolding s by (rule run_iterate)
  moreover have "rn_waits s = map (\<lambda>i. min (2 ^ i) maxBackoff) [0..<if ct_done (env n) then n else Suc n]"
    using run_backoff [OF n(2), of c] by (simp add: s run_turn_sel run_iterate)
  ultimately show "\<exists>n. rn_turns s = Suc n \<and> (ct_done (env n) \<or> ct_wait_done (env n)) \<and>
         (\<forall>i < n. \<not> ct_done (env i) \<and> \<not> ct_wait_done (env i)) \<and>
         rn_waits s = map (\<lambda>i. min (2 ^ i) maxBackoff) [0..<if ct_done (env n) then n else Suc n]"
    using n by (intro exI [of _ n]) (simp add: turn_ends_def)
qed

text \<open>What the last connection that brought a snapshot said is all that counts.\<close>

lemma receive_from_snapshot:
  assumes "client_inv c"
  shows "cl_current (receive_all (pre @ Snapshot vs # evs) c) =
     cl_defaults c ++ fold apply_msg evs (put_variables vs)"
  using receive_all_inv [OF assms, of "pre @ Snapshot vs # evs"]
  by (simp add: client_inv_def receive_all_overrides)

text \<open>C26. Connecting again brings the client up to date: after any number of turns, whatever was lost in earlier
  ones, a connection whose first message is the snapshot of the server determines the configuration that is loaded:
  the defaults, overlaid with that snapshot and the changes that followed it; the connections before it leave no
  trace, and a connection that fails before its first message changes nothing.\<close>

theorem reconnect_resyncs:
  assumes "received (env n) = Snapshot vs # evs" and "\<forall>i \<in> {Suc n..<m}. received (env i) = []" and "n < m"
  shows "client_Load (rn_client ((run_turn env ^^ m) (run_start (client_New o'))))
     = op_defaults o' ++ fold apply_msg evs (put_variables vs)"
proof -
  have "[0..<m] = [0..<n] @ n # [Suc n..<m]"
    using assms(3) by (metis less_imp_le_nat upt_add_eq_append upt_conv_Cons le_add_diff_inverse zero_le)
  moreover have "concat (map (\<lambda>i. received (env i)) [Suc n..<m]) = []" using assms(2) by simp
  ultimately have "all_received env m = all_received env n @ Snapshot vs # evs"
    by (simp add: all_received_def assms(1))
  then show ?thesis
    by (simp add: client_Load_def run_iterate client_New_def receive_from_snapshot client_inv_new)
      (simp add: NewClient_def)
qed

text \<open>A first connection that is refused, a second one that brings a snapshot and a change and breaks, and the
  end of the process in the wait after it.\<close>

definition demo_options :: options where
  "demo_options = \<lparr>op_addr = ''localhost:9090'', op_key = ''svc'', op_defaults = [''A'' \<mapsto> ''env'', ''B'' \<mapsto> ''env'']\<rparr>"

definition demo_turns :: "nat \<Rightarrow> string conn_turn" where
  "demo_turns n = \<lparr>ct_dial = None, ct_subscribe = (if n = 0 then Some ''unavailable'' else None),
     ct_messages = [Snapshot [\<lparr>pb_key = ''A'', pb_value = ''1'', pb_version = 4\<rparr>],
       Change DELETE \<lparr>pb_key = ''A'', pb_value = [], pb_version = 5\<rparr>],
     ct_end = ''broken'', ct_done = False, ct_wait_done = (n = 1)\<rparr>"

lemma client_Run_ends_witness:
  "\<exists>s. client_Run demo_turns (client_New demo_options) = Some s \<and> rn_waits s = [1, 2]"
proof -
  note ends = client_Run_ends [of demo_turns "client_New demo_options"]
  have "\<exists>n. ct_done (demo_turns n) \<or> ct_wait_done (demo_turns n)" by (simp add: demo_turns_def)
  with ends obtain s where s: "client_Run demo_turns (client_New demo_options) = Some s" by blast
  with ends obtain n where n: "ct_done (demo_turns n) \<or> ct_wait_done (demo_turns n)"
    and w: "rn_waits s = map (\<lambda>i. min (2 ^ i) maxBackoff) [0..<if ct_done (demo_turns n) then n else Suc n]"
    by blast
  from n have "n = 1" by (simp add: demo_turns_def)
  with w have "rn_waits s = [1, 2]" by (simp add: demo_turns_def maxBackoff_def)
  with s show ?thesis by blast
qed

lemma reconnect_resyncs_witness:
  "client_Load (rn_client ((run_turn demo_turns ^^ 2) (run_start (client_New demo_options)))) ''A'' = Some ''env''"
  using reconnect_resyncs [of demo_turns 1 _ _ 2 demo_options, OF _ _ one_less_numeral_iff [THEN iffD2]]
  by (simp add: received_def demo_turns_def put_variables_def demo_options_def)

end
