(* ===== verification/Server_Main.thy ===== *)
theory Server_Main
  imports Server_Config Store_Properties Web
begin

text \<open>
  \<open>cmd/server/main.go\<close> and \<open>internal/migrate/migrate.go\<close>: the start of the server, the loop that
  prunes the audit log, and the shutdown. What the operating system, golang-migrate, the OIDC provider
  and the listeners do is in the record \<open>host\<close>.
\<close>

section \<open>Migrations\<close>

definition toPgxURL :: "string \<Rightarrow> string" where
  "toPgxURL url = (case find (\<lambda>p. has_prefix p url) [''postgres://'', ''postgresql://''] of
      Some p \<Rightarrow> ''pgx5://'' @ drop (length p) url
    | None \<Rightarrow> url)"

datatype migrate_result = Applied | NoChange | MigrateError string

record migrator =
  mg_source :: "string option"
  mg_open :: "string \<Rightarrow> string option"
  mg_up :: "string \<Rightarrow> migrate_result"

text \<open>The error of \<open>Up\<close>, if any.\<close>

definition migrate_Up :: "migrator \<Rightarrow> string \<Rightarrow> string option" where
  "migrate_Up m databaseURL = (case mg_source m of
      Some e \<Rightarrow> Some (''load migration source: '' @ e)
    | None \<Rightarrow> (let url = toPgxURL databaseURL in
        case mg_open m url of
          Some e \<Rightarrow> Some (''init migrator: '' @ e)
        | None \<Rightarrow> (case mg_up m url of
            MigrateError e \<Rightarrow> Some (''apply migrations: '' @ e)
          | _ \<Rightarrow> None)))"

section \<open>Pieces of the process\<close>

definition makeReplicaID :: "string \<Rightarrow> string \<Rightarrow> string" where
  "makeReplicaID host bytes = host @ ''-'' @ hex_encode bytes"

text \<open>
  The pruner prunes at the start and at every tick; the list says what else happens to the database
  before each tick. Errors are logged only.
\<close>

definition prune :: "int \<Rightarrow> db \<Rightarrow> db" where
  "prune keep d = snd (PruneAudit keep d)"

fun prune_ticks :: "int \<Rightarrow> (db \<Rightarrow> db) list \<Rightarrow> db \<Rightarrow> db" where
  "prune_ticks keep [] d = d"
| "prune_ticks keep (f # fs) d = prune_ticks keep fs (prune keep (f d))"

definition runAuditPruner :: "int \<Rightarrow> (db \<Rightarrow> db) list \<Rightarrow> db \<Rightarrow> db" where
  "runAuditPruner keep fs d = (if keep \<le> 0 then fold (\<lambda>f d. f d) fs d else prune_ticks keep fs (prune keep d))"

section \<open>Start and shutdown\<close>

datatype stop_reason = StopSignal | GrpcEnded "string option" | HttpClosed | HttpEnded "string option"

record host =
  h_environ :: "string list"
  h_order :: "string list"
  h_lower :: "string \<Rightarrow> string"
  h_args :: "string list"
  h_migrator :: migrator
  h_store :: "string \<Rightarrow> string option"
  h_settings :: "string + telegram_settings"
  h_hostname :: string
  h_rand :: string
  h_auth :: "server_config \<Rightarrow> string option"
  h_listen :: "string \<Rightarrow> string option"
  h_static :: "string option"
  h_stop :: stop_reason
  h_drains :: bool

text \<open>The steps of the process that others can see, in their order.\<close>

datatype boot_step =
    Migrated string
  | StoreOpen string
  | BrokerUp
  | BotConfigured telegram_settings
  | TrackerUp string
  | PrunerUp int
  | AuthReady
  | GrpcServing string
  | HttpServing string
  | SignalsOff
  | GrpcDrained
  | GrpcForced
  | HttpDown bool
  | StoreClosed

text \<open>
  Both servers share one deadline of twenty seconds: when the streams do not end by themselves it has
  passed when the HTTP server is shut down, which then has no time left for its own requests.
\<close>

definition shutdown_steps :: "host \<Rightarrow> boot_step list" where
  "shutdown_steps h = [SignalsOff, if h_drains h then GrpcDrained else GrpcForced, HttpDown (h_drains h)]"

text \<open>From the open store on; closing it is deferred, so every return does it.\<close>

definition serve :: "host \<Rightarrow> server_config \<Rightarrow> string option \<times> boot_step list" where
  "serve h cfg =
     (let bot = (case h_settings h of Inl _ \<Rightarrow> [] | Inr ts \<Rightarrow> [BotConfigured ts]);
          up = [BrokerUp] @ bot @ [TrackerUp (makeReplicaID (h_hostname h) (h_rand h)), PrunerUp (AuditMaxEntries cfg)]
      in case h_auth h cfg of
        Some e \<Rightarrow> (Some e, up @ [StoreClosed])
      | None \<Rightarrow> (case h_listen h (GRPCAddr cfg) of
          Some e \<Rightarrow> (Some (''grpc listen: '' @ e), up @ [AuthReady, StoreClosed])
        | None \<Rightarrow> (let up = up @ [AuthReady, GrpcServing (GRPCAddr cfg)] in
            case h_static h of
              Some e \<Rightarrow> (Some (''embed frontend: '' @ e), up @ [StoreClosed])
            | None \<Rightarrow> (let up = up @ [HttpServing (HTTPAddr cfg)] in
                case h_stop h of
                  GrpcEnded (Some e) \<Rightarrow> (Some (''grpc serve: '' @ e), up @ [StoreClosed])
                | HttpEnded (Some e) \<Rightarrow> (Some (''http serve: '' @ e), up @ [StoreClosed])
                | _ \<Rightarrow> (None, up @ shutdown_steps h @ [StoreClosed])))))"

definition run :: "host \<Rightarrow> string option \<times> boot_step list" where
  "run h = (case Load (h_lower h) (h_order h) (h_environ h) of
      Inl e \<Rightarrow> (Some e, [])
    | Inr cfg \<Rightarrow>
        if length (h_args h) > 1 \<and> h_args h ! 1 = ''migrate''
        then (case migrate_Up (h_migrator h) (DatabaseURL cfg) of
            Some e \<Rightarrow> (Some e, []) | None \<Rightarrow> (None, [Migrated (DatabaseURL cfg)]))
        else (case migrate_Up (h_migrator h) (DatabaseURL cfg) of
            Some e \<Rightarrow> (Some (''migrate: '' @ e), [])
          | None \<Rightarrow> (case h_store h (DatabaseURL cfg) of
              Some e \<Rightarrow> (Some e, [Migrated (DatabaseURL cfg)])
            | None \<Rightarrow> (case serve h cfg of (e, steps) \<Rightarrow>
                (e, [Migrated (DatabaseURL cfg), StoreOpen (DatabaseURL cfg)] @ steps)))))"

definition main_exit :: "host \<Rightarrow> nat" where
  "main_exit h = (if fst (run h) = None then 0 else 1)"

section \<open>Properties\<close>

lemma toPgxURL_prefix: "toPgxURL (''postgres://'' @ u) = ''pgx5://'' @ u" "toPgxURL (''postgresql://'' @ u) = ''pgx5://'' @ u"
  by (simp_all add: toPgxURL_def)

lemma run_cases:
  assumes "run h = (e, steps)"
  obtains (none) "steps = []" and "e \<noteq> None"
    | (migrate) url where "steps = [Migrated url]" and "e = None" and "h_args h ! 1 = ''migrate''"
    | (store) url where "steps = [Migrated url]" and "e \<noteq> None"
    | (serve) url cfg tail where "steps = [Migrated url, StoreOpen url] @ tail" and "serve h cfg = (e, tail)"
proof (cases "Load (h_lower h) (h_order h) (h_environ h)")
  case (Inl x)
  with assms none show ?thesis by (auto simp: run_def)
next
  case (Inr cfg)
  let ?url = "DatabaseURL cfg" and ?only = "length (h_args h) > 1 \<and> h_args h ! 1 = ''migrate''"
  show ?thesis
  proof (cases "migrate_Up (h_migrator h) ?url")
    case (Some x)
    then have "snd (run h) = []" "fst (run h) \<noteq> None" by (simp_all add: run_def Inr)
    with assms none show ?thesis by simp
  next
    case None
    show ?thesis
    proof (cases ?only)
      case True
      with assms Inr None migrate show ?thesis by (auto simp: run_def)
    next
      case False
      show ?thesis
      proof (cases "h_store h ?url")
        case (Some x)
        then have "run h = (Some x, [Migrated ?url])"
          unfolding run_def Inr using None False by (simp del: One_nat_def)
        with assms store show ?thesis by auto
      next
        case no: None
        obtain e' tail where tail: "serve h cfg = (e', tail)" by fastforce
        then have "run h = (e', [Migrated ?url, StoreOpen ?url] @ tail)"
          unfolding run_def Inr using None no False by (simp del: One_nat_def)
        with assms serve tail show ?thesis by auto
      qed
    qed
  qed
qed

text \<open>What came before a step.\<close>

definition before :: "boot_step \<Rightarrow> boot_step list \<Rightarrow> boot_step set" where
  "before x steps = set (takeWhile (\<lambda>y. y \<noteq> x) steps)"

text \<open>C37. The order of the start and of the end. In every run, whatever fails: nothing is opened or served
  before the migrations were applied and with a configuration that is refused nothing happens at all;
  no request is served before the login was set up; an opened store is closed, as the last step; a
  process that ends without an error was only asked to migrate, or it has stopped both servers, the
  streams first, and the HTTP server had time for its requests only if the streams ended by themselves.\<close>

theorem startup_order:
  assumes "run h = (e, steps)"
  shows "(\<forall>x \<in> set steps. x = hd steps \<or> (\<exists>url. Migrated url \<in> before x steps)) \<and>
     (\<forall>x \<in> set steps. (\<exists>a. x = GrpcServing a \<or> x = HttpServing a) \<longrightarrow> AuthReady \<in> before x steps) \<and>
     ((\<exists>url. StoreOpen url \<in> set steps) \<longrightarrow> last steps = StoreClosed) \<and>
     (e = None \<longrightarrow> (\<exists>url. steps = [Migrated url] \<and> h_args h ! 1 = ''migrate'') \<or>
        HttpDown True \<in> set steps \<and> GrpcDrained \<in> before (HttpDown True) steps \<or>
        HttpDown False \<in> set steps \<and> GrpcForced \<in> before (HttpDown False) steps)"
proof -
  from assms show ?thesis
  proof (cases rule: run_cases)
    case serve
    from serve(2) show ?thesis unfolding serve(1)
      by (cases "h_drains h"; auto simp: serve_def shutdown_steps_def before_def Let_def
          split: sum.splits option.splits stop_reason.splits)
  qed (auto simp: before_def)
qed

definition demo_host :: host where
  "demo_host = \<lparr>h_environ = [''DATABASE_URL=postgres://db'', ''SESSION_SECRET=s'', ''DEV_AUTH_EMAIL=dev@x''],
     h_order = oidc_keys, h_lower = (\<lambda>s. s), h_args = [''server''],
     h_migrator = \<lparr>mg_source = None, mg_open = (\<lambda>u. if has_prefix ''pgx5://'' u then None else Some ''unknown driver''),
       mg_up = (\<lambda>_. NoChange)\<rparr>,
     h_store = (\<lambda>_. None), h_settings = Inl ''no rows'', h_hostname = ''pod'', h_rand = ''abcd'', h_auth = (\<lambda>_. None),
     h_listen = (\<lambda>_. None), h_static = None, h_stop = StopSignal, h_drains = True\<rparr>"

theorem startup_order_witness:
  "fst (run demo_host) = None \<and> last (snd (run demo_host)) = StoreClosed \<and>
     AuthReady \<in> before (HttpServing '':8080'') (snd (run demo_host)) \<and> GrpcDrained \<in> before (HttpDown True) (snd (run demo_host))"
proof -
  have ok: "fst (run demo_host) = None" by code_simp
  have opened: "StoreOpen ''postgres://db'' \<in> set (snd (run demo_host))"
    and http: "HttpServing '':8080'' \<in> set (snd (run demo_host))"
    and two: "length (snd (run demo_host)) \<noteq> 1" and soft: "GrpcForced \<notin> set (snd (run demo_host))" by code_simp+
  from startup_order [OF prod.collapse [symmetric], of demo_host] ok opened http two soft
  show ?thesis by (auto simp: before_def dest: set_takeWhileD)
qed

lemma prune_calm:
  assumes "reachable d" and "faults d = []" and "0 < keep"
  shows "reachable (prune keep d) \<and> faults (prune keep d) = [] \<and> length (audit_tbl (tbl (prune keep d))) \<le> nat keep"
proof -
  have run: "PruneAudit keep d = (fst (PruneAudit keep d), prune keep d)" by (simp add: prune_def)
  have "run_ops [OpPruneAudit keep] d = prune keep d"
    by (auto simp: run_ops_def prune_def ignore_result_def bind_def ret_def split: prod.split sum.split)
  then have "reachable (prune keep d)" using reachable_run_ops [OF assms(1), of "[OpPruneAudit keep]"] by simp
  moreover have "faults (prune keep d) = []"
    using assms(2,3) by (simp add: prune_def PruneAudit_def stmt_run)
  moreover have "sorted_wrt (<) (map a_id (audit_tbl (tbl d)))"
    using reachable_inv [OF assms(1)] by (simp add: store_inv_def audit_inv_def)
  then have "length (audit_tbl (tbl (prune keep d))) \<le> nat keep"
    using length_pruned assms(2,3) by (simp add: prune_def PruneAudit_def stmt_run)
  ultimately show ?thesis by blast
qed

text \<open>C38. The audit log stays bounded. With a positive cap and a database that answers, right after the
  start and after every tick the log has at most that many rows, however many were written since the
  last tick.\<close>

theorem audit_log_bounded:
  assumes "0 < keep" and "reachable d" and "faults d = []"
    and "\<forall>f \<in> set fs. \<forall>d. reachable d \<longrightarrow> reachable (f d) \<and> faults (f d) = []"
  shows "length (audit_tbl (tbl (runAuditPruner keep fs d))) \<le> nat keep"
proof -
  have "length (audit_tbl (tbl (prune_ticks keep fs d))) \<le> nat keep"
    if "reachable d" "length (audit_tbl (tbl d)) \<le> nat keep" for d
    using that assms(4) prune_calm [OF _ _ assms(1)] by (induction fs arbitrary: d) auto
  with prune_calm [OF assms(2,3,1)] assms(1) show ?thesis by (simp add: runAuditPruner_def)
qed

definition busy_hour :: "db \<Rightarrow> db" where
  "busy_hour d = run_ops [OpInsertAudit ''ann'' ''x'' ''t'' [], OpInsertAudit ''ann'' ''y'' ''t'' []] (d\<lparr>faults := []\<rparr>)"

theorem audit_log_bounded_witness:
  "length (audit_tbl (tbl (runAuditPruner 1 [busy_hour] demo_db))) \<le> 1 \<and>
     length (audit_tbl (tbl (busy_hour demo_db))) = 2"
proof -
  have "reachable (d\<lparr>faults := []\<rparr>)" if "reachable d" for d
    using reachable.step [OF that db_step.schedule [of d "[]"]] by simp
  then have "reachable (busy_hour d)" if "reachable d" for d
    unfolding busy_hour_def using that by (intro reachable_run_ops)
  moreover have "faults (busy_hour d) = []" for d
    by (simp add: busy_hour_def run_ops_def InsertAudit_def stmt_run)
  moreover have "faults demo_db = []" "length (audit_tbl (tbl (busy_hour demo_db))) = 2" by code_simp+
  ultimately show ?thesis using audit_log_bounded [OF _ reachable_demo, of 1 "[busy_hour]"] by simp
qed

end
