(* ===== verification/Startup.thy ===== *)
theory Startup
  imports Server_Main Broker Counted_Loop
begin

text \<open>
  The loops that wait for the database: \<open>New\<close> of \<open>internal/store/store.go\<close>, which tries to reach it
  at the start, and \<open>Run\<close> of \<open>internal/events/broker.go\<close>, which keeps a connection for LISTEN. What the
  pool, the connection and the context do at each attempt is a function of the number of the attempt.
\<close>

section \<open>Opening the store\<close>

text \<open>
  An attempt: the error of \<open>NewWithConfig\<close>, that of \<open>Ping\<close>, and the error of the context if it ends
  the wait of a second.
\<close>

record attempt =
  at_open :: "string option"
  at_ping :: "string option"
  at_cancel :: "string option"

text \<open>What is seen of \<open>New\<close>: the pools that it opens and closes, by attempt, and the full seconds it waits.\<close>

datatype pool_step = PoolOpened nat | PoolClosed nat | Waited

definition try_open :: "attempt \<Rightarrow> nat \<Rightarrow> string option \<times> pool_step list" where
  "try_open at n = (case at_open at of
      Some e \<Rightarrow> (Some e, [])
    | None \<Rightarrow> (case at_ping at of
        None \<Rightarrow> (None, [PoolOpened n])
      | Some e \<Rightarrow> (Some e, [PoolOpened n, PoolClosed n])))"

definition max_attempts :: nat where "max_attempts = 30"

text \<open>The result is the error or the number of the attempt whose pool the store keeps.\<close>

function open_loop :: "(nat \<Rightarrow> attempt) \<Rightarrow> nat \<Rightarrow> string \<Rightarrow> (string + nat) \<times> pool_step list" where
  "open_loop env n lastErr =
     (if max_attempts \<le> n then (Inl (''connect to postgres after retries: '' @ lastErr), [])
      else (case try_open (env n) n of
          (None, ps) \<Rightarrow> (Inr n, ps)
        | (Some e, ps) \<Rightarrow> (case at_cancel (env n) of
            Some c \<Rightarrow> (Inl c, ps)
          | None \<Rightarrow> (case open_loop env (Suc n) e of (r, qs) \<Rightarrow> (r, ps @ Waited # qs)))))"
  by pat_completeness auto
termination
  by (relation "measure (\<lambda>(env, n, e). max_attempts - n)") auto

declare open_loop.simps [simp del]

definition store_New :: "(string \<Rightarrow> string option) \<Rightarrow> (nat \<Rightarrow> attempt) \<Rightarrow> string \<Rightarrow>
    (string + nat) \<times> pool_step list" where
  "store_New parse env databaseURL = (case parse databaseURL of
      Some e \<Rightarrow> (Inl (''parse database url: '' @ e), [])
    | None \<Rightarrow> open_loop env 0 [])"

text \<open>\<open>Close\<close> of a store, as a step of its own.\<close>

definition store_Close :: "nat \<Rightarrow> pool_step list" where
  "store_Close n = [PoolClosed n]"

text \<open>The pools that are open after some steps.\<close>

definition open_pools :: "pool_step list \<Rightarrow> nat set" where
  "open_pools steps = {n. PoolOpened n \<in> set steps \<and> PoolClosed n \<notin> set steps}"

definition attempt_ok :: "attempt \<Rightarrow> bool" where
  "attempt_ok at \<longleftrightarrow> at_open at = None \<and> at_ping at = None"

definition waits_of :: "pool_step list \<Rightarrow> nat" where
  "waits_of steps = length (filter (\<lambda>s. s = Waited) steps)"

lemma waits_of_simps [simp]:
  "waits_of [] = 0" "waits_of (xs @ ys) = waits_of xs + waits_of ys" "waits_of (Waited # xs) = Suc (waits_of xs)"
  by (simp_all add: waits_of_def)

lemma try_open_cases:
  obtains (ok) "attempt_ok at" and "try_open at n = (None, [PoolOpened n])"
    | (unopened) e where "\<not> attempt_ok at" and "try_open at n = (Some e, [])"
    | (unanswered) e where "\<not> attempt_ok at" and "try_open at n = (Some e, [PoolOpened n, PoolClosed n])"
  by (cases "at_open at"; cases "at_ping at") (auto simp: try_open_def attempt_ok_def)

text \<open>The attempts from the n-th on: up to one that succeeds or is cancelled, or up to the 30th.\<close>

definition failed_on :: "(nat \<Rightarrow> attempt) \<Rightarrow> nat \<Rightarrow> nat \<Rightarrow> bool" where
  "failed_on env n m \<longleftrightarrow> (\<forall>i \<in> {n..<m}. \<not> attempt_ok (env i) \<and> at_cancel (env i) = None)"

inductive attempts_end :: "(nat \<Rightarrow> attempt) \<Rightarrow> nat \<Rightarrow> string + nat \<Rightarrow> nat \<Rightarrow> bool" for env where
  opened: "failed_on env n m \<Longrightarrow> n \<le> m \<Longrightarrow> m < max_attempts \<Longrightarrow> attempt_ok (env m) \<Longrightarrow> attempts_end env n (Inr m) (m - n)"
| cancelled: "failed_on env n m \<Longrightarrow> n \<le> m \<Longrightarrow> m < max_attempts \<Longrightarrow> \<not> attempt_ok (env m) \<Longrightarrow>
    at_cancel (env m) = Some e \<Longrightarrow> attempts_end env n (Inl e) (m - n)"
| given_up: "failed_on env n max_attempts \<Longrightarrow> attempts_end env n (Inl e) (max_attempts - n)"

lemma failed_on_step: "n < m \<Longrightarrow> failed_on env n m \<longleftrightarrow>
    \<not> attempt_ok (env n) \<and> at_cancel (env n) = None \<and> failed_on env (Suc n) m"
proof -
  assume "n < m"
  then have "{n..<m} = insert n {Suc n..<m}" by auto
  then show ?thesis by (auto simp: failed_on_def)
qed

lemma failed_on_refl [simp]: "failed_on env n n"
  by (simp add: failed_on_def)

lemma attempts_end_step:
  assumes "attempts_end env (Suc n) r k" and "n < max_attempts" and "\<not> attempt_ok (env n)" and "at_cancel (env n) = None"
  shows "attempts_end env n r (Suc k)"
  using assms(1)
proof cases
  case (opened m)
  with assms have "attempts_end env n (Inr m) (m - n)" by (intro attempts_end.opened) (auto simp: failed_on_step)
  with opened show ?thesis by (simp add: Suc_diff_Suc)
next
  case (cancelled m e)
  with assms have "attempts_end env n (Inl e) (m - n)" by (intro attempts_end.cancelled) (auto simp: failed_on_step)
  with cancelled show ?thesis by (simp add: Suc_diff_Suc)
next
  case (given_up e)
  with assms have "attempts_end env n (Inl e) (max_attempts - n)" by (intro attempts_end.given_up) (simp add: failed_on_step)
  with given_up assms show ?thesis by (simp add: Suc_diff_Suc)
qed

lemma open_loop_attempts:
  "n \<le> max_attempts \<Longrightarrow> open_loop env n lastErr = (r, steps) \<Longrightarrow> attempts_end env n r (waits_of steps)"
proof (induction env n lastErr arbitrary: r steps rule: open_loop.induct)
  case (1 env n lastErr)
  show ?case
  proof (cases "max_attempts \<le> n")
    case True
    with 1 have "n = max_attempts" by simp
    with 1 show ?thesis using attempts_end.given_up [of env n] by (auto simp: open_loop.simps)
  next
    case False
    then have n: "n < max_attempts" by simp
    show ?thesis
    proof (cases "attempt_ok (env n)")
      case True
      then have "r = Inr n" "waits_of steps = n - n"
        using 1 n by (auto simp: open_loop.simps try_open_def attempt_ok_def waits_of_def)
      with True n show ?thesis using attempts_end.opened [of env n n] by simp
    next
      case failed: False
      then obtain e ps where t: "try_open (env n) n = (Some e, ps)" and w: "waits_of ps = 0"
        by (cases "env n" n rule: try_open_cases) (auto simp: waits_of_def)
      show ?thesis
      proof (cases "at_cancel (env n)")
        case (Some c)
        with t w n 1 have "r = Inl c" "waits_of steps = n - n" by (auto simp: open_loop.simps)
        with Some failed n show ?thesis using attempts_end.cancelled [of env n n] by simp
      next
        case None
        obtain qs where rest: "open_loop env (Suc n) e = (r, qs)" and steps: "steps = ps @ Waited # qs"
          using 1 t None n by (subst (asm) open_loop.simps) (auto split: prod.splits)
        from 1(1) [OF False t [symmetric] refl None _ rest] n
        have "attempts_end env (Suc n) r (waits_of qs)" by simp
        from attempts_end_step [OF this n failed None] w steps show ?thesis by simp
      qed
    qed
  qed
qed

text \<open>No pool is left open but the one that the store keeps.\<close>

lemma open_loop_pools:
  "open_loop env n lastErr = (r, steps) \<Longrightarrow> open_pools steps = (case r of Inl _ \<Rightarrow> {} | Inr m \<Rightarrow> {m}) \<and>
     (\<forall>k. PoolOpened k \<in> set steps \<or> PoolClosed k \<in> set steps \<longrightarrow> n \<le> k)"
proof (induction env n lastErr arbitrary: r steps rule: open_loop.induct)
  case (1 env n lastErr)
  show ?case
  proof (cases "max_attempts \<le> n")
    case True
    with 1 show ?thesis by (auto simp: open_loop.simps open_pools_def)
  next
    case False
    show ?thesis
    proof (cases "try_open (env n) n")
      case (Pair res ps)
      show ?thesis
      proof (cases res)
        case None
        with Pair 1(2) False show ?thesis
          by (subst (asm) open_loop.simps)
            (auto simp: open_pools_def try_open_def split: option.splits)
      next
        case (Some e)
        then have ps: "ps = [] \<or> ps = [PoolOpened n, PoolClosed n]"
          using Pair by (auto simp: try_open_def split: option.splits)
        show ?thesis
        proof (cases "at_cancel (env n)")
          case (Some c)
          with \<open>res = Some e\<close> Pair 1(2) False ps show ?thesis
            by (subst (asm) open_loop.simps) (auto simp: open_pools_def)
        next
          case None
          obtain qs where rest: "open_loop env (Suc n) e = (r, qs)" and steps: "steps = ps @ Waited # qs"
            using 1(2) Pair \<open>res = Some e\<close> None False by (subst (asm) open_loop.simps) (auto split: prod.splits)
          from 1(1) [OF False Pair [unfolded \<open>res = Some e\<close>, symmetric] refl None rest]
          have ih: "open_pools qs = (case r of Inl _ \<Rightarrow> {} | Inr m \<Rightarrow> {m})"
            "\<forall>k. PoolOpened k \<in> set qs \<or> PoolClosed k \<in> set qs \<longrightarrow> Suc n \<le> k" by blast+
          have "open_pools steps = open_pools qs"
            unfolding open_pools_def steps using ps ih(2) by auto
          with ih ps steps show ?thesis by (auto dest: Suc_leD)
        qed
      qed
    qed
  qed
qed

lemma attempts_end_store:
  assumes "attempts_end env 0 r k"
  shows "r = Inr n \<longleftrightarrow> n < max_attempts \<and> attempt_ok (env n) \<and> (\<forall>i < n. \<not> attempt_ok (env i) \<and> at_cancel (env i) = None)"
    (is "_ \<longleftrightarrow> ?first n")
  using assms
proof cases
  case (opened m)
  then have first: "?first m" by (simp add: failed_on_def)
  have "\<not> n < m" "\<not> m < n" if "?first n" using that first by auto
  then have "n = m" if "?first n" using that by (meson linorder_neqE_nat)
  with first opened(1) show ?thesis by (metis sum.inject(2))
next
  case (cancelled m e)
  then have m: "\<not> attempt_ok (env m)" "at_cancel (env m) \<noteq> None" "\<forall>i < m. \<not> attempt_ok (env i)"
    by (simp_all add: failed_on_def)
  have "\<not> ?first n"
  proof (cases n m rule: linorder_cases)
    case less
    with m(3) show ?thesis by simp
  next
    case equal
    with m(1) show ?thesis by simp
  next
    case greater
    then have "?first n \<Longrightarrow> at_cancel (env m) = None" by metis
    with m(2) show ?thesis by metis
  qed
  with cancelled(1) show ?thesis by simp
next
  case (given_up e)
  then have "n < max_attempts \<Longrightarrow> \<not> attempt_ok (env n)" by (simp add: failed_on_def)
  then have "\<not> ?first n" by blast
  with given_up(1) show ?thesis by simp
qed

text \<open>C36. Opening the store ends: it makes at most 30 attempts, a second apart, and waits at most 30
  seconds in full, whatever the database does. It gives a store exactly if the address parses and one of the
  attempts is answered before the context ends, and then that of the first answered attempt; and it leaves no pool
  open but that one, which closing the store closes.\<close>

theorem store_New_ends:
  assumes "store_New parse env url = (r, steps)"
  shows "waits_of steps \<le> max_attempts \<and>
     (\<forall>n. r = Inr n \<longleftrightarrow> parse url = None \<and> n < max_attempts \<and> attempt_ok (env n) \<and>
        (\<forall>i < n. \<not> attempt_ok (env i) \<and> at_cancel (env i) = None)) \<and>
     open_pools steps = (case r of Inl _ \<Rightarrow> {} | Inr n \<Rightarrow> {n}) \<and>
     (\<forall>n. r = Inr n \<longrightarrow> waits_of steps = n \<and> open_pools (steps @ store_Close n) = {})"
proof (cases "parse url")
  case (Some e)
  with assms show ?thesis by (auto simp: store_New_def open_pools_def)
next
  case None
  with assms have run: "open_loop env 0 [] = (r, steps)" by (simp add: store_New_def)
  from open_loop_pools [OF run] have pools: "open_pools steps = (case r of Inl _ \<Rightarrow> {} | Inr n \<Rightarrow> {n})" by blast
  then have closed: "r = Inr n \<Longrightarrow> open_pools (steps @ store_Close n) = {}" for n
    by (auto simp: open_pools_def store_Close_def)
  have ends: "attempts_end env 0 r (waits_of steps)" using open_loop_attempts [OF _ run] by simp
  have "waits_of steps \<le> max_attempts" "\<forall>n. r = Inr n \<longrightarrow> waits_of steps = n"
    using ends by (auto elim: attempts_end.cases)
  with attempts_end_store [OF ends] pools closed None show ?thesis by simp
qed

definition slow_start :: "nat \<Rightarrow> attempt" where
  "slow_start n = \<lparr>at_open = None, at_ping = (if n < 2 then Some ''refused'' else None), at_cancel = None\<rparr>"

lemma slow_start_run: "store_New (\<lambda>_. None) slow_start ''postgres://db''
    = (Inr 2, [PoolOpened 0, PoolClosed 0, Waited, PoolOpened 1, PoolClosed 1, Waited, PoolOpened 2])"
  by (simp add: store_New_def open_loop.simps try_open_def slow_start_def max_attempts_def numeral_2_eq_2)

lemma store_New_ends_witness:
  "waits_of (snd (store_New (\<lambda>_. None) slow_start ''postgres://db'')) = 2 \<and>
   open_pools (snd (store_New (\<lambda>_. None) slow_start ''postgres://db'')) = {2}"
  using store_New_ends [OF slow_start_run] by (simp add: slow_start_run)

section \<open>The LISTEN connection\<close>

text \<open>
  A turn of \<open>Run\<close>: the error with which \<open>listenLoop\<close> returned and whether the context had ended by then,
  or ended in the wait that follows an error.
\<close>

definition Channel :: string where "Channel = ''dynoconf_events''"

record listen_turn =
  lt_err :: "string option"
  lt_done :: bool
  lt_wait_done :: bool

text \<open>The state of the loop: whether the context has ended, the number of turns, and the warnings.\<close>

record broker_loop =
  bl_done :: bool
  bl_turns :: nat
  bl_warned :: "string list"

definition listen_again :: "(nat \<Rightarrow> listen_turn) \<Rightarrow> broker_loop \<Rightarrow> broker_loop" where
  "listen_again env s = (let t = env (bl_turns s); s' = s\<lparr>bl_turns := Suc (bl_turns s)\<rparr> in
     case lt_err t of
       Some e \<Rightarrow> if lt_done t then s'\<lparr>bl_done := True\<rparr>
                 else s'\<lparr>bl_done := lt_wait_done t, bl_warned := bl_warned s @ [e]\<rparr>
     | None \<Rightarrow> s'\<lparr>bl_done := lt_done t\<rparr>)"

text \<open>None: the loop goes on for ever.\<close>

definition broker_Run :: "(nat \<Rightarrow> listen_turn) \<Rightarrow> broker_loop option" where
  "broker_Run env = while_option (\<lambda>s. \<not> bl_done s) (listen_again env)
     \<lparr>bl_done = False, bl_turns = 0, bl_warned = []\<rparr>"

definition listen_ends :: "listen_turn \<Rightarrow> bool" where
  "listen_ends t \<longleftrightarrow> lt_done t \<or> lt_err t \<noteq> None \<and> lt_wait_done t"

interpretation lp: counted_loop bl_done bl_turns "listen_again env" "\<lambda>n. listen_ends (env n)" for env
  by unfold_locales (auto simp: listen_again_def listen_ends_def Let_def split: option.split)

text \<open>The broker listens again after every error, for ever, and stops listening only when the process
  does; it has then opened one connection in each turn.\<close>

theorem broker_Run_ends_iff:
  "(\<exists>s. broker_Run env = Some s) \<longleftrightarrow> (\<exists>n. listen_ends (env n))"
  using lp.loop_ends_iff [of "\<lparr>bl_done = False, bl_turns = 0, bl_warned = []\<rparr>" env]
  by (simp add: broker_Run_def)

lemma broker_Run_turns:
  assumes "broker_Run env = Some s"
  shows "\<exists>n. bl_turns s = Suc n \<and> listen_ends (env n) \<and> (\<forall>i < n. \<not> listen_ends (env i))"
proof -
  let ?s = "\<lparr>bl_done = False, bl_turns = 0, bl_warned = []\<rparr>"
  from assms have "while_option (\<lambda>s. \<not> bl_done s) (listen_again env) ?s = Some s" by (simp add: broker_Run_def)
  then obtain n where "listen_ends (env (bl_turns ?s + n))" "\<forall>i < n. \<not> listen_ends (env (bl_turns ?s + i))"
    "s = (listen_again env ^^ Suc n) ?s"
    by (rule lp.loop_SomeE) simp_all
  then show ?thesis using lp.turns_iterate [of "Suc n" env ?s] by (intro exI [of _ n]) simp
qed

section \<open>Connection ids\<close>

text \<open>\<open>newConnID\<close> of \<open>internal/grpcserver/server.go\<close>: eight random bytes in hexadecimal, so different draws
  are different ids.\<close>

definition newConnID :: "string \<Rightarrow> string" where
  "newConnID bytes = hex_encode (take 8 bytes)"

lemma hex_encode_inj: "hex_encode s = hex_encode t \<Longrightarrow> s = t"
proof (induction s arbitrary: t)
  case Nil
  then show ?case by (cases t) (simp_all add: hex_encode_def)
next
  case (Cons c s)
  then obtain b t' where t: "t = b # t'" by (cases t) (simp_all add: hex_encode_def)
  have digits: "hex_val (hex_digit (byte x div 16)) = Some (byte x div 16)" "hex_val (hex_digit (byte x mod 16)) = Some (byte x mod 16)" for x
    by (simp_all add: less_mult_imp_div_less)
  from Cons.prems t have eq: "hex_digit (byte c div 16) = hex_digit (byte b div 16)" "hex_digit (byte c mod 16) = hex_digit (byte b mod 16)"
    and rest: "hex_encode s = hex_encode t'" by (simp_all add: hex_encode_def)
  from eq digits have "byte c div 16 = byte b div 16" "byte c mod 16 = byte b mod 16" by (metis option.inject)+
  then have "byte c = byte b" by (metis div_mult_mod_eq)
  then have "c = b" by simp
  with Cons.IH [OF rest] t show ?case by simp
qed

lemma newConnID_inj: "length bs = 8 \<Longrightarrow> length cs = 8 \<Longrightarrow> newConnID bs = newConnID cs \<Longrightarrow> bs = cs"
  using hex_encode_inj by (simp add: newConnID_def)

end
