(* ===== verification/Tgbot.thy ===== *)
theory Tgbot
  imports Http_Access
begin

text \<open>
  The bot of \<open>internal/tgbot/bot.go\<close>: the commands of the allow-listed senders, the loop that polls
  the Telegram API, and the life of the manager. The settings and the sending of messages are in
  \<open>Actions\<close>. A Go panic in the goroutine of the bot ends the whole process; here it is None.
\<close>

section \<open>Updates\<close>

record incoming =
  from_id :: int
  from_username :: string
  in_chat :: int
  in_text :: string

record update =
  upd_id :: int
  upd_message :: "incoming option"

definition zero_incoming :: incoming where
  "zero_incoming = \<lparr>from_id = 0, from_username = [], in_chat = 0, in_text = []\<rparr>"

definition from_fields :: "incoming fields" where
  "from_fields = [(''id'', int_field (\<lambda>n r. r\<lparr>from_id := n\<rparr>)),
     (''username'', str_field (\<lambda>s r. r\<lparr>from_username := s\<rparr>))]"

definition chat_fields :: "incoming fields" where
  "chat_fields = [(''id'', int_field (\<lambda>n r. r\<lparr>in_chat := n\<rparr>))]"

definition message_fields :: "incoming fields" where
  "message_fields = [(''from'', \<lambda>v r. decode_struct False from_fields r v),
     (''chat'', \<lambda>v r. decode_struct False chat_fields r v),
     (''text'', str_field (\<lambda>s r. r\<lparr>in_text := s\<rparr>))]"

text \<open>The message is a pointer: null makes it nil, an object is decoded into what it points to.\<close>

definition message_field :: "json \<Rightarrow> update \<Rightarrow> update option" where
  "message_field v r = (if v = JNull then Some (r\<lparr>upd_message := None\<rparr>)
     else map_option (\<lambda>m. r\<lparr>upd_message := Some m\<rparr>)
       (decode_struct False message_fields
          (case upd_message r of None \<Rightarrow> zero_incoming | Some m \<Rightarrow> m) v))"

definition update_fields :: "update fields" where
  "update_fields = [(''update_id'', int_field (\<lambda>n r. r\<lparr>upd_id := n\<rparr>)), (''message'', message_field)]"

definition json_update :: "json \<Rightarrow> update option" where
  "json_update v = decode_struct False update_fields \<lparr>upd_id = 0, upd_message = None\<rparr> v"

definition unmarshal_updates :: "string \<Rightarrow> update list option" where
  "unmarshal_updates body = Option.bind (parse_json body)
     (decode_struct False [(''result'', list_field json_update (\<lambda>us _. us))] [])"

text \<open>
  \<open>getUpdates\<close>: the long poll. The error of building the request is dropped, so a token that makes
  no URL leaves a nil request, on which \<open>Do\<close> panics. The status code is not looked at.
\<close>

datatype poll = PollPanic | PollFailed | Polled "update list"

definition poll_url :: "string \<Rightarrow> int \<Rightarrow> string" where
  "poll_url token offset = bot_url token (''/getUpdates?timeout=60&offset='' @ FormatInt offset)"

definition getUpdates :: "(string \<Rightarrow> api_answer) \<Rightarrow> string \<Rightarrow> int \<Rightarrow> poll" where
  "getUpdates net token offset = (let url = poll_url token offset in
     if \<not> url_parses url then PollPanic
     else (case net url of
         NoAnswer _ \<Rightarrow> PollFailed
       | Answer _ body \<Rightarrow> (case unmarshal_updates body of None \<Rightarrow> PollFailed | Some us \<Rightarrow> Polled us)))"

section \<open>Commands\<close>

text \<open>
  What the bot takes from elsewhere: the texts of errors, the lower case of strings that are not
  ASCII, and whether an auditor was set.
\<close>

record bot_cfg =
  bc_error_text :: "store_error \<Rightarrow> string"
  bc_lower :: "string \<Rightarrow> string"
  bc_auditor :: bool

definition no_entry :: string where "no_entry = chars [0xE2, 0x9B, 0x94]"
definition bullet :: string where "bullet = chars [0xE2, 0x80, 0xA2]"
definition em_dash :: string where "em_dash = chars [0xE2, 0x80, 0x94]"

definition helpText :: "string \<Rightarrow> string" where
  "helpText con = ''dynoconf bot ('' @ con @ '')'' @ [newline] @
     ''/services '' @ em_dash @ '' list services'' @ [newline] @
     ''/list <service_key> '' @ em_dash @ '' list variables'' @ [newline] @
     ''/get <service_key> <KEY> '' @ em_dash @ '' show a value'' @ [newline] @
     ''/set <service_key> <KEY> <value> '' @ em_dash @ '' set a value''"

definition cmdServices :: "bot_cfg \<Rightarrow> string \<Rightarrow> int \<Rightarrow> world \<Rightarrow> world" where
  "cmdServices cfg token chatID w = (case run_db ListServices w of
      (Inl e, w1) \<Rightarrow> reply token chatID (''error: '' @ bc_error_text cfg e) w1
    | (Inr svcs, w1) \<Rightarrow>
        if svcs = [] then reply token chatID ''No services.'' w1
        else reply token chatID (''Services:'' @ [newline] @
          concat (map (\<lambda>s. bullet @ '' '' @ s_key s @ '' '' @ em_dash @ '' '' @ s_name s @ [newline]) svcs)) w1)"

definition cmdList :: "bot_cfg \<Rightarrow> string \<Rightarrow> int \<Rightarrow> string list \<Rightarrow> world \<Rightarrow> world" where
  "cmdList cfg token chatID args w =
     (if length args < 1 then reply token chatID ''usage: /list <service_key>'' w
      else (case run_db (GetServiceByKey (args ! 0)) w of
          (Inl _, w1) \<Rightarrow> reply token chatID ''service not found'' w1
        | (Inr svc, w1) \<Rightarrow> (case run_db (ListVariables (s_id svc)) w1 of
            (Inl e, w2) \<Rightarrow> reply token chatID (''error: '' @ bc_error_text cfg e) w2
          | (Inr vars, w2) \<Rightarrow>
              if vars = [] then reply token chatID ''(no variables)'' w2
              else reply token chatID (s_key svc @ '':'' @ [newline] @
                concat (map (\<lambda>v. v_key v @ '' = '' @ v_value v @ ''  (v'' @ FormatInt (v_version v) @ '')'' @ [newline]) vars)) w2)))"

text \<open>The error of the second query is dropped; no variable is found then.\<close>

definition cmdGet :: "string \<Rightarrow> int \<Rightarrow> string list \<Rightarrow> world \<Rightarrow> world" where
  "cmdGet token chatID args w =
     (if length args < 2 then reply token chatID ''usage: /get <service_key> <KEY>'' w
      else (case run_db (GetServiceByKey (args ! 0)) w of
          (Inl _, w1) \<Rightarrow> reply token chatID ''service not found'' w1
        | (Inr svc, w1) \<Rightarrow>
            let (r, w2) = run_db (ListVariables (s_id svc)) w1;
                vars = (case r of Inl _ \<Rightarrow> [] | Inr vs \<Rightarrow> vs)
            in (case find (\<lambda>v. v_key v = args ! 1) vars of
                 Some v \<Rightarrow> reply token chatID (v_key v @ '' = '' @ v_value v @ '' (v'' @
                   FormatInt (v_version v) @ '', by '' @ v_updated_by v @ '')'') w2
               | None \<Rightarrow> reply token chatID ''variable not found'' w2)))"

definition set_event :: "service \<Rightarrow> string \<Rightarrow> string \<Rightarrow> int \<Rightarrow> event" where
  "set_event svc key val version = \<lparr>ev_kind = KindVar, ev_service_id = s_id svc, ev_service_key = s_key svc,
     ev_change_type = EvUpsert, ev_key = key, ev_value = val, ev_version = version\<rparr>"

definition set_done :: "service \<Rightarrow> string \<Rightarrow> string \<Rightarrow> int \<Rightarrow> string" where
  "set_done svc key val version =
     check_mark @ '' '' @ s_key svc @ ''/'' @ key @ '' = '' @ val @ '' (v'' @ FormatInt version @ '')''"

definition cmdSet :: "bot_cfg \<Rightarrow> string \<Rightarrow> int \<Rightarrow> string list \<Rightarrow> string \<Rightarrow> world \<Rightarrow> world" where
  "cmdSet cfg token chatID args actor w =
     (if length args < 3 then reply token chatID ''usage: /set <service_key> <KEY> <value>'' w
      else (case run_db (GetServiceByKey (args ! 0)) w of
          (Inl _, w1) \<Rightarrow> reply token chatID ''service not found'' w1
        | (Inr svc, w1) \<Rightarrow>
            let key = args ! 1; val = Join (drop 2 args) '' '' in
            (case run_db (UpsertVariable (s_id svc) key val actor) w1 of
               (Inl e, w2) \<Rightarrow> reply token chatID (''error: '' @ bc_error_text cfg e) w2
             | (Inr change, w2) \<Rightarrow>
                 let version = v_version (ch_variable change);
                     w3 = snd (run_db (Publish (set_event svc key val version)) w2);
                     w4 = (if bc_auditor cfg
                       then Record actor VariableUpsert (''service:'' @ s_key svc @ ''/'' @ key)
                         [(''version'', DInt version), (''via'', DStr ''telegram'')] w3
                       else w3)
                 in reply token chatID (set_done svc key val version) w4)))"

definition bot_actor :: "incoming \<Rightarrow> string" where
  "bot_actor m = ''telegram:'' @ (if from_username m = [] then FormatInt (from_id m) else from_username m)"

text \<open>The first field, in lower case, without the name of the bot.\<close>

definition command_of :: "bot_cfg \<Rightarrow> string \<Rightarrow> string" where
  "command_of cfg field = (let cmd = ToLower (bc_lower cfg) field in
     case IndexByte cmd (CHR ''@'') of None \<Rightarrow> cmd | Some i \<Rightarrow> take i cmd)"

definition run_command ::
  "bot_cfg \<Rightarrow> string \<Rightarrow> int \<Rightarrow> string \<Rightarrow> string \<Rightarrow> string list \<Rightarrow> world \<Rightarrow> world" where
  "run_command cfg token chatID actor cmd args w =
     (if cmd = ''/start'' \<or> cmd = ''/help'' then reply token chatID (helpText (contour w)) w
      else if cmd = ''/services'' then cmdServices cfg token chatID w
      else if cmd = ''/list'' then cmdList cfg token chatID args w
      else if cmd = ''/get'' then cmdGet token chatID args w
      else if cmd = ''/set'' then cmdSet cfg token chatID args actor w
      else reply token chatID ''Unknown command. /help'' w)"

definition refusal :: "incoming \<Rightarrow> string" where
  "refusal m = no_entry @ '' Not authorized. Your Telegram ID: '' @ FormatInt (from_id m)"

definition handle :: "bot_cfg \<Rightarrow> string \<Rightarrow> int list \<Rightarrow> incoming \<Rightarrow> world \<Rightarrow> world option" where
  "handle cfg token allow m w =
     (if from_id m \<notin> set allow then Some (reply token (in_chat m) (refusal m) w)
      else (case Fields (in_text m) of
          [] \<Rightarrow> None
        | field # args \<Rightarrow>
            Some (run_command cfg token (in_chat m) (bot_actor m) (command_of cfg field) args w)))"

section \<open>The loop\<close>

text \<open>
  One turn for each answer of the network, until the context is done; between two turns the world
  may change. The trace holds the updates that were taken, those of them for which \<open>handle\<close> was called, and the
  seconds that were waited.
\<close>

datatype bot_event = Took update | Called update | Waited nat

fun take_updates ::
  "bot_cfg \<Rightarrow> string \<Rightarrow> int list \<Rightarrow> update list \<Rightarrow> int \<Rightarrow> world \<Rightarrow> (bot_event list \<times> int \<times> world) option" where
  "take_updates cfg token allow [] offset w = Some ([], offset, w)"
| "take_updates cfg token allow (u # us) offset w =
     (let offset' = int64 (upd_id u + 1) in
      case upd_message u of
        None \<Rightarrow> map_option (\<lambda>(tr, r). (Took u # tr, r)) (take_updates cfg token allow us offset' w)
      | Some m \<Rightarrow>
          if in_text m = [] then map_option (\<lambda>(tr, r). (Took u # tr, r)) (take_updates cfg token allow us offset' w)
          else (case handle cfg token allow m w of
              None \<Rightarrow> None
            | Some w' \<Rightarrow>
                map_option (\<lambda>(tr, r). (Took u # Called u # tr, r)) (take_updates cfg token allow us offset' w')))"

fun runBot ::
  "bot_cfg \<Rightarrow> string \<Rightarrow> int list \<Rightarrow> ((world \<Rightarrow> world) \<times> (string \<Rightarrow> api_answer)) list \<Rightarrow> int \<Rightarrow> world \<Rightarrow>
     (bot_event list \<times> int \<times> world) option" where
  "runBot cfg token allow [] offset w = Some ([], offset, w)"
| "runBot cfg token allow ((others, net) # turns) offset w =
     (let w1 = others w in
      case getUpdates net token offset of
        PollPanic \<Rightarrow> None
      | PollFailed \<Rightarrow> map_option (\<lambda>(tr, r). (Waited 3 # tr, r)) (runBot cfg token allow turns offset w1)
      | Polled us \<Rightarrow> (case take_updates cfg token allow us offset w1 of
            None \<Rightarrow> None
          | Some (tr0, offset', w2) \<Rightarrow>
              map_option (\<lambda>(tr, r). (tr0 @ tr, r)) (runBot cfg token allow turns offset' w2)))"

definition taken :: "bot_event list \<Rightarrow> update list" where
  "taken tr = concat (map (\<lambda>e. case e of Took u \<Rightarrow> [u] | _ \<Rightarrow> []) tr)"

definition called :: "bot_event list \<Rightarrow> update list" where
  "called tr = concat (map (\<lambda>e. case e of Called u \<Rightarrow> [u] | _ \<Rightarrow> []) tr)"

definition has_text :: "update \<Rightarrow> bool" where
  "has_text u \<longleftrightarrow> (case upd_message u of None \<Rightarrow> False | Some m \<Rightarrow> in_text m \<noteq> [])"

section \<open>The manager\<close>

definition NewManager :: "string \<Rightarrow> db \<Rightarrow> (tg_message \<Rightarrow> api_answer) \<Rightarrow> (string \<Rightarrow> string) \<Rightarrow> world" where
  "NewManager con d api url_error = \<lparr>w_db = d, contour = con, started = False,
     tg_cur = \<lparr>tg_enabled = False, tg_token = [], tg_chat = [], tg_admins = []\<rparr>, tg_bot = None,
     outbox = [], tg_api = api, tg_url_error = url_error\<rparr>"

definition Start :: "world \<Rightarrow> world" where
  "Start w = w\<lparr>started := True\<rparr>"

definition Current :: "world \<Rightarrow> telegram_settings" where
  "Current w = tg_cur w"

definition SetAudit :: "bot_cfg \<Rightarrow> bot_cfg" where
  "SetAudit cfg = cfg\<lparr>bc_auditor := True\<rparr>"

end
