(* ===== verification/Tgbot_Properties.thy ===== *)
theory Tgbot_Properties
  imports Tgbot Http_Writes Write_Effects
begin

text \<open>
  What the bot of \<open>internal/tgbot/bot.go\<close> may do to the data, that it tells the truth about it, how
  its loop follows the updates of the Telegram API, and how it can end the process.
\<close>

section \<open>Programs of the store in the world\<close>

lemma reads_only_tbl: "reads_only m \<Longrightarrow> tbl (snd (m d)) = tbl d"
  by (rule reads_onlyD [OF _ prod.collapse [symmetric]])

lemma run_db_quiet: "reads_only m \<Longrightarrow> run_db m w = (r, w') \<Longrightarrow> tbl (w_db w') = tbl (w_db w)"
  using reads_only_tbl [of m "w_db w"] run_db_sel(1) [of m w] by simp

lemma reads_only_lists [simp]: "reads_only ListServices" "reads_only (ListVariables sid)"
  by (simp_all add: ListServices_def ListVariables_def)

lemma Publish_tbl: "tbl (snd (Publish ev d)) = tbl d"
  by (cases "Publish ev d") (auto elim!: Publish_cases)

lemma InsertAudit_tbl:
  "\<exists>rows. tbl (snd (InsertAudit a b c ds d)) = (tbl d)\<lparr>audit_tbl := rows\<rparr>"
proof (cases "InsertAudit a b c ds d")
  case (Pair r d')
  then show ?thesis
  proof (cases rule: InsertAudit_cases)
    case fault
    then show ?thesis using Pair by (intro exI [of _ "audit_tbl (tbl d)"]) simp
  qed (use Pair in auto)
qed

section \<open>The command /set\<close>

text \<open>What follows the write of the variable.\<close>

definition set_tail ::
  "bot_cfg \<Rightarrow> string \<Rightarrow> int \<Rightarrow> string \<Rightarrow> service \<Rightarrow> string \<Rightarrow> string \<Rightarrow> int \<Rightarrow> world \<Rightarrow> world" where
  "set_tail cfg token chatID actor svc key val n w =
     (let w3 = snd (run_db (Publish (set_event svc key val n)) w);
          w4 = (if bc_auditor cfg
            then Record actor VariableUpsert (''service:'' @ s_key svc @ ''/'' @ key)
              [(''version'', DInt n), (''via'', DStr ''telegram'')] w3
            else w3)
      in reply token chatID (set_done svc key val n) w4)"

lemma set_tail_tbl: "\<exists>rows. tbl (w_db (set_tail cfg token c actor svc k v n w)) = (tbl (w_db w))\<lparr>audit_tbl := rows\<rparr>"
proof (cases "bc_auditor cfg")
  case True
  then show ?thesis
    using InsertAudit_tbl [of actor VariableUpsert _ _ "snd (Publish (set_event svc k v n) (w_db w))"]
    by (simp add: set_tail_def Let_def Publish_tbl)
next
  case False
  then show ?thesis
    by (intro exI [of _ "audit_tbl (tbl (w_db w))"]) (simp add: set_tail_def Let_def Publish_tbl)
qed

lemma cmdSet_cases:
  assumes "cmdSet cfg token c args actor w = w'"
  obtains (idle) "tbl (w_db w') = tbl (w_db w)"
  | (ran) key k vs svc w1 ch d2 where "args = key # k # vs" and "vs \<noteq> []"
      and "run_db (GetServiceByKey key) w = (Inr svc, w1)"
      and "UpsertVariable (s_id svc) k (Join vs '' '') actor (w_db w1) = (Inr ch, d2)"
      and "w' = set_tail cfg token c actor svc k (Join vs '' '') (v_version (ch_variable ch)) (w1\<lparr>w_db := d2\<rparr>)"
proof (cases "length args < 3")
  case True
  with assms show ?thesis by (intro idle) (auto simp: cmdSet_def)
next
  case False
  then obtain key k v vs where args: "args = key # k # v # vs"
    by (cases args; cases "tl args"; cases "tl (tl args)") auto
  obtain r w1 where g: "run_db (GetServiceByKey key) w = (r, w1)" by fastforce
  note same = run_db_quiet [OF _ g]
  show ?thesis
  proof (cases r)
    case (Inl e)
    with assms g args same show ?thesis by (intro idle) (auto simp: cmdSet_def)
  next
    case (Inr svc)
    obtain r2 d2 where u: "UpsertVariable (s_id svc) k (Join (v # vs) '' '') actor (w_db w1) = (r2, d2)" by fastforce
    show ?thesis
    proof (cases r2)
      case (Inl e)
      then have "tbl d2 = tbl (w_db w1)" using u tx_failed_tbl(1) by fast
      with assms g args same Inr u Inl show ?thesis by (intro idle) (auto simp: cmdSet_def run_db_def [of "UpsertVariable _ _ _ _"])
    next
      case ok: (Inr ch)
      show ?thesis
        by (rule ran [of key k "v # vs" svc w1 ch d2])
          (use assms g args Inr u ok in
            \<open>auto simp: cmdSet_def set_tail_def Let_def run_db_def [of "UpsertVariable _ _ _ _"]\<close>)
    qed
  qed
qed

lemma other_commands:
  "tbl (w_db (cmdServices cfg token c w)) = tbl (w_db w)"
  "tbl (w_db (cmdList cfg token c args w)) = tbl (w_db w)"
  "tbl (w_db (cmdGet token c args w)) = tbl (w_db w)"
  by (simp_all add: cmdServices_def cmdList_def cmdGet_def run_db_eq Let_def reads_only_tbl
      split: sum.split option.split)

text \<open>A message changes the tables only as a /set of an allowed sender.\<close>

lemma handle_cases:
  assumes "handle cfg token allow m w = Some w'"
  obtains (idle) "tbl (w_db w') = tbl (w_db w)"
  | (ran) field key k vs svc w1 ch d2 where "from_id m \<in> set allow"
      and "Fields (in_text m) = field # key # k # vs" and "vs \<noteq> []" and "command_of cfg field = ''/set''"
      and "run_db (GetServiceByKey key) w = (Inr svc, w1)"
      and "UpsertVariable (s_id svc) k (Join vs '' '') (bot_actor m) (w_db w1) = (Inr ch, d2)"
      and "w' = set_tail cfg token (in_chat m) (bot_actor m) svc k (Join vs '' '') (v_version (ch_variable ch))
        (w1\<lparr>w_db := d2\<rparr>)"
proof (cases "from_id m \<in> set allow")
  case False
  with assms show ?thesis by (intro idle) (auto simp: handle_def)
next
  case True
  with assms obtain field args where f: "Fields (in_text m) = field # args"
    and w': "w' = run_command cfg token (in_chat m) (bot_actor m) (command_of cfg field) args w"
    by (auto simp: handle_def split: list.splits)
  show ?thesis
  proof (cases "command_of cfg field = ''/set''")
    case False
    with w' show ?thesis by (intro idle) (auto simp: run_command_def other_commands)
  next
    case set: True
    with w' have "cmdSet cfg token (in_chat m) args (bot_actor m) w = w'" by (simp add: run_command_def)
    then show ?thesis
      by (cases rule: cmdSet_cases) (use True f set in \<open>auto intro: idle ran\<close>)
  qed
qed

section \<open>Commands of the version log\<close>

text \<open>C28. The bot touches the data only as a command of the version log. Whatever message comes in: the
  tables stay as they are, or its sender is on the allow-list and wrote a /set for an existing
  service; then the log of that service grows by exactly that write, under the sender's name, the
  other services keep theirs, and beside the variables and their history only the audit log differs.\<close>

theorem bot_changes_are_commands:
  assumes "reachable (w_db w)" and "\<forall>sid. log_room (service_log (tbl (w_db w)) sid)"
    and "handle cfg token allow m w = Some w'"
  shows "tbl (w_db w') = tbl (w_db w) \<or>
     (\<exists>field key k vs svc vars vers rows. from_id m \<in> set allow \<and> Fields (in_text m) = field # key # k # vs \<and> vs \<noteq> [] \<and>
       command_of cfg field = ''/set'' \<and> find_service_key (tbl (w_db w)) key = Some svc \<and>
       log_step (Put k (Join vs '' '') (bot_actor m)) (service_log (tbl (w_db w)) (s_id svc)) =
         Inr (service_log (tbl (w_db w')) (s_id svc)) \<and>
       (\<forall>a. a \<noteq> s_id svc \<longrightarrow> service_log (tbl (w_db w')) a = service_log (tbl (w_db w)) a) \<and>
       tbl (w_db w') = (tbl (w_db w))\<lparr>variables_tbl := vars, versions_tbl := vers, audit_tbl := rows\<rparr>)"
  using assms(3)
proof (cases rule: handle_cases)
  case (ran field key k vs svc w1 ch d2)
  obtain d1 where "GetServiceByKey key (w_db w) = (Inr svc, d1)" and "w_db w1 = d1"
    using ran(5) by (auto simp: run_db_def split: prod.splits)
  then have found: "find_service_key (tbl (w_db w)) key = Some svc" "tbl (w_db w1) = tbl (w_db w)"
    using GetServiceByKey_result by blast+
  have run: "exec_cmd (s_id svc) (Put k (Join vs '' '') (bot_actor m)) (w_db w1) = (Inr ch, d2)"
    using ran(6) by simp
  from set_tail_tbl [of cfg token "in_chat m" "bot_actor m" svc k "Join vs '' ''" "v_version (ch_variable ch)"
      "w1\<lparr>w_db := d2\<rparr>"] ran(7)
  obtain rows where rows: "tbl (w_db w') = (tbl d2)\<lparr>audit_tbl := rows\<rparr>" by auto
  then have logs: "service_log (tbl (w_db w')) a = service_log (tbl d2) a" for a
    by (simp add: service_log_def)
  have "log_inv (tbl (w_db w1))" "log_room (service_log (tbl (w_db w1)) (s_id svc))"
    using reachable_log [OF assms(1)] assms(2) found by simp_all
  then have "log_step (Put k (Join vs '' '') (bot_actor m)) (service_log (tbl (w_db w)) (s_id svc)) =
      Inr (service_log (tbl (w_db w')) (s_id svc))"
    using exec_cmd_refines [OF _ _ run] logs found(2) by simp
  moreover have "\<forall>a. a \<noteq> s_id svc \<longrightarrow> service_log (tbl (w_db w')) a = service_log (tbl (w_db w)) a"
    using exec_cmd_others [OF run] logs found(2) by simp
  moreover obtain vars vers where "tbl d2 = (tbl (w_db w))\<lparr>variables_tbl := vars, versions_tbl := vers\<rparr>"
    using UpsertVariable_wrote [OF ran(6)] found(2) unfolding wrote_def by metis
  then have "tbl (w_db w') = (tbl (w_db w))\<lparr>variables_tbl := vars, versions_tbl := vers, audit_tbl := rows\<rparr>"
    using rows by simp
  ultimately show ?thesis using ran(1-4) found(1) by blast
qed simp

definition demo_bot :: bot_cfg where
  "demo_bot = \<lparr>bc_error_text = (\<lambda>_. ''error''), bc_lower = (\<lambda>s. s), bc_auditor = True\<rparr>"

definition demo_message :: "string \<Rightarrow> incoming" where
  "demo_message txt = \<lparr>from_id = 7, from_username = ''ann'', in_chat = 9, in_text = txt\<rparr>"

theorem bot_changes_are_commands_witness:
  "\<exists>w'. handle demo_bot ''1:t'' [7] (demo_message ''/Set@bot svc k  a b'') office = Some w' \<and>
     log_step (Put ''k'' ''a b'' ''telegram:ann'') (service_log (tbl (w_db office)) 1) =
       Inr (service_log (tbl (w_db w')) 1)"
proof -
  let ?m = "demo_message ''/Set@bot svc k  a b''"
  have "Fields (in_text ?m) = [''/Set@bot'', ''svc'', ''k'', ''a'', ''b'']"
    and "length (versions_tbl (tbl (w_db office))) < 100" and "bot_actor ?m = ''telegram:ann''"
    and svc: "case find_service_key (tbl (w_db office)) ''svc'' of Some svc \<Rightarrow> s_id svc = 1 | None \<Rightarrow> False"
    and "case handle demo_bot ''1:t'' [7] ?m office of None \<Rightarrow> False | Some w' \<Rightarrow>
       length (versions_tbl (tbl (w_db w'))) \<noteq> length (versions_tbl (tbl (w_db office)))"
    by code_simp+
  then obtain w' where w': "handle demo_bot ''1:t'' [7] ?m office = Some w'"
    and "length (versions_tbl (tbl (w_db w'))) \<noteq> length (versions_tbl (tbl (w_db office)))"
    by (auto split: option.splits)
  from this(2) have "tbl (w_db w') \<noteq> tbl (w_db office)" by metis
  from bot_changes_are_commands [OF reachable_office _ w'] this room_short [of "tbl (w_db office)"]
    \<open>length _ < 100\<close> \<open>Fields _ = _\<close> \<open>bot_actor _ = _\<close> svc w'
  show ?thesis by (auto split: option.splits)
qed

text \<open>C29. The bot keeps its word. When no statement fails, a /set of an allowed sender for an existing
  service writes the variable: the tables are then those of the committed write and one audit row under the
  sender's name, so the key has that value in the configuration of the service and nothing else in any
  configuration changes. It publishes exactly the event of the write (none if the payload is too long for
  NOTIFY), and the last message that is sent confirms the value with the version that it got.\<close>

theorem bot_set_is_done:
  assumes "faults (w_db w) = []" and "bc_auditor cfg" and "from_id m \<in> set allow"
    and "Fields (in_text m) = field # key # k # vs" and "vs \<noteq> []" and "command_of cfg field = ''/set''"
    and "find_service_key (tbl (w_db w)) key = Some svc" and "url_parses (bot_url token ''/sendMessage'')"
  shows "\<exists>w' ch d2 row. handle cfg token allow m w = Some w' \<and>
     exec_cmd (s_id svc) (Put k (Join vs '' '') (bot_actor m)) (w_db w) = (Inr ch, d2) \<and>
     tbl (w_db w') = (tbl d2)\<lparr>audit_tbl := audit_tbl (tbl (w_db w)) @ [row]\<rparr> \<and>
     config_of (tbl (w_db w')) = (config_of (tbl (w_db w)))
       (s_id svc := (config_of (tbl (w_db w)) (s_id svc))(k \<mapsto> Join vs '' '')) \<and>
     notifs (w_db w') = notifs (w_db w) @
       announced_payload (set_event svc k (Join vs '' '') (v_version (ch_variable ch))) \<and>
     a_actor row = bot_actor m \<and>
     last (outbox w') = \<lparr>msg_token = token, msg_chat = FormatInt (in_chat m),
       msg_text = set_done svc k (Join vs '' '') (v_version (ch_variable ch))\<rparr>"
proof -
  let ?val = "Join vs '' ''"
  have get: "run_db (GetServiceByKey key) w = (Inr svc, w)"
    using assms(1,7) by (simp add: run_db_def GetServiceByKey_def run_simps)
  have "service_exists (tbl (w_db w)) (s_id svc)"
    using find_SomeD [of _ "services_tbl (tbl (w_db w))" svc] assms(7)
    by (auto simp: service_exists_iff find_service_key_def)
  then have "\<exists>ch. fst (UpsertVariable (s_id svc) k ?val (bot_actor m) (w_db w)) = Inr ch"
    using assms(1)
    by (simp add: UpsertVariable_def upsert_body_def variable_existed_def nextVersion_def
        write_variable_def insertVersion_def run_simps Let_def nextval_def with_tbl_def service_exists_upd
        split: option.splits)
  then obtain ch d2 where run: "UpsertVariable (s_id svc) k ?val (bot_actor m) (w_db w) = (Inr ch, d2)"
    by (metis prod.collapse)
  let ?n = "v_version (ch_variable ch)"
  let ?w = "set_tail cfg token (in_chat m) (bot_actor m) svc k ?val ?n (w\<lparr>w_db := d2\<rparr>)"
  have h: "handle cfg token allow m w = Some ?w"
    using assms(3-6) get run
    by (cases vs) (simp_all add: handle_def run_command_def cmdSet_def set_tail_def Let_def run_db_def [of "UpsertVariable _ _ _ _"])
  have cmd: "exec_cmd (s_id svc) (Put k ?val (bot_actor m)) (w_db w) = (Inr ch, d2)" using run by simp
  note after = exec_cmd_wrote(3-5) [OF cmd]
  let ?ev = "set_event svc k ?val ?n"
  have pub: "snd (Publish ?ev d2) = d2\<lparr>notifs := notifs d2 @ announced_payload ?ev\<rparr>"
    using after(3) assms(1) by (auto simp: Publish_def pg_notify_def stmt_run announced_payload_def)
  have "notifs (w_db ?w) = notifs (w_db w) @ announced_payload ?ev"
    using after assms(1,2) by (simp add: set_tail_def Let_def pub InsertAudit_def stmt_run)
  moreover have tail: "\<exists>row. tbl (w_db ?w) = (tbl d2)\<lparr>audit_tbl := audit_tbl (tbl (w_db w)) @ [row]\<rparr> \<and> a_actor row = bot_actor m"
    using after assms(1,2)
    by (simp add: set_tail_def Let_def pub InsertAudit_def stmt_run with_tbl_def nextval_def) (rule exI, rule conjI, rule refl, simp)
  moreover have "config_of (tbl (w_db ?w)) = (config_of (tbl (w_db w)))
      (s_id svc := (config_of (tbl (w_db w)) (s_id svc))(k \<mapsto> ?val))"
  proof -
    have "config_of (tbl (w_db ?w)) = config_of (tbl d2)"
      using tail by (auto simp: config_of_def find_variable_def fun_eq_iff)
    with wrote_config [OF UpsertVariable_wrote [OF run, THEN conjunct2, THEN conjunct1]] show ?thesis by (simp add: fun_eq_iff)
  qed
  moreover have "last (outbox ?w) = \<lparr>msg_token = token, msg_chat = FormatInt (in_chat m), msg_text = set_done svc k ?val ?n\<rparr>"
    using assms(8) by (simp add: set_tail_def Let_def reply_def sendErr_def)
  ultimately show ?thesis using h cmd by blast
qed

theorem bot_set_is_done_witness:
  "\<exists>w'. handle demo_bot ''1:t'' [7] (demo_message ''/set svc k v'') office = Some w' \<and>
     config_of (tbl (w_db w')) 1 ''k'' = Some ''v'' \<and> msg_chat (last (outbox w')) = ''9''"
proof -
  let ?m = "demo_message ''/set svc k v''"
  have ok: "faults (w_db office) = []" "bc_auditor demo_bot" "from_id ?m \<in> set [7]"
    "Fields (in_text ?m) = [''/set'', ''svc'', ''k'', ''v'']" "[''v''] \<noteq> []" "command_of demo_bot ''/set'' = ''/set''"
    and svc: "map_option s_id (find_service_key (tbl (w_db office)) ''svc'') = Some 1"
    and url: "url_parses (bot_url ''1:t'' ''/sendMessage'')" and chat: "FormatInt (in_chat ?m) = ''9''"
    and join: "Join [''v''] '' '' = ''v''"
    by code_simp+
  from svc obtain s where s: "find_service_key (tbl (w_db office)) ''svc'' = Some s" "s_id s = 1" by auto
  from bot_set_is_done [OF ok s(1) url] show ?thesis by (auto simp: chat join s(2))
qed

section \<open>The updates\<close>

text \<open>
  What the Telegram API documents of \<open>getUpdates\<close>: the updates come in the order of their ids, none
  has an id below the requested offset.
\<close>

definition in_order :: "(string \<Rightarrow> api_answer) \<Rightarrow> string \<Rightarrow> bool" where
  "in_order net token \<longleftrightarrow> (\<forall>offset us. getUpdates net token offset = Polled us \<longrightarrow>
     sorted_wrt (<) (map upd_id us) \<and> (\<forall>u \<in> set us. offset \<le> upd_id u \<and> upd_id u < int64_max))"

lemma taken_simps [simp]:
  "taken [] = []" "taken (Waited n # tr) = taken tr" "taken (Took u # tr) = u # taken tr" "taken (Called u # tr) = taken tr"
  "taken (tr @ tr') = taken tr @ taken tr'"
  by (simp_all add: taken_def)

lemma called_simps [simp]:
  "called [] = []" "called (Waited n # tr) = called tr" "called (Took u # tr) = called tr" "called (Called u # tr) = u # called tr"
  "called (tr @ tr') = called tr @ called tr'"
  by (simp_all add: called_def)

text \<open>A batch is taken in its order, and \<open>handle\<close> is called once for every update with a text.\<close>

lemma take_updates_trace:
  "take_updates cfg token allow us offset w = Some (tr, r) \<Longrightarrow> taken tr = us \<and> called tr = filter has_text us"
  by (induction us arbitrary: offset w tr) (auto simp: Let_def has_text_def split: option.splits if_splits)

lemma runBot_calls:
  "runBot cfg token allow turns offset w = Some (tr, r) \<Longrightarrow> called tr = filter has_text (taken tr)"
  by (induction cfg token allow turns offset w arbitrary: tr r rule: runBot.induct)
    (fastforce simp: Let_def dest: take_updates_trace split: option.splits poll.splits)+

lemma take_updates_offset:
  "take_updates cfg token allow us offset w = Some (tr, offset', w') \<Longrightarrow> 0 \<le> offset \<Longrightarrow>
     sorted_wrt (<) (map upd_id us) \<Longrightarrow> \<forall>u \<in> set us. offset \<le> upd_id u \<and> upd_id u < int64_max \<Longrightarrow>
     offset \<le> offset' \<and> (\<forall>u \<in> set us. upd_id u < offset')"
proof (induction us arbitrary: offset w tr)
  case (Cons u us)
  have step: "int64 (upd_id u + 1) = upd_id u + 1"
    using Cons.prems(2,4) by (intro int64_id) (auto simp: int64_min_def)
  from Cons.prems(1) obtain w1 tr1 where run: "take_updates cfg token allow us (upd_id u + 1) w1 = Some (tr1, offset', w')"
    by (auto simp: Let_def step split: option.splits if_splits)
  have "upd_id u + 1 \<le> offset' \<and> (\<forall>u \<in> set us. upd_id u < offset')"
    by (rule Cons.IH [OF run]) (use Cons.prems(2-4) in \<open>auto simp: zless_imp_add1_zle\<close>)
  then show ?case using Cons.prems(4) by auto
qed simp

lemma runBot_in_order:
  "runBot cfg token allow turns offset w = Some (tr, offset', w') \<Longrightarrow> 0 \<le> offset \<Longrightarrow>
     \<forall>turn \<in> set turns. in_order (snd turn) token \<Longrightarrow>
     sorted_wrt (<) (map upd_id (taken tr)) \<and> offset \<le> offset' \<and>
     (\<forall>u \<in> set (taken tr). offset \<le> upd_id u \<and> upd_id u < offset')"
proof (induction cfg token allow turns offset w arbitrary: tr rule: runBot.induct)
  case (2 cfg token allow others net turns offset w)
  show ?case
  proof (cases "getUpdates net token offset")
    case PollFailed
    then obtain tr1 where "tr = Waited 3 # tr1"
      and "runBot cfg token allow turns offset (others w) = Some (tr1, offset', w')"
      using 2(3) by auto
    with 2(1) [OF refl PollFailed this(2)] 2(4,5) show ?thesis by simp
  next
    case (Polled us)
    then obtain tr0 off1 w2 tr1 where take: "take_updates cfg token allow us offset (others w) = Some (tr0, off1, w2)"
      and tr: "tr = tr0 @ tr1" and run: "runBot cfg token allow turns off1 w2 = Some (tr1, offset', w')"
      using 2(3) by (auto split: option.splits)
    have us: "sorted_wrt (<) (map upd_id us)" "\<forall>u \<in> set us. offset \<le> upd_id u \<and> upd_id u < int64_max"
      using 2(5) Polled by (auto simp: in_order_def)
    from take_updates_offset [OF take 2(4) us] have off: "offset \<le> off1" "\<forall>u \<in> set us. upd_id u < off1" by auto
    from 2(2) [OF refl Polled take refl refl run] 2(4,5) off
    have "sorted_wrt (<) (map upd_id (taken tr1))" "off1 \<le> offset'"
      "\<forall>u \<in> set (taken tr1). off1 \<le> upd_id u \<and> upd_id u < offset'" by auto
    then show ?thesis using us off take_updates_trace [OF take] by (fastforce simp: tr sorted_wrt_append)
  qed (use 2(3) in simp)
qed simp

text \<open>C30. At most once, and in order: if the API answers as it is documented, the loop takes the
  updates in strictly rising order of their ids through all its polls, failed ones and changes of the
  world in between included; and it calls the handler exactly once for each of them that has a text, in that
  order, so no command is run twice.\<close>

theorem updates_taken_once:
  assumes "runBot cfg token allow turns 0 w = Some (tr, offset, w')"
    and "\<forall>turn \<in> set turns. in_order (snd turn) token"
  shows "sorted_wrt (<) (map upd_id (taken tr)) \<and> distinct (taken tr) \<and> (\<forall>u \<in> set (taken tr). upd_id u < offset) \<and>
     called tr = filter has_text (taken tr)"
proof -
  from runBot_in_order [OF assms(1) _ assms(2)]
  have "sorted_wrt (<) (map upd_id (taken tr))" "\<forall>u \<in> set (taken tr). upd_id u < offset" by auto
  with runBot_calls [OF assms(1)] show ?thesis by (metis distinct_map strict_sorted_iff)
qed

text \<open>The body of an answer with these updates, from senders without a name.\<close>

definition json_of :: "int \<times> string \<Rightarrow> json" where
  "json_of = (\<lambda>(n, txt). JObj [(''update_id'', JNum (FormatInt n)),
     (''message'', JObj [(''from'', JObj [(''id'', JNum ''7'')]), (''chat'', JObj [(''id'', JNum ''9'')]),
       (''text'', JStr txt)])])"

definition answer_of :: "(int \<times> string) list \<Rightarrow> json" where
  "answer_of us = JObj [(''ok'', JBool True), (''result'', JArr (map json_of us))]"

definition update_of :: "int \<times> string \<Rightarrow> update" where
  "update_of = (\<lambda>(n, txt). \<lparr>upd_id = n, upd_message = Some \<lparr>from_id = 7, from_username = [], in_chat = 9, in_text = txt\<rparr>\<rparr>)"

text \<open>An API that has these updates for the first poll, and no answer to others.\<close>

definition first_poll :: "string \<Rightarrow> string \<Rightarrow> api_answer" where
  "first_poll body url = (if url = poll_url ''1:t'' 0 then Answer 200 body else NoAnswer ''timeout'')"

lemma first_poll_other:
  assumes "offset \<noteq> 0"
  shows "getUpdates (first_poll body) ''1:t'' offset \<noteq> Polled us"
proof -
  have "FormatInt offset \<noteq> FormatInt 0"
  proof
    assume eq: "FormatInt offset = FormatInt 0"
    have "CHR ''-'' \<notin> set (digits 0)" using digits_all [of "CHR ''-''" 0] by (auto simp: is_digit_def)
    then have "CHR ''-'' # digits (nat (- offset)) \<noteq> digits 0" by (metis list.set_intros(1))
    with eq have "0 \<le> offset" by (auto simp: FormatInt_def simp del: digits.simps split: if_splits)
    with eq have "digits (nat offset) = digits 0" by (simp add: FormatInt_def del: digits.simps)
    then have "nat offset = 0" using digits_val_digits [of 0 "nat offset"] digits_val_digits [of 0 0] by (simp del: digits.simps)
    with \<open>0 \<le> offset\<close> assms show False by simp
  qed
  then show ?thesis by (simp add: getUpdates_def first_poll_def poll_url_def bot_url_def Let_def)
qed

lemma first_poll_in_order:
  assumes "unmarshal_updates body = Some us"
    and "sorted_wrt (<) (map upd_id us)" and "\<forall>u \<in> set us. 0 \<le> upd_id u \<and> upd_id u < int64_max"
  shows "in_order (first_poll body) ''1:t''"
  unfolding in_order_def
proof (intro allI impI)
  fix offset us'
  assume poll: "getUpdates (first_poll body) ''1:t'' offset = Polled us'"
  then have "offset = 0" using first_poll_other by blast
  moreover have "us' = us"
    using poll assms(1) calculation by (simp add: getUpdates_def first_poll_def Let_def split: if_splits)
  ultimately show "sorted_wrt (<) (map upd_id us') \<and> (\<forall>u\<in>set us'. offset \<le> upd_id u \<and> upd_id u < int64_max)"
    using assms(2,3) by simp
qed

lemma fold_api_names:
  "fold_name ''ok'' = ''ok''" "fold_name ''result'' = ''result''" "fold_name ''update_id'' = ''update_id''"
  "fold_name ''message'' = ''message''" "fold_name ''from'' = ''from''" "fold_name ''id'' = ''id''"
  "fold_name ''chat'' = ''chat''" "fold_name ''text'' = ''text''"
  by (simp_all add: fold_name_ascii lower_char_def is_upper_def)

lemma json_update_of:
  assumes "int64_min \<le> n" and "n \<le> int64_max"
  shows "json_update (json_of (n, txt)) = Some (update_of (n, txt))"
proof -
  have "ParseInt ''7'' = Some 7" "ParseInt ''9'' = Some 9" by code_simp+
  with ParseInt_FormatInt [OF assms] show ?thesis
    by (simp add: json_update_def json_of_def update_of_def decode_struct_def update_fields_def fold_api_names
        int_field_def str_field_def message_field_def message_fields_def from_fields_def chat_fields_def zero_incoming_def)
qed

lemma unmarshal_answer:
  assumes "list_all (\<lambda>(n, txt). int64_min \<le> n \<and> n \<le> int64_max) us" and "json_ok (answer_of us)"
  shows "unmarshal_updates (render (answer_of us)) = Some (map update_of us)"
proof -
  have "decode_elems json_update (map json_of us) = Some (map update_of us)"
    using assms(1) by (induction us) (auto simp: json_update_of)
  then have "decode_struct False [(''result'', list_field json_update (\<lambda>us _. us))] [] (answer_of us) =
      Some (map update_of us)"
    by (simp add: answer_of_def decode_struct_def fold_api_names list_field_def)
  then show ?thesis using parse_json_render [OF assms(2)] by (simp only: unmarshal_updates_def Option.bind.simps)
qed

theorem updates_taken_once_witness:
  "\<exists>tr offset w'. runBot demo_bot ''1:t'' [7] [(\<lambda>w. w, first_poll (render (answer_of [(5, ''/help''), (6, ''/list'')])))] 0 office
     = Some (tr, offset, w') \<and> map upd_id (taken tr) = [5, 6] \<and> distinct (taken tr) \<and> map upd_id (called tr) = [5, 6]"
proof -
  let ?us = "[(5, ''/help''), (6, ''/list'')]"
  define body where "body = render (answer_of ?us)"
  have "json_ok (answer_of ?us)" by code_simp
  then have body: "unmarshal_updates body = Some (map update_of ?us)"
    unfolding body_def by (rule unmarshal_answer [rotated]) (simp add: int64_min_def int64_max_def)
  have "in_order (first_poll body) ''1:t''"
    by (rule first_poll_in_order [OF body]) (simp_all add: update_of_def int64_max_def)
  moreover have url: "url_parses (poll_url ''1:t'' 0)" by code_simp
  have poll: "getUpdates (first_poll body) ''1:t'' 0 = Polled (map update_of ?us)"
    using url body by (simp add: getUpdates_def first_poll_def Let_def)
  moreover have "take_updates demo_bot ''1:t'' [7] (map update_of ?us) 0 office \<noteq> None" by code_simp
  then obtain tr off w1 where take: "take_updates demo_bot ''1:t'' [7] (map update_of ?us) 0 office = Some (tr, off, w1)" by auto
  have run: "runBot demo_bot ''1:t'' [7] [(\<lambda>w. w, first_poll body)] 0 office = Some (tr @ [], off, w1)"
    using poll take by simp
  ultimately have "distinct (taken (tr @ []))" and "called (tr @ []) = filter has_text (taken (tr @ []))"
    using updates_taken_once [OF run] by simp_all
  moreover have "taken (tr @ []) = map update_of ?us" using take_updates_trace [OF take] by simp
  ultimately have "map upd_id (taken (tr @ [])) = [5, 6] \<and> distinct (taken (tr @ [])) \<and> map upd_id (called (tr @ [])) = [5, 6]"
    by (simp add: update_of_def has_text_def)
  with run show ?thesis unfolding body_def [symmetric] by (intro exI conjI) auto
qed

section \<open>White space\<close>

definition white :: "string \<Rightarrow> bool" where
  "white s \<longleftrightarrow> (\<exists>ps. set ps \<subseteq> set space_seqs \<and> s = concat ps)"

lemma space_prefix_free:
  assumes "p \<in> set space_seqs" and "q \<in> set space_seqs" and "has_prefix p q"
  shows "p = q"
proof -
  have "list_all (\<lambda>p. list_all (\<lambda>q. has_prefix p q \<longrightarrow> p = q) space_seqs) space_seqs" by code_simp
  with assms show ?thesis by (auto simp: list_all_iff)
qed

lemma space_len_space:
  assumes "p \<in> set space_seqs"
  shows "space_len (p @ t) = length p"
proof -
  have "has_prefix p (p @ t)" by simp
  with assms obtain q where q: "find (\<lambda>p'. has_prefix p' (p @ t)) space_seqs = Some q"
    by (metis find_NoneD option.exhaust)
  then have in_q: "q \<in> set space_seqs" and "has_prefix q (p @ t)" by (auto dest: find_SomeD)
  then obtain r where "p @ t = q @ r" by (auto simp: has_prefix_iff)
  then have "has_prefix p q \<or> has_prefix q p" by (auto simp: append_eq_append_conv2 has_prefix_iff)
  with space_prefix_free assms in_q have "p = q" by blast
  then show ?thesis using q by (simp add: space_len_def)
qed

lemma fields_word: "word \<noteq> [] \<Longrightarrow> fields_from word s \<noteq> []"
  by (induction word s rule: fields_from.induct) (subst fields_from.simps, auto split: list.splits)

lemma fields_white: "set ps \<subseteq> set space_seqs \<Longrightarrow> fields_from [] (concat ps) = []"
proof (induction ps)
  case Nil
  then show ?case by (simp add: fields_from.simps)
next
  case (Cons p ps)
  then have p: "p \<noteq> []" "space_len (p @ concat ps) = length p" by (auto simp: space_len_space dest: space_seqs_nonempty)
  then obtain c cs where "p = c # cs" by (cases p) auto
  with p Cons show ?case by (subst fields_from.simps) auto
qed

lemma white_fields: "fields_from word s = [] \<Longrightarrow> word = [] \<and> white s"
proof (induction word s rule: fields_from.induct)
  case (1 word s)
  from 1(3) have word: "word = []" using fields_word by blast
  show ?case
  proof (cases s)
    case Nil
    have "white []" unfolding white_def by (rule exI [of _ "[]"]) simp
    with Nil word show ?thesis by simp
  next
    case (Cons c cs)
    with 1(3) word fields_word [of "[c]" cs] have len: "space_len s \<noteq> 0" "fields_from [] (drop (space_len s) s) = []"
      by (subst (asm) fields_from.simps; auto split: if_splits)+
    then obtain p where p: "p \<in> set space_seqs" "has_prefix p s" "space_len s = length p"
      by (auto simp: space_len_def split: option.splits dest: find_SomeD)
    from 1(2) [OF Cons len(1)] len(2) obtain ps where ps: "set ps \<subseteq> set space_seqs" "drop (space_len s) s = concat ps"
      by (auto simp: white_def)
    have "s = concat (p # ps)" using p(2,3) ps(2) by (auto simp: has_prefix_iff)
    moreover have "set (p # ps) \<subseteq> set space_seqs" using p(1) ps(1) by simp
    ultimately show ?thesis using word unfolding white_def by blast
  qed
qed

lemma Fields_empty: "Fields s = [] \<longleftrightarrow> white s"
  using fields_white white_fields by (auto simp: Fields_def white_def)

section \<open>How the bot ends the process\<close>

definition crashing :: "int list \<Rightarrow> update \<Rightarrow> bool" where
  "crashing allow u \<longleftrightarrow> (case upd_message u of None \<Rightarrow> False
     | Some m \<Rightarrow> from_id m \<in> set allow \<and> in_text m \<noteq> [] \<and> white (in_text m))"

lemma handle_panics: "handle cfg token allow m w = None \<longleftrightarrow> from_id m \<in> set allow \<and> white (in_text m)"
  using Fields_empty [of "in_text m"] by (auto simp: handle_def split: list.splits)

lemma take_updates_panics:
  "take_updates cfg token allow us offset w = None \<longleftrightarrow> (\<exists>u \<in> set us. crashing allow u)"
proof (induction us arbitrary: offset w)
  case (Cons u us)
  show ?case
  proof (cases "upd_message u")
    case (Some m)
    then show ?thesis
      using Cons.IH handle_panics [of cfg token allow m w]
      by (cases "handle cfg token allow m w") (auto simp: Let_def crashing_def)
  qed (simp add: Cons.IH Let_def crashing_def)
qed simp

text \<open>C31. The bot ends the whole process, by a panic in its goroutine, in exactly two ways: with a
  token that makes no URL at the first poll, and when a sender on the allow-list sends a message
  that consists of white space only.\<close>

theorem bot_crash_iff:
  "runBot cfg token allow [(others, net)] offset w = None \<longleftrightarrow>
     \<not> url_parses (poll_url token offset) \<or>
     (\<exists>us. getUpdates net token offset = Polled us \<and> (\<exists>u \<in> set us. crashing allow u))"
proof -
  have panic: "getUpdates net token offset = PollPanic \<longleftrightarrow> \<not> url_parses (poll_url token offset)"
    by (auto simp: getUpdates_def Let_def split: api_answer.split option.split)
  show ?thesis
  proof (cases "getUpdates net token offset")
    case (Polled us)
    then show ?thesis
      using take_updates_panics [of cfg token allow us offset "others w"] panic
      by (cases "take_updates cfg token allow us offset (others w)") (auto simp: Let_def)
  qed (use panic in simp_all)
qed

theorem bot_crash_iff_witness:
  "crashing [7] (update_of (5, '' '')) \<and> \<not> url_parses (poll_url (''1:t'' @ [newline]) 0) \<and>
     runBot demo_bot (''1:t'' @ [newline]) [7] [(\<lambda>w. w, \<lambda>_. NoAnswer [])] 0 office = None"
proof -
  have "\<not> url_parses (poll_url (''1:t'' @ [newline]) 0)" by code_simp
  moreover have "Fields '' '' = []" by code_simp
  then have "white '' ''" by (simp add: Fields_empty)
  ultimately show ?thesis
    using bot_crash_iff [of demo_bot "''1:t'' @ [newline]" "[7]" "\<lambda>w. w" "\<lambda>_. NoAnswer []" 0 office]
    by (simp add: crashing_def update_of_def)
qed

text \<open>An answer of the API that is an error (an object without a result, as for a revoked token)
  counts as an empty batch whatever its status: the loop asks again at once, as often as the answer
  comes, while a network error makes it wait for three seconds.\<close>

theorem rejected_poll_spins:
  assumes "url_parses (poll_url token offset)" and "parse_json body = Some (JObj ms)"
    and "list_all (\<lambda>(name, v). fold_name name \<noteq> ''result'') ms"
  shows "runBot cfg token allow (replicate n (\<lambda>w. w, \<lambda>_. Answer code body)) offset w = Some ([], offset, w)"
proof -
  have "decode_members False [(''result'', list_field json_update (\<lambda>us _. us))] ms [] = Some []"
    using assms(3) by (induction ms) auto
  then have "getUpdates (\<lambda>_. Answer code body) token offset = Polled []"
    using assms(1,2) by (simp add: getUpdates_def unmarshal_updates_def decode_struct_def Let_def)
  then show ?thesis by (induction n) (simp_all add: Let_def)
qed

theorem rejected_poll_spins_witness:
  "runBot demo_bot ''1:t'' [7] (replicate 1000 (\<lambda>w. w, \<lambda>_. Answer 401 (render (JObj [(''ok'', JBool False)])))) 0 office
     = Some ([], 0, office)"
proof (rule rejected_poll_spins)
  show "url_parses (poll_url ''1:t'' 0)" by code_simp
  have "json_ok (JObj [(''ok'', JBool False)])" by code_simp
  from parse_json_render [OF this] show "parse_json (render (JObj [(''ok'', JBool False)])) = Some (JObj [(''ok'', JBool False)])" .
  show "list_all (\<lambda>(name, v). fold_name name \<noteq> ''result'') [(''ok'', JBool False)]" by (simp add: fold_api_names)
qed

end
