(* ===== verification/Agent.thy ===== *)
theory Agent
  imports Config_Client Go_Env Json_Indent "HOL-Library.List_Lexorder"
begin

text \<open>
  \<open>cmd/agent/main.go\<close>: the sidecar that embeds the client and writes the configuration to a file,
  as dotenv lines or as JSON, after every message, and then runs a command. A map is given with the
  order in which a loop visits its keys.
\<close>

section \<open>The files\<close>

text \<open>\<open>quoteEnv\<close>: the three replacements of the replacer never overlap.\<close>

definition quote_env_char :: "char \<Rightarrow> string" where
  "quote_env_char c = (if c = backslash then [backslash, backslash]
     else if c = quote then [backslash, quote]
     else if c = newline then [backslash, CHR ''n''] else [c])"

definition quoteEnv :: "string \<Rightarrow> string" where
  "quoteEnv v = quote # concat (map quote_env_char v) @ [quote]"

text \<open>\<open>sort.Strings\<close> orders by bytes.\<close>

definition sorted_items :: "string list \<Rightarrow> config \<Rightarrow> (string \<times> string) list" where
  "sorted_items keys all = map (\<lambda>k. (k, Get all k)) (sort keys)"

definition env_line :: "string \<times> string \<Rightarrow> string" where
  "env_line kv = fst kv @ CHR ''='' # quoteEnv (snd kv) @ [newline]"

text \<open>\<open>json.MarshalIndent\<close> of a map of strings: its keys sorted, one member to a line.\<close>

definition MarshalIndent :: "(string \<times> string) list \<Rightarrow> string" where
  "MarshalIndent kvs = pretty 0 (string_map kvs)"

definition file_data :: "string \<Rightarrow> string list \<Rightarrow> config \<Rightarrow> string" where
  "file_data format keys all = (if format = ''json'' then MarshalIndent (sorted_items keys all)
     else concat (map env_line (sorted_items keys all)))"

section \<open>Writing\<close>

text \<open>
  The calls of the operating system may fail; a write may fail with a part of the
  data written.
  The result lists the states that the files pass through, the last one first.
\<close>

type_synonym files = "string \<rightharpoonup> string"

record os_calls =
  os_mkdir :: bool
  os_open :: bool
  os_write :: "nat option"
  os_rename :: bool

definition writeFile :: "os_calls \<Rightarrow> string \<Rightarrow> string \<Rightarrow> string list \<Rightarrow> config \<Rightarrow> files \<Rightarrow> bool \<times> files list" where
  "writeFile os path format keys all fs = (let data = file_data format keys all; tmp = path @ ''.tmp'' in
     if \<not> os_mkdir os \<or> \<not> os_open os then (False, [fs])
     else (case os_write os of
         Some n \<Rightarrow> (False, [fs(tmp \<mapsto> take n data), fs])
       | None \<Rightarrow> (let fs1 = fs(tmp \<mapsto> data) in
           if \<not> os_rename os then (False, [fs1, fs])
           else (True, [fs1(tmp := None, path \<mapsto> data), fs1, fs]))))"

section \<open>The process\<close>

definition isConfigKey :: "string \<Rightarrow> bool" where
  "isConfigKey k \<longleftrightarrow>
     k \<notin> set ['''', ''CONFIG_SERVICE_ADDR'', ''CONFIG_SERVICE_KEY'', ''AGENT_OUTPUT_FILE'', ''AGENT_FORMAT'',
       ''AGENT_ON_CHANGE''] \<and> upper_snake k"

definition defaultsFromEnv :: "string list \<Rightarrow> config" where
  "defaultsFromEnv environ = env_defaults isConfigKey environ Map.empty"

record agent_config =
  ag_addr :: string
  ag_key :: string
  ag_out :: string
  ag_format :: string
  ag_on_change :: string
  ag_defaults :: config

datatype agent_fatal = KeyAndFileRequired | BadFormat string

definition agent_main :: "string list \<Rightarrow> agent_fatal + agent_config" where
  "agent_main environ = (let key = Getenv environ ''CONFIG_SERVICE_KEY''; out = Getenv environ ''AGENT_OUTPUT_FILE'';
       format = env_or environ ''AGENT_FORMAT'' ''env'' in
     if key = [] \<or> out = [] then Inl KeyAndFileRequired
     else if format \<noteq> ''env'' \<and> format \<noteq> ''json'' then Inl (BadFormat format)
     else Inr \<lparr>ag_addr = env_or environ ''CONFIG_SERVICE_ADDR'' ''dynoconf-grpc.dynoconf.svc.cluster.local:9090'',
       ag_key = key, ag_out = out, ag_format = format, ag_on_change = Getenv environ ''AGENT_ON_CHANGE'',
       ag_defaults = defaultsFromEnv environ\<rparr>)"

text \<open>
  The state: the client, the states of the files (the last one first), and the runs of the command,
  each with what the output file held when it ran.
\<close>

record agent =
  ag_client :: client
  ag_files :: "files list"
  ag_runs :: "(string \<times> string option) list"

definition render_all :: "agent_config \<Rightarrow> os_calls \<Rightarrow> string list \<Rightarrow> config \<Rightarrow> agent \<Rightarrow> agent" where
  "render_all cfg os keys all a =
     (let (ok, fss) = writeFile os (ag_out cfg) (ag_format cfg) keys all (hd (ag_files a));
          a' = a\<lparr>ag_files := fss @ tl (ag_files a)\<rparr>
      in if ok \<and> ag_on_change cfg \<noteq> []
         then a'\<lparr>ag_runs := ag_runs a @ [(ag_on_change cfg, hd (ag_files a') (ag_out cfg))]\<rparr>
         else a')"

text \<open>The two hooks of the client; \<open>OnChange\<close> loads the whole configuration again.\<close>

definition agent_hook :: "agent_config \<Rightarrow> os_calls \<Rightarrow> string list \<Rightarrow> hook \<Rightarrow> agent \<Rightarrow> agent" where
  "agent_hook cfg os keys h a = (case h of
      OnSnapshot all \<Rightarrow> render_all cfg os keys all a
    | OnChange k v deleted \<Rightarrow> render_all cfg os keys (cl_current (ag_client a)) a)"

definition agent_event :: "agent_config \<Rightarrow> os_calls \<Rightarrow> string list \<Rightarrow> config_event \<Rightarrow> agent \<Rightarrow> agent" where
  "agent_event cfg os keys ev a = (let (c, hooks) = on_event ev (ag_client a) in
     fold (agent_hook cfg os keys) hooks (a\<lparr>ag_client := c\<rparr>))"

definition agent_start :: "agent_config \<Rightarrow> files \<Rightarrow> agent" where
  "agent_start cfg fs = \<lparr>ag_client = NewClient (ag_defaults cfg), ag_files = [fs], ag_runs = []\<rparr>"

text \<open>A run: the messages, with the fate of the calls and the order of the keys for each.\<close>

fun agent_run :: "agent_config \<Rightarrow> (os_calls \<times> string list \<times> config_event) list \<Rightarrow> agent \<Rightarrow> agent" where
  "agent_run cfg [] a = a"
| "agent_run cfg ((os, keys, ev) # evs) a = agent_run cfg evs (agent_event cfg os keys ev a)"

end
