(* ===== verification/Agent_Properties.thy ===== *)
theory Agent_Properties
  imports Agent
begin

text \<open>
  What a program that reads the file of the agent can rely on: what a shell gets from the dotenv file,
  that the JSON file can be read back, that the file is never seen half written, and that it follows the client.
\<close>

section \<open>The dotenv file\<close>

text \<open>
  \<open>quoteEnv\<close> means to make the file safe to source. How a POSIX shell reads a word in double quotes: a
  backslash is special before the dollar sign, the backquote, the double quote, the backslash and the line feed
  only; a dollar sign or a backquote that is not escaped starts an expansion, which is None here.
\<close>

definition expands :: "char \<Rightarrow> bool" where
  "expands c \<longleftrightarrow> c = CHR ''$'' \<or> c = CHR 0x60"







lemma special_chars [simp]:
  "newline \<noteq> quote" "newline \<noteq> backslash" "quote \<noteq> newline" "backslash \<noteq> newline" "CHR ''n'' \<noteq> quote" "CHR ''n'' \<noteq> backslash"
  "quote \<noteq> CHR ''n''" "backslash \<noteq> CHR ''n''" "newline \<noteq> CHR ''n''" "CHR ''n'' \<noteq> newline"
  by (simp_all add: newline_def quote_def backslash_def)

lemma expands_simps [simp]: "\<not> expands quote" "\<not> expands backslash" "\<not> expands newline" "\<not> expands (CHR ''n'')"
  by (simp_all add: expands_def quote_def backslash_def newline_def)








lemma sorted_items_facts:
  assumes "set keys = dom all" and "distinct keys"
  shows "map_of (sorted_items keys all) = all" and "sorted (map fst (sorted_items keys all))"
    and "distinct (map fst (sorted_items keys all))" and "fst ` set (sorted_items keys all) = dom all"
proof -
  have "map_of (map (\<lambda>k. (k, Get all k)) ks) k = (if k \<in> set ks then Some (Get all k) else None)" for ks k
    by (induction ks) auto
  then have "map_of (sorted_items keys all) k = all k" for k
    using assms(1) by (auto simp: sorted_items_def Get_def dom_def split: option.splits)
  then show "map_of (sorted_items keys all) = all" by blast
  show "sorted (map fst (sorted_items keys all))" "distinct (map fst (sorted_items keys all))"
    and "fst ` set (sorted_items keys all) = dom all"
    using assms by (simp_all add: sorted_items_def comp_def image_image)
qed




definition demo_config :: config where
  "demo_config = [''b'' \<mapsto> [quote, newline, backslash], ''a'' \<mapsto> ''1'']"


section \<open>The JSON file\<close>

text \<open>The JSON file parses to one object with exactly the configuration, the keys in order, when its
  keys and values are valid UTF-8, as texts of the database are.\<close>

theorem json_file_roundtrip:
  assumes "set keys = dom all" and "distinct keys" and "\<forall>(k, v) \<in> Map.graph all. utf8_valid k \<and> utf8_valid v"
  shows "\<exists>kvs. parse_json (file_data ''json'' keys all) = Some (string_map kvs) \<and>
     map_of kvs = all \<and> sorted (map fst kvs) \<and> distinct (map fst kvs)"
proof -
  note items = sorted_items_facts [OF assms(1,2)]
  let ?kvs = "sorted_items keys all"
  have "utf8_valid (fst kv) \<and> utf8_valid (snd kv)" if "kv \<in> set ?kvs" for kv
  proof -
    have "map_of ?kvs (fst kv) = Some (snd kv)" using map_of_is_SomeI [OF items(3)] that by simp
    then have "(fst kv, snd kv) \<in> Map.graph all" unfolding items(1) by (rule in_graphI)
    with assms(3) show ?thesis by blast
  qed
  then have ok: "json_ok (string_map ?kvs)" by (auto simp: string_map_def list_all_iff)
  have "parse_json (MarshalIndent ?kvs) = Some (string_map ?kvs)"
    using parse_pretty [OF ok, of 0 "Suc (length (MarshalIndent ?kvs))" "[]"]
    by (simp add: MarshalIndent_def parse_json_def)
  then show ?thesis using items(1-3) by (auto simp: file_data_def)
qed

theorem json_file_roundtrip_witness:
  "\<exists>kvs. parse_json (file_data ''json'' [''b'', ''a''] demo_config) = Some (string_map kvs) \<and>
     map_of kvs ''b'' = Some [quote, newline, backslash]"
proof -
  have "set [''b'', ''a''] = dom demo_config" by (auto simp: demo_config_def)
  moreover have "demo_config ''b'' = Some [quote, newline, backslash]" by (simp add: demo_config_def)
  moreover have "\<forall>(k, v) \<in> Map.graph demo_config. utf8_valid k \<and> utf8_valid v"
    by (auto simp: demo_config_def Map.graph_def newline_def split: if_splits)
  ultimately show ?thesis using json_file_roundtrip [of "[''b'', ''a'']" demo_config] by force
qed

section \<open>The file over time\<close>

definition complete_file :: "agent_config \<Rightarrow> config list \<Rightarrow> string option \<Rightarrow> bool" where
  "complete_file cfg cs x \<longleftrightarrow> (\<exists>c \<in> set cs. \<exists>keys. set keys = dom c \<and> distinct keys \<and>
     x = Some (file_data (ag_format cfg) keys c))"

text \<open>The configurations that the client goes through.\<close>

fun configs :: "config_event list \<Rightarrow> client \<Rightarrow> config list" where
  "configs [] c = []"
| "configs (ev # evs) c = (let c' = fst (on_event ev c) in cl_current c' # configs evs c')"

text \<open>Each rendering visits every key of the map once.\<close>

fun visits :: "(os_calls \<times> string list \<times> config_event) list \<Rightarrow> client \<Rightarrow> bool" where
  "visits [] c = True"
| "visits ((os, keys, ev) # evs) c = (let c' = fst (on_event ev c) in
     set keys = dom (cl_current c') \<and> distinct keys \<and> visits evs c')"

lemma writeFile_states:
  assumes "writeFile os path format keys all fs = (ok, fss)"
  shows "fss \<noteq> []" and "fs' \<in> set fss \<Longrightarrow> fs' path = fs path \<or> fs' path = Some (file_data format keys all)"
    and "ok \<Longrightarrow> hd fss path = Some (file_data format keys all)"
    and "hd fss path = fs path \<or> hd fss path = Some (file_data format keys all)"
  using assms by (auto simp: writeFile_def Let_def split: if_splits option.splits)

lemma agent_event_eq:
  "agent_event cfg os keys ev a = (let c = fst (on_event ev (ag_client a)) in
     case ev of Heartbeat t \<Rightarrow> a\<lparr>ag_client := c\<rparr>
       | _ \<Rightarrow> render_all cfg os keys (cl_current c) (a\<lparr>ag_client := c\<rparr>))"
  by (cases ev) (simp_all add: agent_event_def on_event_def agent_hook_def Let_def)

lemma render_all_client [simp]: "ag_client (render_all cfg os keys all a) = ag_client a"
  by (simp add: render_all_def Let_def split: prod.split)

lemma agent_event_client: "ag_client (agent_event cfg os keys ev a) = fst (on_event ev (ag_client a))"
  by (cases ev) (simp_all add: agent_event_eq Let_def)

definition agent_ok :: "agent_config \<Rightarrow> string option \<Rightarrow> config list \<Rightarrow> agent \<Rightarrow> bool" where
  "agent_ok cfg x0 cs a \<longleftrightarrow> ag_files a \<noteq> [] \<and>
     (\<forall>fs \<in> set (ag_files a). fs (ag_out cfg) = x0 \<or> complete_file cfg cs (fs (ag_out cfg))) \<and>
     (\<forall>(cmd, x) \<in> set (ag_runs a). complete_file cfg cs x)"

lemma render_all_ok:
  assumes "agent_ok cfg x0 cs a" and "set cs \<subseteq> set cs'" and "all \<in> set cs'"
    and "set keys = dom all" and "distinct keys"
  shows "agent_ok cfg x0 cs' (render_all cfg os keys all a)"
proof -
  obtain ok fss where w: "writeFile os (ag_out cfg) (ag_format cfg) keys all (hd (ag_files a)) = (ok, fss)" by fastforce
  note states = writeFile_states [OF w]
  have mono: "complete_file cfg cs x \<Longrightarrow> complete_file cfg cs' x" for x
    using assms(2) by (auto simp: complete_file_def)
  have new: "complete_file cfg cs' (Some (file_data (ag_format cfg) keys all))"
    using assms(3-5) by (auto simp: complete_file_def)
  have old: "hd (ag_files a) (ag_out cfg) = x0 \<or> complete_file cfg cs' (hd (ag_files a) (ag_out cfg))"
    using assms(1) mono by (auto simp: agent_ok_def)
  have "fs (ag_out cfg) = x0 \<or> complete_file cfg cs' (fs (ag_out cfg))" if "fs \<in> set (fss @ tl (ag_files a))" for fs
  proof (cases "fs \<in> set fss")
    case True
    with states(2) old new show ?thesis by metis
  next
    case False
    with that have "fs \<in> set (ag_files a)" using list.set_sel(2) [of "ag_files a"] assms(1) by (auto simp: agent_ok_def)
    with assms(1) mono show ?thesis by (auto simp: agent_ok_def)
  qed
  moreover have "complete_file cfg cs' (hd fss (ag_out cfg))" if ok using states(3) [OF that] new by simp
  moreover have "\<forall>(cmd, x) \<in> set (ag_runs a). complete_file cfg cs' x" using assms(1) mono by (auto simp: agent_ok_def)
  ultimately show ?thesis using states(1) by (auto simp: agent_ok_def render_all_def w Let_def)
qed

lemma agent_run_ok:
  "agent_ok cfg x0 cs a \<Longrightarrow> visits evs (ag_client a) \<Longrightarrow>
     agent_ok cfg x0 (cs @ configs (map (snd \<circ> snd) evs) (ag_client a)) (agent_run cfg evs a)"
proof (induction cfg evs a arbitrary: cs rule: agent_run.induct)
  case (2 cfg os keys ev evs a)
  let ?c = "fst (on_event ev (ag_client a))"
  have "agent_ok cfg x0 (cs @ [cl_current ?c]) (agent_event cfg os keys ev a)"
  proof (cases "\<exists>t. ev = Heartbeat t")
    case True
    with 2(2) show ?thesis by (fastforce simp: agent_event_eq agent_ok_def complete_file_def Let_def)
  next
    case False
    then have "agent_event cfg os keys ev a = render_all cfg os keys (cl_current ?c) (a\<lparr>ag_client := ?c\<rparr>)"
      by (cases ev) (simp_all add: agent_event_eq Let_def)
    moreover have "agent_ok cfg x0 cs (a\<lparr>ag_client := ?c\<rparr>)" using 2(2) by (simp add: agent_ok_def)
    ultimately show ?thesis using 2(3) by (simp only:) (rule render_all_ok, auto simp: Let_def)
  qed
  from 2(1) [OF this] 2(3) show ?case by (simp add: agent_event_client Let_def)
qed simp

text \<open>C33. Never half written: whatever fails, in every state that the files pass through the output file
  is what it was at the start or the complete file of a configuration that the client had; and every
  run of the command found such a complete file.\<close>


theorem file_never_torn:
  assumes "a = agent_run cfg evs (agent_start cfg fs)"
    and "cs = configs (map (snd \<circ> snd) evs) (NewClient (ag_defaults cfg))"
    and "visits evs (NewClient (ag_defaults cfg))"
  shows "(\<forall>fs' \<in> set (ag_files a). fs' (ag_out cfg) = fs (ag_out cfg) \<or> complete_file cfg cs (fs' (ag_out cfg))) \<and>
     (\<forall>(cmd, x) \<in> set (ag_runs a). complete_file cfg cs x)"
proof -
  have "agent_ok cfg (fs (ag_out cfg)) [] (agent_start cfg fs)" by (simp add: agent_ok_def agent_start_def)
  from agent_run_ok [OF this, of evs] assms(3) show ?thesis by (simp add: agent_ok_def assms(1,2) agent_start_def)
qed

definition demo_agent :: agent_config where
  "demo_agent = \<lparr>ag_addr = ''a'', ag_key = ''svc'', ag_out = ''f'', ag_format = ''env'', ag_on_change = ''reload'',
     ag_defaults = Map.empty\<rparr>"

definition demo_var :: "string \<Rightarrow> pb_variable" where
  "demo_var v = \<lparr>pb_key = ''K'', pb_value = v, pb_version = 1\<rparr>"

definition all_fine :: os_calls where
  "all_fine = \<lparr>os_mkdir = True, os_open = True, os_write = None, os_rename = True\<rparr>"

text \<open>A snapshot that is written, and a change whose write breaks off after three bytes.\<close>

definition demo_events :: "(os_calls \<times> string list \<times> config_event) list" where
  "demo_events = [(all_fine, [''K''], Snapshot [demo_var ''1'']),
     (all_fine\<lparr>os_write := Some 3\<rparr>, [''K''], Change UPSERT (demo_var ''2''))]"

theorem file_never_torn_witness:
  "\<exists>fs. hd (ag_files (agent_run demo_agent demo_events (agent_start demo_agent Map.empty))) = fs \<and>
     fs ''f.tmp'' \<noteq> None \<and> fs ''f'' \<noteq> None \<and>
     complete_file demo_agent (configs (map (snd \<circ> snd) demo_events) (NewClient Map.empty)) (fs ''f'')"
proof -
  let ?a = "agent_run demo_agent demo_events (agent_start demo_agent Map.empty)"
  let ?fs = "hd (ag_files ?a)"
  have some: "ag_files ?a \<noteq> []" "?fs ''f.tmp'' \<noteq> None" "?fs ''f'' \<noteq> None"
    by (simp_all add: demo_events_def agent_event_eq render_all_def writeFile_def demo_agent_def agent_start_def
        all_fine_def Let_def)
  have out: "ag_out demo_agent = ''f''" "ag_defaults demo_agent = Map.empty" by (simp_all add: demo_agent_def)
  have mem: "?fs \<in> set (ag_files ?a)" using some(1) by (rule hd_in_set)
  have "visits demo_events (NewClient (ag_defaults demo_agent))"
    by (simp add: demo_events_def out on_event_def NewClient_def rebuild_def put_variables_def demo_var_def Let_def)
  from bspec [OF conjunct1 [OF file_never_torn [OF refl refl this, of Map.empty]] mem] some(2,3)
  show ?thesis unfolding out by (intro exI [of _ ?fs] conjI) simp_all
qed

lemma agent_run_client:
  "client_inv (ag_client b) \<Longrightarrow>
     client_inv (ag_client (agent_run cfg evs b)) \<and> cl_defaults (ag_client (agent_run cfg evs b)) = cl_defaults (ag_client b)"
  by (induction cfg evs b rule: agent_run.induct) (auto simp: agent_event_client client_inv_event)

lemma agent_start_client: "client_inv (ag_client (agent_start cfg fs))" "cl_defaults (ag_client (agent_start cfg fs)) = ag_defaults cfg"
  by (simp_all add: agent_start_def client_inv_new) (simp add: NewClient_def)

text \<open>C34. The file follows: after any history, a message whose write succeeds leaves a file with exactly
  the configuration that the client has then, which is its defaults overlaid with the values of the
  server, and the command runs once, after the file is in place; if the write fails, the old file
  stays and the command does not run.\<close>

theorem file_follows_client:
  assumes "a = agent_run cfg evs (agent_start cfg fs)" and "\<forall>t. ev \<noteq> Heartbeat t"
    and "a' = agent_event cfg os keys ev a"
  shows "if os_mkdir os \<and> os_open os \<and> os_write os = None \<and> os_rename os
    then hd (ag_files a') (ag_out cfg) = Some (file_data (ag_format cfg) keys (cl_current (ag_client a'))) \<and>
      cl_current (ag_client a') = ag_defaults cfg ++ cl_overrides (ag_client a') \<and>
      ag_runs a' = ag_runs a @ (if ag_on_change cfg = [] then []
        else [(ag_on_change cfg, hd (ag_files a') (ag_out cfg))])
    else hd (ag_files a') (ag_out cfg) = hd (ag_files a) (ag_out cfg) \<and> ag_runs a' = ag_runs a"
proof -
  let ?c = "fst (on_event ev (ag_client a))"
  have inv: "client_inv ?c" "cl_defaults ?c = ag_defaults cfg"
    using agent_run_client [OF agent_start_client(1), of cfg evs cfg fs] agent_start_client(2) [of cfg fs] assms(1)
    by (simp_all add: client_inv_event)
  have event: "a' = render_all cfg os keys (cl_current ?c) (a\<lparr>ag_client := ?c\<rparr>)"
    using assms(2,3) by (cases ev) (simp_all add: agent_event_eq Let_def)
  obtain ok fss where w: "writeFile os (ag_out cfg) (ag_format cfg) keys (cl_current ?c) (hd (ag_files a)) = (ok, fss)"
    by fastforce
  have ok: "ok \<longleftrightarrow> os_mkdir os \<and> os_open os \<and> os_write os = None \<and> os_rename os"
    and kept: "\<not> ok \<Longrightarrow> hd fss (ag_out cfg) = hd (ag_files a) (ag_out cfg)"
    using w by (auto simp: writeFile_def Let_def split: if_splits option.splits)
  have "ag_client a' = ?c" by (simp add: event)
  moreover have "hd (ag_files a') = hd fss" using writeFile_states(1) [OF w] by (simp add: event render_all_def w Let_def)
  moreover have "ag_runs a' = ag_runs a @ (if ok \<and> ag_on_change cfg \<noteq> [] then [(ag_on_change cfg, hd fss (ag_out cfg))] else [])"
    using writeFile_states(1) [OF w] by (simp add: event render_all_def w Let_def)
  ultimately show ?thesis
    using inv kept writeFile_states(3) [OF w] unfolding ok client_inv_def by auto
qed

theorem file_follows_client_witness:
  "hd (ag_files (agent_run demo_agent (take 1 demo_events) (agent_start demo_agent Map.empty))) ''f'' =
     Some (file_data ''env'' [''K''] (cl_current (ag_client
       (agent_run demo_agent (take 1 demo_events) (agent_start demo_agent Map.empty)))))"
proof -
  let ?ev = "Snapshot [demo_var ''1'']"
  have "agent_run demo_agent (take 1 demo_events) (agent_start demo_agent Map.empty) =
      agent_event demo_agent all_fine [''K''] ?ev (agent_run demo_agent [] (agent_start demo_agent Map.empty))"
    by (simp add: demo_events_def)
  moreover have "\<forall>t. ?ev \<noteq> Heartbeat t" by simp
  ultimately show ?thesis using file_follows_client [OF refl, of ?ev _ demo_agent all_fine "[''K'']" "[]" Map.empty]
    by (simp add: demo_agent_def all_fine_def)
qed

end
