(* ===== verification/Watch_Example.thy ===== *)
theory Watch_Example
  imports Agent
begin

text \<open>
  \<open>examples/go-client/main.go\<close>: the example that watches one key. Its output is its log; \<open>q\<close> stands
  for \<open>%q\<close> of \<open>fmt\<close>.
\<close>

definition watch_isConfigKey :: "string \<Rightarrow> bool" where
  "watch_isConfigKey k \<longleftrightarrow>
     \<not> (k = '''' \<or> k = ''CONFIG_SERVICE_ADDR'' \<or> k = ''CONFIG_SERVICE_KEY'' \<or> k = ''WATCH_KEY'') \<and> upper_snake k"

definition watch_defaults :: "string list \<Rightarrow> config" where
  "watch_defaults environ = env_defaults watch_isConfigKey environ Map.empty"

definition sortedKeys :: "string list \<Rightarrow> string list" where
  "sortedKeys keys = sort keys"

record watch_config =
  wc_addr :: string
  wc_key :: string
  wc_watch :: string
  wc_defaults :: config

text \<open>None is the fatal error of a missing service key.\<close>

definition watch_main :: "string list \<Rightarrow> watch_config option" where
  "watch_main environ = (let key = env_or environ ''CONFIG_SERVICE_KEY'' '''' in
     if key = [] then None
     else Some \<lparr>wc_addr = env_or environ ''CONFIG_SERVICE_ADDR'' ''localhost:9090'', wc_key = key,
       wc_watch = env_or environ ''WATCH_KEY'' ''GREETING'', wc_defaults = watch_defaults environ\<rparr>)"

definition snapshot_log :: "(string \<Rightarrow> string) \<Rightarrow> string list \<Rightarrow> config \<Rightarrow> string list" where
  "snapshot_log q keys all = (''snapshot: '' @ digits (length keys) @ '' variables now in config:'') #
     map (\<lambda>k. ''    '' @ k @ '' = '' @ q (Get all k)) (sortedKeys keys)"

definition change_log :: "(string \<Rightarrow> string) \<Rightarrow> string \<Rightarrow> string \<Rightarrow> string \<Rightarrow> bool \<Rightarrow> string list" where
  "change_log q watch k v deleted = (if k \<noteq> watch then []
     else if deleted then [''WATCH '' @ k @ '' deleted -> fell back to default '' @ q v]
     else [''WATCH '' @ k @ '' changed -> '' @ q v])"

text \<open>What a message prints, given the order in which a loop visits the keys.\<close>

definition watch_hook :: "(string \<Rightarrow> string) \<Rightarrow> string \<Rightarrow> string list \<Rightarrow> hook \<Rightarrow> string list" where
  "watch_hook q watch keys h = (case h of
      OnSnapshot all \<Rightarrow> snapshot_log q keys all
    | OnChange k v deleted \<Rightarrow> change_log q watch k v deleted)"

definition watch_event ::
  "(string \<Rightarrow> string) \<Rightarrow> string \<Rightarrow> string list \<Rightarrow> config_event \<Rightarrow> client \<Rightarrow> client \<times> string list" where
  "watch_event q watch keys ev c = (let (c', hooks) = on_event ev c in
     (c', concat (map (watch_hook q watch keys) hooks)))"

text \<open>The line of every fifth second; the number of keys is that of the current configuration.\<close>

definition poll_line :: "(string \<Rightarrow> string) \<Rightarrow> string \<Rightarrow> string list \<Rightarrow> client \<Rightarrow> string" where
  "poll_line q watch keys c = ''[poll] '' @ watch @ '' = '' @ q (Get (cl_current c) watch) @ '' ('' @
     digits (length keys) @ '' keys total)''"

text \<open>
  The process after its start: the messages that its client takes, the ticks, and the end of the context.
  Each comes with the order in which a loop visits the keys.
\<close>

datatype watch_input = WMessage "string list" config_event | WTick "string list" | WStop

fun watch_run :: "(string \<Rightarrow> string) \<Rightarrow> string \<Rightarrow> watch_input list \<Rightarrow> client \<Rightarrow> string list" where
  "watch_run q watch [] c = []"
| "watch_run q watch (WMessage keys ev # is) c =
     (let (c', ls) = watch_event q watch keys ev c in ls @ watch_run q watch is c')"
| "watch_run q watch (WTick keys # is) c = poll_line q watch keys c # watch_run q watch is c"
| "watch_run q watch (WStop # is) c = [''shutting down'']"

text \<open>A tick shows the value that the messages so far have left, laid over the defaults.\<close>

fun messages :: "watch_input list \<Rightarrow> config_event list" where
  "messages (WMessage keys ev # is) = ev # messages is"
| "messages (_ # is) = messages is"
| "messages [] = []"

lemma watch_run_append:
  "WStop \<notin> set is \<Longrightarrow> watch_run q watch (is @ js) c =
     watch_run q watch is c @ watch_run q watch js (receive_all (messages is) c)"
proof (induction "is" arbitrary: c)
  case (Cons i "is")
  then show ?case
  proof (cases i)
    case (WMessage keys ev)
    obtain c' hs where ev: "on_event ev c = (c', hs)" by fastforce
    then have "receive_all (ev # messages is) c = receive_all (messages is) c'" by (simp add: receive_all_def)
    with Cons WMessage ev show ?thesis by (simp add: watch_event_def)
  qed simp_all
qed (simp add: receive_all_def)

lemma tick_shows_current:
  assumes "WStop \<notin> set is"
  shows "watch_run q watch (is @ WTick keys # js) (NewClient d) = watch_run q watch is (NewClient d) @
     (''[poll] '' @ watch @ '' = '' @ q (Get (d ++ fold apply_msg (messages is) Map.empty) watch) @ '' ('' @
        digits (length keys) @ '' keys total)'') # watch_run q watch js (receive_all (messages is) (NewClient d))"
proof -
  have "cl_current (receive_all (messages is) (NewClient d)) = d ++ fold apply_msg (messages is) Map.empty"
    using receive_all_inv [OF client_inv_new, of "messages is" d]
    by (simp add: client_inv_def receive_all_overrides) (simp add: NewClient_def)
  then show ?thesis by (simp add: watch_run_append [OF assms] poll_line_def)
qed

section \<open>The defaults\<close>

text \<open>Neither the agent nor the example takes a variable that configures it for a default of the
  service, nor any variable that is not in upper snake case; every other variable of the environment
  is a default, with its value as it is.\<close>

lemma env_defaults_exact:
  assumes "distinct (map fst (List.map_filter split_entry environ))"
  shows "defaultsFromEnv environ k = (if isConfigKey k then map_of (List.map_filter split_entry environ) k else None) \<and>
     watch_defaults environ k = (if watch_isConfigKey k then map_of (List.map_filter split_entry environ) k else None)"
proof -
  have "env_defaults ok environ out k = (case map_of (List.map_filter split_entry environ) k of
      Some v \<Rightarrow> if ok k then Some v else out k | None \<Rightarrow> out k)" for ok out
    using assms
  proof (induction environ arbitrary: out)
    case (Cons kv environ)
    show ?case
    proof (cases "split_entry kv")
      case None
      with Cons show ?thesis by (simp add: List.map_filter_simps)
    next
      case (Some e)
      obtain k' v' where e: "e = (k', v')" by fastforce
      have dist: "distinct (map fst (List.map_filter split_entry environ))"
        and new: "k' \<notin> fst ` set (List.map_filter split_entry environ)"
        using Cons.prems Some e by (simp_all add: List.map_filter_simps)
      from new have "map_of (List.map_filter split_entry environ) k' = None" by (simp add: map_of_eq_None_iff)
      then show ?thesis using Cons.IH [OF dist] Some e by (simp add: List.map_filter_simps split: option.split)
    qed
  qed (simp add: List.map_filter_simps)
  then show ?thesis by (auto simp: defaultsFromEnv_def watch_defaults_def split: option.split)
qed

end
