(* ===== verification/Cli.thy ===== *)
theory Cli
  imports Web Go_Env
begin

text \<open>
  \<open>cmd/cli/main.go\<close>: the command line client of the REST API. A run reads the environment, sends
  requests one after the other and writes to its two outputs; it ends with an exit code.
\<close>

section \<open>The run of a command\<close>

record http_call =
  hc_method :: string
  hc_url :: string
  hc_auth :: string
  hc_content :: "string option"
  hc_body :: string

text \<open>
  \<open>ce_server\<close> answers a call, given the calls before it; \<open>ce_url_error\<close> is the error of \<open>net/url\<close> for
  an address that does not parse; a file has an error text or its content.
\<close>

record cli_env =
  ce_environ :: "string list"
  ce_files :: "string \<Rightarrow> string + string"
  ce_url_error :: "string \<Rightarrow> string option"
  ce_server :: "http_call list \<Rightarrow> http_call \<Rightarrow> api_answer"

record cli_state =
  cs_out :: string
  cs_err :: string
  cs_sent :: "http_call list"

type_synonym 'a cli = "cli_state \<Rightarrow> (nat + 'a) \<times> cli_state"

definition done_with :: "'a \<Rightarrow> 'a cli" where
  "done_with x = (\<lambda>s. (Inr x, s))"

definition and_then :: "'a cli \<Rightarrow> ('a \<Rightarrow> 'b cli) \<Rightarrow> 'b cli" where
  "and_then m f = (\<lambda>s. case m s of (Inl code, s') \<Rightarrow> (Inl code, s') | (Inr x, s') \<Rightarrow> f x s')"

definition write_out :: "string \<Rightarrow> unit cli" where
  "write_out txt = (\<lambda>s. (Inr (), s\<lparr>cs_out := cs_out s @ txt\<rparr>))"

definition println :: "string \<Rightarrow> unit cli" where
  "println txt = write_out (txt @ [newline])"

definition exit_with :: "nat \<Rightarrow> string \<Rightarrow> 'a cli" where
  "exit_with code txt = (\<lambda>s. (Inl code, s\<lparr>cs_err := cs_err s @ txt @ [newline]\<rparr>))"

definition fail :: "string \<Rightarrow> 'a cli" where
  "fail msg = exit_with 1 (''error: '' @ msg)"

definition usage_text :: string where
  "usage_text = Join [''dynoconf-cli '' @ chars [0xE2, 0x80, 0x94] @ '' REST client (needs DYNOCONF_URL, DYNOCONF_TOKEN)'', [],
     ''  services                          list service keys you can see'',
     ''  get <service_key> [KEY]           print all variables, or one value'',
     ''  set <service_key> <KEY> <VALUE>   set a variable'',
     ''  export                            dump full config JSON to stdout (admin)'',
     ''  import <file.json>                import a config JSON (admin)''] [newline]"

definition usage :: "'a cli" where
  "usage = exit_with 2 usage_text"

section \<open>Requests\<close>

definition call_of :: "string \<Rightarrow> string \<Rightarrow> string \<Rightarrow> string \<Rightarrow> string option \<Rightarrow> http_call" where
  "call_of base token method path body = \<lparr>hc_method = method, hc_url = base @ path, hc_auth = ''Bearer '' @ token,
     hc_content = (if body = None then None else Some ''application/json''),
     hc_body = (case body of None \<Rightarrow> [] | Some b \<Rightarrow> b)\<rparr>"

text \<open>The client: the environment with the address and the token.\<close>

record rest_client =
  rc_env :: cli_env
  rc_base :: string
  rc_token :: string

definition do_call :: "rest_client \<Rightarrow> string \<Rightarrow> string \<Rightarrow> string option \<Rightarrow> (string \<times> nat) cli" where
  "do_call c method path body = (\<lambda>s.
     (case ce_url_error (rc_env c) (rc_base c @ path) of
        Some e \<Rightarrow> fail e s
      | None \<Rightarrow> (let call = call_of (rc_base c) (rc_token c) method path body;
                     s' = s\<lparr>cs_sent := cs_sent s @ [call]\<rparr>
          in case ce_server (rc_env c) (cs_sent s) call of
               NoAnswer e \<Rightarrow> fail e s'
             | Answer code out \<Rightarrow> (Inr (out, code), s'))))"

definition http_error :: "nat \<Rightarrow> string \<Rightarrow> string" where
  "http_error code out = ''HTTP '' @ digits code @ '': '' @ out"

text \<open>
  \<open>json.Unmarshal\<close> into a slice of structs whose error is dropped: a member that does not fit is
  passed over, a body that is not JSON or not an array leaves nothing.
\<close>

definition lenient :: "'r fields \<Rightarrow> 'r \<Rightarrow> json \<Rightarrow> 'r" where
  "lenient fs zero v = (case v of
      JObj ms \<Rightarrow> fold (\<lambda>(name, x) r. case map_of fs (fold_name name) of
          None \<Rightarrow> r
        | Some f \<Rightarrow> (case f x r of None \<Rightarrow> r | Some r' \<Rightarrow> r')) ms zero
    | _ \<Rightarrow> zero)"

definition lenient_list :: "'r fields \<Rightarrow> 'r \<Rightarrow> string \<Rightarrow> 'r list" where
  "lenient_list fs zero body = (case parse_json body of
      Some (JArr vs) \<Rightarrow> map (lenient fs zero) vs | _ \<Rightarrow> [])"

text \<open>The structs \<open>service\<close> and \<open>variable\<close> of the client, as tuples.\<close>

definition cli_services :: "string \<Rightarrow> (int \<times> string) list" where
  "cli_services = lenient_list [(''id'', int_field (\<lambda>n r. (n, snd r))), (''key'', str_field (\<lambda>s r. (fst r, s)))] (0, [])"

definition cli_variables :: "string \<Rightarrow> (string \<times> string \<times> int) list" where
  "cli_variables = lenient_list [(''key'', str_field (\<lambda>s (k, v, n). (s, v, n))),
     (''value'', str_field (\<lambda>s (k, v, n). (k, s, n))), (''version'', int_field (\<lambda>i (k, v, n). (k, v, i)))] ([], [], 0)"

text \<open>\<open>url.PathEscape\<close>.\<close>

definition path_plain :: "char \<Rightarrow> bool" where
  "path_plain c \<longleftrightarrow> is_lower c \<or> is_upper c \<or> is_digit c \<or> c \<in> set ''-_.~$&+:=@''"

definition upper_hex :: "nat \<Rightarrow> char" where
  "upper_hex n = (if n < 10 then char_of (48 + n) else char_of (55 + n))"

definition PathEscape :: "string \<Rightarrow> string" where
  "PathEscape s = concat (map (\<lambda>c. if path_plain c then [c]
     else [CHR ''%'', upper_hex (byte c div 16), upper_hex (byte c mod 16)]) s)"

section \<open>The commands\<close>

definition serviceID :: "rest_client \<Rightarrow> string \<Rightarrow> int cli" where
  "serviceID c key = and_then (do_call c ''GET'' ''/api/services'' None) (\<lambda>(out, code).
     if code \<noteq> 200 then fail (''list services: '' @ http_error code out)
     else (case find (\<lambda>s. snd s = key) (cli_services out) of
         Some s \<Rightarrow> done_with (fst s)
       | None \<Rightarrow> fail (''service not found (or no access): '' @ key)))"

definition cli_cmdServices :: "rest_client \<Rightarrow> unit cli" where
  "cli_cmdServices c = and_then (do_call c ''GET'' ''/api/services'' None) (\<lambda>(out, code).
     if code \<noteq> 200 then fail (http_error code out)
     else write_out (concat (map (\<lambda>s. snd s @ [newline]) (cli_services out))))"

definition variables_path :: "int \<Rightarrow> string" where
  "variables_path n = ''/api/services/'' @ FormatInt n @ ''/variables''"

definition cli_cmdGet :: "rest_client \<Rightarrow> string list \<Rightarrow> unit cli" where
  "cli_cmdGet c args = (if length args < 1 then fail ''usage: get <service_key> [KEY]''
     else and_then (serviceID c (args ! 0)) (\<lambda>n.
       and_then (do_call c ''GET'' (variables_path n) None) (\<lambda>(out, code).
       if code \<noteq> 200 then fail (http_error code out)
       else let vars = cli_variables out in
         if length args \<ge> 2
         then (case find (\<lambda>(k, v, n). k = args ! 1) vars of
             Some (k, v, n) \<Rightarrow> println v
           | None \<Rightarrow> fail (''variable not found: '' @ args ! 1))
         else write_out (concat (map (\<lambda>(k, v, n). k @ ''='' @ v @ [newline]) vars)))))"

definition set_body :: "string \<Rightarrow> string" where
  "set_body v = render (JObj [(''value'', JStr v)])"

definition set_path :: "int \<Rightarrow> string \<Rightarrow> string" where
  "set_path n key = variables_path n @ ''/'' @ PathEscape key"

definition cli_cmdSet :: "rest_client \<Rightarrow> string list \<Rightarrow> unit cli" where
  "cli_cmdSet c args = (if length args < 3 then fail ''usage: set <service_key> <KEY> <VALUE>''
     else and_then (serviceID c (args ! 0)) (\<lambda>n.
       and_then (do_call c ''PUT'' (set_path n (args ! 1)) (Some (set_body (args ! 2)))) (\<lambda>(out, code).
       if code \<noteq> 200 then fail (http_error code out)
       else println (''set '' @ args ! 0 @ ''/'' @ args ! 1))))"

definition cli_cmdExport :: "rest_client \<Rightarrow> unit cli" where
  "cli_cmdExport c = and_then (do_call c ''GET'' ''/api/export'' None) (\<lambda>(out, code).
     if code \<noteq> 200 then fail (http_error code out) else write_out out)"

definition cli_cmdImport :: "rest_client \<Rightarrow> string list \<Rightarrow> unit cli" where
  "cli_cmdImport c args = (if length args < 1 then fail ''usage: import <file.json>''
     else (case ce_files (rc_env c) (args ! 0) of
         Inl e \<Rightarrow> fail e
       | Inr data \<Rightarrow> and_then (do_call c ''POST'' ''/api/import'' (Some data)) (\<lambda>(out, code).
           if code \<noteq> 200 then fail (http_error code out) else println out)))"

text \<open>\<open>args\<close> are the arguments after the name of the program.\<close>

definition cli_main :: "cli_env \<Rightarrow> string list \<Rightarrow> unit cli" where
  "cli_main env args = (case args of
      [] \<Rightarrow> usage
    | cmd # rest \<Rightarrow>
        let base = Getenv (ce_environ env) ''DYNOCONF_URL''; token = Getenv (ce_environ env) ''DYNOCONF_TOKEN'' in
        if base = [] \<or> token = [] then fail ''DYNOCONF_URL and DYNOCONF_TOKEN must be set''
        else let c = \<lparr>rc_env = env, rc_base = base, rc_token = token\<rparr> in
          if cmd = ''services'' then cli_cmdServices c
          else if cmd = ''get'' then cli_cmdGet c rest
          else if cmd = ''set'' then cli_cmdSet c rest
          else if cmd = ''export'' then cli_cmdExport c
          else if cmd = ''import'' then cli_cmdImport c rest
          else usage)"

text \<open>The exit code and the outputs of the program.\<close>

definition cli_run :: "cli_env \<Rightarrow> string list \<Rightarrow> nat \<times> cli_state" where
  "cli_run env args = (case cli_main env args \<lparr>cs_out = [], cs_err = [], cs_sent = []\<rparr> of
      (Inl code, s) \<Rightarrow> (code, s) | (Inr _, s) \<Rightarrow> (0, s))"

end
