(* ===== verification/Cli_Properties.thy ===== *)
theory Cli_Properties
  imports Cli Http_Server
begin

text \<open>
  The command line client against the server: its exit code tells the truth, and the request of its
  set command reaches the handler of that variable with that value.
\<close>

section \<open>Exit codes\<close>

text \<open>Every call of the list was answered with status 200.\<close>

definition answered :: "cli_env \<Rightarrow> http_call list \<Rightarrow> bool" where
  "answered env calls \<longleftrightarrow> (\<forall>i < length calls. \<exists>out. ce_server env (take i calls) (calls ! i) = Answer 200 out)"

lemma answered_snoc:
  "answered env calls \<Longrightarrow> ce_server env calls hc = Answer 200 out \<Longrightarrow> answered env (calls @ [hc])"
  by (auto simp: answered_def nth_append less_Suc_eq)

definition honest :: "cli_env \<Rightarrow> 'a cli \<Rightarrow> bool" where
  "honest env m \<longleftrightarrow> (\<forall>s r s'. m s = (r, s') \<longrightarrow> cs_err s = [] \<longrightarrow> answered env (cs_sent s) \<longrightarrow>
     (case r of Inl code \<Rightarrow> (code = 1 \<or> code = 2) \<and> cs_err s' \<noteq> []
      | Inr _ \<Rightarrow> cs_err s' = [] \<and> answered env (cs_sent s')))"

named_theorems honest

lemma honest_simple [honest]:
  "honest env (done_with x)" "honest env (write_out txt)" "honest env (println txt)" "honest env (fail msg)" "honest env usage"
  by (auto simp: honest_def done_with_def write_out_def println_def fail_def usage_def exit_with_def)

lemma honest_then [honest]:
  assumes "honest env m" and "\<And>x. honest env (f x)"
  shows "honest env (and_then m f)"
  unfolding honest_def
proof (intro allI impI)
  fix s r s'
  assume run: "and_then m f s = (r, s')" and s: "cs_err s = []" "answered env (cs_sent s)"
  obtain r1 s1 where m: "m s = (r1, s1)" by fastforce
  show "case r of Inl code \<Rightarrow> (code = 1 \<or> code = 2) \<and> cs_err s' \<noteq> [] | Inr _ \<Rightarrow> cs_err s' = [] \<and> answered env (cs_sent s')"
  proof (cases r1)
    case (Inl c)
    with run m have "r = Inl c" "s' = s1" by (simp_all add: and_then_def)
    with assms(1) m s Inl show ?thesis by (fastforce simp: honest_def)
  next
    case (Inr x)
    with run m have "f x s1 = (r, s')" by (simp add: and_then_def)
    moreover have "cs_err s1 = []" "answered env (cs_sent s1)" using assms(1) m s Inr by (fastforce simp: honest_def)+
    ultimately show ?thesis using assms(2) [of x] unfolding honest_def by blast
  qed
qed

text \<open>A call and the test of its status.\<close>

lemma honest_call [honest]:
  assumes "\<And>out. honest (rc_env c) (f out)"
  shows "honest (rc_env c) (and_then (do_call c method path body) (\<lambda>(out, code). if code \<noteq> 200 then fail (msg code out) else f out))"
  unfolding honest_def
proof (intro allI impI)
  fix s r s'
  let ?call = "call_of (rc_base c) (rc_token c) method path body"
  assume run: "and_then (do_call c method path body) (\<lambda>(out, code). if code \<noteq> 200 then fail (msg code out) else f out) s = (r, s')"
    and s: "cs_err s = []" "answered (rc_env c) (cs_sent s)"
  show "case r of Inl code \<Rightarrow> (code = 1 \<or> code = 2) \<and> cs_err s' \<noteq> [] | Inr _ \<Rightarrow> cs_err s' = [] \<and> answered (rc_env c) (cs_sent s')"
  proof (cases "\<exists>out. ce_url_error (rc_env c) (rc_base c @ path) = None \<and> ce_server (rc_env c) (cs_sent s) ?call = Answer 200 out")
    case True
    then obtain out where ok: "ce_url_error (rc_env c) (rc_base c @ path) = None"
      "ce_server (rc_env c) (cs_sent s) ?call = Answer 200 out" by blast
    let ?s = "s\<lparr>cs_sent := cs_sent s @ [?call]\<rparr>"
    have "f out ?s = (r, s')" using run ok by (simp add: and_then_def do_call_def Let_def)
    moreover have "answered (rc_env c) (cs_sent ?s)" using answered_snoc [OF s(2) ok(2)] by simp
    moreover have "cs_err ?s = []" using s(1) by simp
    ultimately show ?thesis using assms [of out] unfolding honest_def by blast
  next
    case False
    then show ?thesis
      using run s(1)
      by (auto simp: and_then_def do_call_def fail_def exit_with_def Let_def split: option.splits api_answer.splits if_splits)
  qed
qed

lemma honest_if [honest]: "honest env m1 \<Longrightarrow> honest env m2 \<Longrightarrow> honest env (if b then m1 else m2)"
  by simp

lemma honest_option [honest]:
  "honest env m \<Longrightarrow> (\<And>x. honest env (f x)) \<Longrightarrow> honest env (case x of None \<Rightarrow> m | Some y \<Rightarrow> f y)"
  by (cases x) simp_all

lemma honest_sum [honest]:
  "(\<And>x. honest env (f x)) \<Longrightarrow> (\<And>x. honest env (g x)) \<Longrightarrow> honest env (case x of Inl y \<Rightarrow> f y | Inr y \<Rightarrow> g y)"
  by (cases x) simp_all

lemma honest_prod [honest]: "(\<And>x y. honest env (f x y)) \<Longrightarrow> honest env (case p of (x, y) \<Rightarrow> f x y)"
  by (cases p) simp

lemma honest_serviceID: "honest (rc_env c) (serviceID c key)"
  unfolding serviceID_def by (intro honest)

lemma honest_commands:
  "honest (rc_env c) (cli_cmdServices c)" "honest (rc_env c) (cli_cmdGet c args)" "honest (rc_env c) (cli_cmdSet c args)"
  "honest (rc_env c) (cli_cmdExport c)" "honest (rc_env c) (cli_cmdImport c args)"
  unfolding cli_cmdServices_def cli_cmdGet_def cli_cmdSet_def cli_cmdExport_def cli_cmdImport_def Let_def
  by (intro honest honest_serviceID)+

text \<open>C39. A script can rely on the exit code. Whatever the arguments, the environment and the answers:
  the code is 0, 1 or 2; it is 0 exactly if nothing was written to the error output; and then every
  request that was sent was answered with status 200.\<close>

theorem exit_code_is_honest:
  "case cli_run env args of (code, s) \<Rightarrow> code \<in> {0, 1, 2} \<and> (code = 0 \<longleftrightarrow> cs_err s = []) \<and>
     (code \<noteq> 0 \<or> answered env (cs_sent s))"
proof -
  have main: "honest env (cli_main env args)"
    using honest_commands [of "\<lparr>rc_env = env, rc_base = b, rc_token = t\<rparr>" for b t]
    by (simp add: cli_main_def Let_def honest_simple split: list.split)
  obtain r s where run: "cli_main env args \<lparr>cs_out = [], cs_err = [], cs_sent = []\<rparr> = (r, s)" by fastforce
  have "case r of Inl code \<Rightarrow> (code = 1 \<or> code = 2) \<and> cs_err s \<noteq> [] | Inr _ \<Rightarrow> cs_err s = [] \<and> answered env (cs_sent s)"
    using main run unfolding honest_def by (auto simp: answered_def)
  then show ?thesis using run by (auto simp: cli_run_def split: sum.splits)
qed

definition demo_cli :: "(http_call list \<Rightarrow> http_call \<Rightarrow> api_answer) \<Rightarrow> cli_env" where
  "demo_cli server = \<lparr>ce_environ = [''DYNOCONF_URL=http://h'', ''DYNOCONF_TOKEN=dyn_t''], ce_files = (\<lambda>_. Inl ''no such file''),
     ce_url_error = (\<lambda>_. None), ce_server = server\<rparr>"

theorem exit_code_is_honest_witness:
  "fst (cli_run (demo_cli (\<lambda>_ _. Answer 403 ''admin only'')) [''export'']) \<noteq> 0 \<and>
     answered (demo_cli (\<lambda>_ _. Answer 200 ''{}'')) (cs_sent (snd (cli_run (demo_cli (\<lambda>_ _. Answer 200 ''{}'')) [''export''])))"
proof -
  let ?bad = "cli_run (demo_cli (\<lambda>_ _. Answer 403 ''admin only'')) [''export'']"
  let ?good = "cli_run (demo_cli (\<lambda>_ _. Answer 200 ''{}'')) [''export'']"
  have "cs_err (snd ?bad) \<noteq> []" "fst ?good = 0" by code_simp+
  with exit_code_is_honest [of "demo_cli (\<lambda>_ _. Answer 403 ''admin only'')" "[''export'']"]
    exit_code_is_honest [of "demo_cli (\<lambda>_ _. Answer 200 ''{}'')" "[''export'']"]
  show ?thesis by (cases ?bad; cases ?good) auto
qed

section \<open>The set command and the server\<close>

lemma hex_val_upper: "n < 16 \<Longrightarrow> hex_val (upper_hex n) = Some n"
  by (auto simp: hex_val_def upper_hex_def is_digit_def)

lemma path_plain_percent: "path_plain c \<Longrightarrow> c \<noteq> CHR ''%'' \<and> c \<noteq> CHR ''/''"
  by (auto simp: path_plain_def is_lower_def is_upper_def is_digit_def)

lemma PathEscape_Cons:
  "PathEscape (c # s) = (if path_plain c then [c]
     else [CHR ''%'', upper_hex (byte c div 16), upper_hex (byte c mod 16)]) @ PathEscape s"
  by (simp add: PathEscape_def)

lemma nibbles: "byte c div 16 < 16" "byte c mod 16 < 16"
  using byte_less [of c] by (simp_all add: less_mult_imp_div_less)

lemma unescape_escape: "PathUnescape (PathEscape s) = Some s"
proof (induction s)
  case (Cons c s)
  show ?case using Cons nibbles [of c] path_plain_percent [of c]
    by (auto simp: PathEscape_Cons hex_val_upper)
qed (simp add: PathEscape_def)

lemma escape_no_slash: "CHR ''/'' \<notin> set (PathEscape s)"
proof (induction s)
  case (Cons c s)
  have "CHR ''/'' \<noteq> upper_hex n" if "n < 16" for n
  proof
    assume eq: "CHR ''/'' = upper_hex n"
    have "hex_val (CHR ''/'') = None" by code_simp
    with hex_val_upper [OF that] show False unfolding eq [symmetric] by simp
  qed
  from this [OF nibbles(1)] this [OF nibbles(2)] show ?case
    using Cons path_plain_percent [of c] by (auto simp: PathEscape_Cons)
qed (simp add: PathEscape_def)

lemma escape_empty: "PathEscape s = [] \<longleftrightarrow> s = []"
  by (cases s) (auto simp: PathEscape_def)

lemma escape_dots: "PathEscape s = ''.'' \<longleftrightarrow> s = ''.''" "PathEscape s = ''..'' \<longleftrightarrow> s = ''..''"
proof -
  have "PathEscape ''.'' = ''.''" "PathEscape ''..'' = ''..''" by code_simp+
  then show "PathEscape s = ''.'' \<longleftrightarrow> s = ''.''" "PathEscape s = ''..'' \<longleftrightarrow> s = ''..''"
    using unescape_escape by (metis option.inject)+
qed

lemma unescape_plain: "CHR ''%'' \<notin> set s \<Longrightarrow> PathUnescape s = Some s"
  by (induction s) auto

lemma FormatInt_chars: "c \<in> set (FormatInt n) \<Longrightarrow> c = CHR ''-'' \<or> is_digit c"
  by (auto simp: FormatInt_def dest: digits_all split: if_splits)

definition set_segments :: "int \<Rightarrow> string \<Rightarrow> string list" where
  "set_segments n key = [''api'', ''services'', FormatInt n, ''variables'', PathEscape key]"

lemma set_path_join: "set_path n key = join_path (set_segments n key)"
  by (simp add: set_path_def variables_path_def set_segments_def)

lemma set_segments_no_slash: "list_all no_slash (set_segments n key)"
  using FormatInt_chars [of "CHR ''/''" n] escape_no_slash [of key]
  by (auto simp: set_segments_def no_slash_def is_digit_def)

lemma set_path_segments: "split_slash (drop 1 (set_path n key)) = set_segments n key"
  unfolding set_path_join by (rule split_join [OF _ set_segments_no_slash]) (simp add: set_segments_def)

lemma set_path_clean:
  assumes "key \<noteq> []"
  shows "cleanPath (set_path n key) = set_path n key \<longleftrightarrow> key \<noteq> ''.'' \<and> key \<noteq> ''..''"
proof (cases "key = ''.'' \<or> key = ''..''")
  case True
  then have "last (set_segments n key) \<in> {''.'', ''..''}" using escape_dots [of key] by (auto simp: set_segments_def)
  from cleanPath_dots [OF set_segments_no_slash _ this] True show ?thesis
    by (auto simp: set_path_join set_segments_def)
next
  case False
  have "FormatInt n \<noteq> []" "FormatInt n \<noteq> ''.''" "FormatInt n \<noteq> ''..''"
    using FormatInt_chars [of "CHR ''.''" n] by (auto simp: is_digit_def FormatInt_def)
  then have "list_all plain_segment (set_segments n key)"
    using set_segments_no_slash [of n key] False assms escape_dots [of key] escape_empty [of key]
    by (simp add: set_segments_def plain_segment_def no_slash_def)
  then have "cleanPath (set_path n key) = set_path n key"
    unfolding set_path_join by (rule cleanPath_plain) (simp add: set_segments_def)
  with False show ?thesis by simp
qed

lemma route_put: "key \<noteq> [] \<Longrightarrow> d \<noteq> [] \<Longrightarrow>
    route ''PUT'' [''api'', ''services'', d, ''variables'', key] = Some (PutVariableE, [(''id'', d), (''key'', key)])"
  by (simp add: route_def routes_def Let_def match_method_def)

text \<open>C40. The request of the set command reaches the variable that was named. Whatever bytes the key
  holds, slashes and percent signs among them, the router takes it to the handler of that key of that
  service, and the handler decodes exactly the value from the body. Only the keys of one or two dots,
  which the pattern of keys admits, are redirected elsewhere.\<close>

theorem cli_set_reaches_handler:
  assumes "key \<noteq> []" and "int64_min \<le> n" and "n \<le> int64_max" and "utf8_valid v" and "hr_body rq = set_body v"
  shows "mux ''PUT'' (set_path n key) = (if key = ''.'' \<or> key = ''..'' then Redirected
       else Routed (Some (PutVariableE, [(''id'', FormatInt n), (''key'', key)]))) \<and>
     ParseInt (FormatInt n) = Some n \<and> decodeJSON rq put_variable_fields [] = Some v"
proof (intro conjI)
  have "FormatInt n \<noteq> []" by (simp add: FormatInt_def)
  have "PathUnescape (FormatInt n) = Some (FormatInt n)"
    using FormatInt_chars [of "CHR ''%''" n] by (auto simp: is_digit_def intro!: unescape_plain)
  moreover have "PathUnescape ''api'' = Some ''api''" "PathUnescape ''services'' = Some ''services''"
    "PathUnescape ''variables'' = Some ''variables''" by simp_all
  ultimately have all: "map PathUnescape (set_segments n key) =
      map Some [''api'', ''services'', FormatInt n, ''variables'', key]"
    using unescape_escape [of key] by (simp add: set_segments_def del: PathUnescape.simps)
  then have "\<not> list_ex (\<lambda>s. PathUnescape s = None) (set_segments n key)"
    and segs: "map (\<lambda>s. the (PathUnescape s)) (set_segments n key) = [''api'', ''services'', FormatInt n, ''variables'', key]"
    by (simp_all add: set_segments_def del: PathUnescape.simps)
  then show "mux ''PUT'' (set_path n key) = (if key = ''.'' \<or> key = ''..'' then Redirected
       else Routed (Some (PutVariableE, [(''id'', FormatInt n), (''key'', key)])))"
    using set_path_clean [OF assms(1), of n] route_put [OF assms(1) \<open>FormatInt n \<noteq> []\<close>]
    unfolding mux_def path_segments_def set_path_segments segs by auto
  show "ParseInt (FormatInt n) = Some n" by (rule ParseInt_FormatInt [OF assms(2,3)])
  have ok: "json_ok (JObj [(''value'', JStr v)])" using assms(4) by simp
  have "decode_first (set_body v) = Some (JObj [(''value'', JStr v)])"
    using parse_render [OF ok, of "Suc (length (set_body v))" "[]"] by (simp add: decode_first_def set_body_def)
  then show "decodeJSON rq put_variable_fields [] = Some v"
    by (simp add: decodeJSON_def assms(5) decode_struct_def put_variable_fields_def str_field_def)
qed

theorem cli_set_reaches_handler_witness:
  "mux ''PUT'' (set_path 7 ''a/b%'') = Routed (Some (PutVariableE, [(''id'', ''7''), (''key'', ''a/b%'')])) \<and>
     mux ''PUT'' (set_path 7 ''..'') = Redirected"
proof -
  define rq where "rq = \<lparr>hr_vals = [], hr_q = [], hr_body = set_body ''v'', hr_user = None, hr_rand = [], hr_content = Whole\<rparr>"
  have seven: "FormatInt 7 = ''7''" by code_simp
  have "utf8_valid ''v''" "hr_body rq = set_body ''v''" by (simp_all add: rq_def)
  from cli_set_reaches_handler [OF _ _ _ this, of "''a/b%''" 7] cli_set_reaches_handler [OF _ _ _ this, of "''..''" 7]
  show ?thesis unfolding seven by (simp add: int64_min_def int64_max_def)
qed

end
