(* ===== verification/Spec2Isabelle.thy ===== *)
theory Spec2Isabelle
  imports Store_Properties Row_Scan Config_Client Grpc_Server Http_Writes Http_Types Export_Import Auth_Properties Auth_Setup
    Propagation_Properties Client_Run Startup Tgbot_Properties Agent_Properties Watch_Example Server_Main Cli_Properties
begin

text \<open>
  dynoconf is a configuration service. Operators keep key-value variables per service in PostgreSQL,
  over a REST API with a browser interface (\<open>internal/httpserver\<close>), a command line client
  (\<open>cmd/cli\<close>) or a Telegram bot (\<open>internal/tgbot\<close>). Every change is a transaction of
  \<open>internal/store\<close> that also writes a row of history; after the commit the handler publishes an event
  with NOTIFY (\<open>internal/events\<close>). Every replica of the server LISTENs, and its broker hands the event
  to the streams of its gRPC clients (\<open>internal/grpcserver\<close>) and to the browsers that watch
  (\<open>sse.go\<close>). A client (\<open>examples/go-client/configclient\<close>, which the agent in \<open>cmd/agent\<close> embeds)
  first gets a snapshot and then the changes, and lays them over its defaults. \<open>cmd/server\<close> puts the
  server together from the configuration (\<open>internal/config\<close>).

  This development models these parts and proves what they promise, alone and together. It is a shallow
  embedding: a Go function is a HOL function of the same name, a struct a record, an integer of Go an
  \<open>int\<close> with the wrap-around of 64 bits written out (\<open>int64\<close> in \<open>Prelude\<close>), a string a list of bytes.
\<close>

section \<open>The theories and the code\<close>

text \<open>
  Ground.
  \<^item> \<open>Prelude\<close>: the collections of lemmas (\<open>pres\<close>, \<open>calm\<close>, \<open>run_simps\<close>, \<open>const_simps\<close>), 64-bit integers,
    table scans and ORDER BY on lists. \<open>Go_Strings\<close>: what is used of \<open>strings\<close>, \<open>strconv\<close>, \<open>utf8\<close> and
    \<open>regexp\<close>. \<open>Go_Env\<close>: the environment of a process. \<open>Json\<close> and \<open>Json_Indent\<close>: the writers of
    \<open>encoding/json\<close> and a reader. \<open>Counted_Loop\<close>: loops that run until a context ends.

  The store (\<open>internal/store\<close>).
  \<^item> \<open>Models\<close>: \<open>models.go\<close>. \<open>Database\<close>: tables, sequences, clock, the programs of SQL statements, their
    failures and transactions.
  \<^item> \<open>Store_Services\<close>, \<open>Store_Variables\<close>, \<open>Store_Users\<close> (also permissions, favorites, tokens, settings),
    \<open>Store_Audit\<close>, \<open>Store_Connections\<close>: one definition for each method of the files of these names.
    \<open>Row_Scan\<close>: the loops that read the rows of a query, and why a query is one statement.
  \<^item> \<open>Version_Log\<close>: the specification of the variables, a log of changes per service and commands on it,
    with the locale \<open>versioned_store\<close>. \<open>Store_History\<close>: the tables as a log, and that the transactions
    implement the commands (interpretation \<open>vs\<close>).
  \<^item> \<open>Store\<close>: all operations as one data type, the invariant of all tables, the steps and reachable
    states. \<open>Store_Frames\<close>: what an operation leaves alone. \<open>Store_Properties\<close>: the properties.
  \<^item> \<open>Startup\<close>: \<open>store.go\<close>, and the loop of \<open>Run\<close> in \<open>broker.go\<close> (interpretation \<open>lp\<close> of \<open>counted_loop\<close>).

  Events and streams.
  \<^item> \<open>Broker\<close>: \<open>broker.go\<close>: events, their JSON, publishing, subscriptions with bounded buffers; the
    contract that streams rely on is the locale \<open>subscription\<close>, interpreted as \<open>br\<close>.
  \<^item> \<open>Grpc_Server\<close>: \<open>server.go\<close> and \<open>conntracker.go\<close>. \<open>Http_Sse\<close>: \<open>sse.go\<close>. Both handlers are machines
    with a step for every access to state that others share.
  \<^item> \<open>Config_Client\<close> and \<open>Client_Run\<close>: the client, its messages and its reconnect loop (interpretation
    \<open>rl\<close> of \<open>counted_loop\<close>).
  \<^item> \<open>Write_Effects\<close>: what a committed write does to a configuration, as its event says it.
    \<open>Propagation\<close>: writers, replicas, streams and clients together, as a relation of interleaved steps,
    with \<open>Propagation_Streams\<close> (one stream), \<open>Propagation_Invariant\<close> (all of it),
    \<open>Propagation_Progress\<close> (runs that bring a client up to date) and \<open>Propagation_Properties\<close>.

  The server's other faces.
  \<^item> \<open>Actions\<close>: the audit logger and its Telegram notifications (\<open>audit.go\<close>, part of \<open>bot.go\<close>). \<open>Web\<close>:
    requests, responses, bodies, and the programs of handlers with a logic for them. \<open>Http_Access\<close>:
    \<open>authz.go\<close>. \<open>Url_Path\<close>: the paths of \<open>net/url\<close> and \<open>path\<close>. \<open>Http_Handlers\<close>: the files \<open>handlers_*.go\<close>
    and the static files. \<open>Http_Server\<close>: the routes, the answers of the router itself (405, redirects) and the
    middleware.
  \<^item> \<open>Http_Logic\<close>: the locale \<open>request_contract\<close>, what the groups of store operations have to keep for the
    user of a request; \<open>Http_Contract\<close>: every handler keeps it. It is interpreted four ways: the
    invariant of the tables (\<open>inv\<close>), and by lemmas of \<open>Http_Properties\<close> the protection of services, the
    confinement of responses, and requests without a user. \<open>Http_Writes\<close>: the writing endpoints against
    \<open>Version_Log\<close>. \<open>Http_Types\<close>: what each endpoint answers.
  \<^item> \<open>Export_Document\<close>, \<open>Export_Import\<close>: the document of an export, and its import as a whole.
  \<^item> \<open>Auth\<close>, \<open>Auth_Properties\<close>, \<open>Auth_Setup\<close>: \<open>internal/auth\<close>: sessions, login, tokens; who is let in;
    the set up and a login across replicas.
  \<^item> \<open>Tgbot\<close>, \<open>Tgbot_Properties\<close>: the commands of the bot and its polling loop.

  The programs.
  \<^item> \<open>Server_Config\<close>: \<open>config.go\<close>. \<open>Server_Main\<close>: \<open>cmd/server\<close> and \<open>migrate.go\<close>, start and shutdown.
  \<^item> \<open>Agent\<close>, \<open>Agent_Properties\<close>: \<open>cmd/agent\<close>. \<open>Watch_Example\<close>: \<open>examples/go-client/main.go\<close>.
    \<open>Cli\<close>, \<open>Cli_Properties\<close>: \<open>cmd/cli\<close>, and its set command against the server.
\<close>

section \<open>What is shown\<close>

text \<open>
  \<^item> Store. Every transaction on variables refines a command on the log of its service, or changes
    nothing; the current configuration is the replay of the log; a rollback restores an old value; a
    bulk write is all or nothing; all tables keep their keys and references in every reachable state;
    logins never take a role away. Opening the store always comes to an end.
  \<^item> API. Only editors change a service; a response carries only what its user may read (the live feed of
    \<open>sse.go\<close>, which is no response, sends everything to everybody); requests without a user change no table,
    but for the last use of their token when the database fails in between; hidden services look like
    missing ones; every response has the type of its endpoint; the status of PUT, DELETE and rollback tells
    whether it happened, and a successful write is announced; the import of an export brings back the
    exported configurations.
  \<^item> Authentication. A request is authenticated as a user that the database has now; a callback is
    completed exactly with the state of the browser and a verified token with its nonce, where a missing
    nonce cookie counts as an empty nonce; a login at one replica is good at all that have the secret; a
    token leads back to its user and not to another.
  \<^item> Propagation. A client that everything has reached has exactly the configuration of the
    database; from every reachable state a run that announces what is owed gets it there over the stream it
    has; no subscription outlives its stream, a full buffer keeps the first events; and, as a limit,
    announcements may overtake each other. The
    reconnect loop of the client ends exactly if its context does, and a reconnect brings a snapshot.
  \<^item> Programs. The bot changes only by commands of listed senders, does what they say, and takes each update
    once; exactly two causes end it with a panic; a shell that sources the dotenv file of the agent gets the
    configuration back exactly if no value holds a dollar sign, a backquote or a line feed; the file is never
    torn and follows the client; the configuration is complete or refused; the server starts in order and bounds its
    audit log; the exit code of the command line client is honest, and its set command reaches the
    handler.

  Each group of lemmas goes with its operations: for an operation of the store the lemma of its
  outcomes, its preservation of the invariant (\<open>pres\<close>), and its frame; for a handler its triple
  (\<open>hoare\<close>) and its type (\<open>outcomes\<close>); for a machine its invariant over the steps.
\<close>

section \<open>Parameters, bounds and fuel\<close>

text \<open>
  \<^item> \<open>faults\<close> in the state of the database says of every statement to come whether it fails; the empty
    list means that none does. Theorems without a condition on it hold for all failures.
  \<^item> What the file server answers for an embedded file (the whole, a part, not modified) is given with the
    request, since it depends on headers and times; the statuses and bodies are those of \<open>net/http\<close>.
  \<^item> Collation and ILIKE belong to the database; the cookie codec, the hash, the OIDC provider, the Bot
    API, golang-migrate, listeners, the texts of errors and the verb \<open>%q\<close> are functions that the
    definitions take, with what is relied on as hypotheses of the theorems that need it.
  \<^item> A map of Go that a loop visits is a list in the order of the visit, and the theorems hold for every
    order.
  \<^item> A subscription buffers 64 events (\<open>chan_cap\<close>), a NOTIFY payload has less than 8000 bytes, an import at
    most 10 MiB, the store is tried 30 times, the client waits at most 30 seconds between its attempts: all
    as in the code.
  \<^item> The reader of JSON has the length of the text and one as fuel. Each level of it takes a byte, and
    the round trips show that it is enough for every text that the program writes.
  \<^item> A loop that waits for a context is \<open>while_option\<close>: None is a loop that never ends. Each such loop has a
    theorem that says exactly when it ends. What the outside does in each turn is a function of the
    number of the turn.
  \<^item> A panic of the bot is None; a panic in an HTTP handler does not occur in the model, because every
    index and dereference of the handlers is behind its check.
\<close>

section \<open>Not modelled\<close>

text \<open>
  \<^item> The generated protocol code, the browser interface with its embedded assets, the container for the
    tests and the notes on a Java client: generated, in another language, or not part of the program.
  \<^item> The SQL files: golang-migrate runs them. Their constraints (keys, references with their cascades,
    checks, defaults) are part of the statements in the store theories.
  \<^item> Transactions are serial here. The places where the code depends on more are named with the property
    about announcements out of order and not excluded by a theorem.
  \<^item> A query is one statement that gives all its rows or fails (\<open>Row_Scan\<close> has the loops); the limits of the connection pool,
    TLS, timeouts of servers, keep-alives, log output of the server and response headers of streams are
    not modelled.
  \<^item> The lines that remain are import lists, declarations of structs whose fields are wiring, calls of the
    logger, and the closing of resources.
\<close>

end
